(* ===== verification/Prelude.thy ===== *)
theory Prelude
  imports Main "HOL-Library.Word" "HOL-Library.Char_ord" "HOL-Library.List_Lexorder"
begin

text \<open>
  Shared vocabulary of the development: the parts of the C++ language and of its standard
  library that the backend uses on strings and integers (\<^verbatim>\<open>std::string::find\<close>, \<^verbatim>\<open>rfind(p, 0)\<close>,
  \<^verbatim>\<open>find_first_not_of\<close>, \<^verbatim>\<open>substr\<close>, \<^verbatim>\<open>std::tolower\<close>, \<^verbatim>\<open>std::isxdigit\<close>, \<^verbatim>\<open>std::to_string\<close>,
  \<^verbatim>\<open>std::stoi\<close>, \<^verbatim>\<open>std::getline\<close>), with the lemmas every component uses about them.
  A \<^verbatim>\<open>std::string\<close> is a list of bytes, HOL's \<^typ>\<open>string\<close>; \<^verbatim>\<open>npos\<close> is \<^term>\<open>None\<close>.
\<close>

named_theorems str_simps \<open>rewriting the string operations of the C++ library\<close>

type_synonym u8 = "8 word"
type_synonym u32 = "32 word"
type_synonym u64 = "64 word"

section \<open>Results\<close>

text \<open>Going on with a result, unless it is an error.\<close>

definition sum_bind :: "'e + 'a \<Rightarrow> ('a \<Rightarrow> 'e + 'b) \<Rightarrow> 'e + 'b" where
  "sum_bind r f = (case r of Inl e \<Rightarrow> Inl e | Inr x \<Rightarrow> f x)"

lemma sum_bind_Inr [simp]: "sum_bind (Inr x) f = f x" "sum_bind (Inl e) f = Inl e"
  by (simp_all add: sum_bind_def)

lemma sum_bind_eq_Inr: "sum_bind r f = Inr y \<longleftrightarrow> (\<exists>x. r = Inr x \<and> f x = Inr y)"
  by (cases r) (simp_all add: sum_bind_def)

lemma sum_bind_cong [fundef_cong]: "r = r' \<Longrightarrow> (\<And>x. r' = Inr x \<Longrightarrow> f x = g x) \<Longrightarrow> sum_bind r f = sum_bind r' g"
  by (cases r') (simp_all add: sum_bind_def)

section \<open>Searching\<close>

text \<open>\<^verbatim>\<open>s.rfind(p, 0) == 0\<close>: \<open>p\<close> is a prefix of \<open>s\<close>.\<close>

definition starts_with :: "string \<Rightarrow> string \<Rightarrow> bool" where
  "starts_with s p \<longleftrightarrow> take (length p) s = p"

text \<open>\<^verbatim>\<open>s.find(p)\<close>: the first position at which \<open>p\<close> occurs.\<close>

fun str_find :: "string \<Rightarrow> string \<Rightarrow> nat option" where
  "str_find [] p = (if p = [] then Some 0 else None)"
| "str_find (c # s) p =
     (if starts_with (c # s) p then Some 0 else map_option Suc (str_find s p))"

text \<open>\<^verbatim>\<open>s.find(p, i)\<close>.\<close>

definition find_from :: "string \<Rightarrow> string \<Rightarrow> nat \<Rightarrow> nat option" where
  "find_from s p i =
     (if length s < i then None else map_option (\<lambda>j. i + j) (str_find (drop i s) p))"

text \<open>\<^verbatim>\<open>s.find(p) != npos\<close>.\<close>

definition str_contains :: "string \<Rightarrow> string \<Rightarrow> bool" where
  "str_contains s p \<longleftrightarrow> str_find s p \<noteq> None"

text \<open>\<^verbatim>\<open>s.rfind(c)\<close> for one character: the last position of \<open>c\<close>.\<close>

fun str_rfind :: "string \<Rightarrow> char \<Rightarrow> nat option" where
  "str_rfind [] c = None"
| "str_rfind (x # s) c =
     (case str_rfind s c of Some i \<Rightarrow> Some (Suc i) | None \<Rightarrow> if x = c then Some 0 else None)"

lemma starts_with_append [simp]: "starts_with (p @ s) p"
  by (simp add: starts_with_def)

lemma starts_with_iff: "starts_with s p \<longleftrightarrow> (\<exists>r. s = p @ r)"
  by (metis append_take_drop_id starts_with_append starts_with_def)

lemma starts_with_Nil [simp]: "starts_with s []"
  by (simp add: starts_with_def)

lemma starts_with_Nil_left [simp]: "starts_with [] p \<longleftrightarrow> p = []"
  by (auto simp: starts_with_def)

lemma starts_with_Cons [simp]:
  "starts_with (c # s) (d # p) \<longleftrightarrow> c = d \<and> starts_with s p"
  by (auto simp: starts_with_def)

lemma starts_with_length: "starts_with s p \<Longrightarrow> length p \<le> length s"
  by (auto simp: starts_with_iff)

lemma str_find_SomeD:
  "str_find s p = Some i \<Longrightarrow> i + length p \<le> length s \<and> starts_with (drop i s) p"
proof (induction s p arbitrary: i rule: str_find.induct)
  case (1 p)
  then show ?case by (simp split: if_splits)
next
  case (2 c s p)
  then show ?case
    by (auto simp: starts_with_length split: if_splits dest: starts_with_length)
qed

lemma str_find_least:
  "str_find s p = Some i \<Longrightarrow> j < i \<Longrightarrow> \<not> starts_with (drop j s) p"
proof (induction s p arbitrary: i j rule: str_find.induct)
  case (1 p)
  then show ?case by (simp split: if_splits)
next
  case (2 c s p)
  then show ?case by (cases j) (auto split: if_splits)
qed

lemma str_find_None: "str_find s p = None \<longleftrightarrow> (\<forall>j \<le> length s. \<not> starts_with (drop j s) p)"
proof (induction s p rule: str_find.induct)
  case (1 p)
  then show ?case by simp
next
  case (2 c s p)
  have *: "(\<forall>j \<le> length (c # s). \<not> starts_with (drop j (c # s)) p) \<longleftrightarrow>
      \<not> starts_with (c # s) p \<and> (\<forall>j \<le> length s. \<not> starts_with (drop j s) p)"
  proof -
    have "\<And>j. j \<le> length (c # s) \<longleftrightarrow> j = 0 \<or> (\<exists>k. j = Suc k \<and> k \<le> length s)"
      by (auto simp: less_Suc_eq_le Suc_le_eq dest: not0_implies_Suc)
    then show ?thesis by auto
  qed
  show ?case by (simp only: * str_find.simps) (simp add: "2.IH")
qed

lemma str_contains_iff: "str_contains s p \<longleftrightarrow> (\<exists>a b. s = a @ p @ b)"
proof
  assume "str_contains s p"
  then obtain i where "str_find s p = Some i"
    by (auto simp: str_contains_def)
  then have "starts_with (drop i s) p"
    by (blast dest: str_find_SomeD)
  then show "\<exists>a b. s = a @ p @ b"
    by (metis append_take_drop_id starts_with_iff)
next
  assume "\<exists>a b. s = a @ p @ b"
  then obtain a b where s: "s = a @ p @ b" by blast
  then have "length a \<le> length s" "starts_with (drop (length a) s) p"
    by simp_all
  then show "str_contains s p"
    unfolding str_contains_def using str_find_None by blast
qed

lemma str_find_app:
  assumes "str_find s p = Some i"
  shows "s = take i s @ p @ drop (i + length p) s"
proof -
  from assms have "starts_with (drop i s) p" by (blast dest: str_find_SomeD)
  then obtain r where r: "drop i s = p @ r" by (auto simp: starts_with_iff)
  then have "drop (i + length p) s = r"
    by (metis add.commute append_eq_conv_conj drop_drop)
  with r show ?thesis by (metis append_take_drop_id)
qed

text \<open>Searching for one character: it stops at the first one.\<close>

lemma str_find_char:
  "c \<notin> set a \<Longrightarrow> str_find (a @ c # b) [c] = Some (length a)"
  by (induction a) auto

lemma str_find_char_None: "str_find s [c] = None \<longleftrightarrow> c \<notin> set s"
  by (induction s) (auto split: if_splits)

lemma str_find_char_SomeD:
  "str_find s [c] = Some i \<Longrightarrow> i < length s \<and> s ! i = c \<and> c \<notin> set (take i s)"
proof (induction s arbitrary: i)
  case Nil
  then show ?case by simp
next
  case (Cons x s)
  then show ?case by (cases i) (auto split: if_splits)
qed

lemma str_rfind_None: "str_rfind s c = None \<longleftrightarrow> c \<notin> set s"
  by (induction s) (auto split: option.splits)

lemma str_rfind_SomeD:
  "str_rfind s c = Some i \<Longrightarrow> i < length s \<and> s ! i = c \<and> c \<notin> set (drop (Suc i) s)"
  by (induction s arbitrary: i)
     (auto split: option.splits if_splits simp: str_rfind_None nth_Cons')

lemma str_rfind_append:
  "c \<notin> set b \<Longrightarrow> str_rfind (a @ c # b) c = Some (length a)"
  by (induction a) (auto simp: str_rfind_None split: option.splits)

section \<open>Trimming\<close>

text \<open>\<^verbatim>\<open>s.find_first_not_of(cs)\<close> and \<^verbatim>\<open>s.find_last_not_of(cs)\<close>.\<close>

fun find_first_not_of :: "string \<Rightarrow> string \<Rightarrow> nat option" where
  "find_first_not_of [] cs = None"
| "find_first_not_of (c # s) cs =
     (if c \<in> set cs then map_option Suc (find_first_not_of s cs) else Some 0)"

fun find_last_not_of :: "string \<Rightarrow> string \<Rightarrow> nat option" where
  "find_last_not_of [] cs = None"
| "find_last_not_of (c # s) cs =
     (case find_last_not_of s cs of
        Some i \<Rightarrow> Some (Suc i)
      | None \<Rightarrow> if c \<in> set cs then None else Some 0)"

definition ws_chars :: string where
  "ws_chars = [CHR '' '', CHR 0x09, CHR 0x0A, CHR 0x0D]"

text \<open>Both ends trimmed, the reference for the code's index computations.\<close>

definition strip_both :: "string \<Rightarrow> string \<Rightarrow> string" where
  "strip_both cs s = rev (dropWhile (\<lambda>c. c \<in> set cs) (rev (dropWhile (\<lambda>c. c \<in> set cs) s)))"

lemma find_first_not_of_None: "find_first_not_of s cs = None \<longleftrightarrow> set s \<subseteq> set cs"
  by (induction s) auto

lemma find_last_not_of_None: "find_last_not_of s cs = None \<longleftrightarrow> set s \<subseteq> set cs"
  by (induction s) (auto split: option.splits)

lemma find_first_not_of_drop:
  "find_first_not_of s cs = Some i \<Longrightarrow>
   i < length s \<and> s ! i \<notin> set cs \<and> drop i s = dropWhile (\<lambda>c. c \<in> set cs) s"
  by (induction s arbitrary: i) (auto split: if_splits)

lemma find_last_not_of_SomeD:
  "find_last_not_of s cs = Some i \<Longrightarrow>
   i < length s \<and> s ! i \<notin> set cs \<and> set (drop (Suc i) s) \<subseteq> set cs"
  by (induction s arbitrary: i)
     (auto split: option.splits if_splits simp: find_last_not_of_None)

lemma dropWhile_rev_take:
  assumes "i < length s" "s ! i \<notin> set cs" "set (drop (Suc i) s) \<subseteq> set cs"
  shows "rev (dropWhile (\<lambda>c. c \<in> set cs) (rev s)) = take (Suc i) s"
proof -
  have "rev s = rev (drop (Suc i) s) @ rev (take (Suc i) s)"
    by (metis append_take_drop_id rev_append)
  moreover have "rev (take (Suc i) s) = s ! i # rev (take i s)"
    using assms(1) by (simp add: take_Suc_conv_app_nth)
  ultimately have "dropWhile (\<lambda>c. c \<in> set cs) (rev s) = rev (take (Suc i) s)"
    using assms(2,3) by (subst (asm) (2) \<open>rev (take (Suc i) s) = s ! i # rev (take i s)\<close>)
      (auto simp: dropWhile_append subset_iff \<open>rev (take (Suc i) s) = s ! i # rev (take i s)\<close>)
  then show ?thesis by simp
qed

lemma trim_indices:
  assumes "find_first_not_of s cs = Some a" "find_last_not_of s cs = Some b"
  shows "take (b - a + 1) (drop a s) = strip_both cs s" "a \<le> b"
proof -
  note A = find_first_not_of_drop[OF assms(1)] and B = find_last_not_of_SomeD[OF assms(2)]
  show ab: "a \<le> b"
  proof (rule ccontr)
    assume "\<not> a \<le> b"
    then have "Suc b \<le> a" by simp
    then have "s ! a \<in> set (drop (Suc b) s)"
      using A by (metis Cons_nth_drop_Suc in_set_conv_decomp le_iff_add nth_append_length
          set_drop_subset_set_drop subset_iff list.set_intros(1))
    with A B show False by auto
  qed
  have "rev (dropWhile (\<lambda>c. c \<in> set cs) (rev (drop a s))) = take (Suc (b - a)) (drop a s)"
  proof (rule dropWhile_rev_take)
    show "b - a < length (drop a s)" using B ab by auto
    show "drop a s ! (b - a) \<notin> set cs" using B ab by simp
    show "set (drop (Suc (b - a)) (drop a s)) \<subseteq> set cs" using B ab by simp
  qed
  then show "take (b - a + 1) (drop a s) = strip_both cs s"
    using A by (simp add: strip_both_def)
qed

lemma strip_both_empty: "set s \<subseteq> set cs \<Longrightarrow> strip_both cs s = []"
  by (auto simp: strip_both_def subset_iff dest: set_dropWhileD)

lemma set_strip_both: "set (strip_both cs s) \<subseteq> set s"
  by (auto simp: strip_both_def dest!: set_dropWhileD)

lemma hd_strip_both: "strip_both cs s \<noteq> [] \<Longrightarrow> hd (strip_both cs s) \<notin> set cs"
proof -
  assume ne: "strip_both cs s \<noteq> []"
  let ?P = "\<lambda>c. c \<in> set cs" and ?t = "dropWhile (\<lambda>c. c \<in> set cs) s"
  obtain u where u: "?t = rev (dropWhile ?P (rev ?t)) @ u"
    by (metis rev_append rev_rev_ident takeWhile_dropWhile_id)
  then have t: "?t = strip_both cs s @ u" by (simp add: strip_both_def)
  with ne have "?t \<noteq> []" and "hd ?t = hd (strip_both cs s)"
    by (simp_all only: append_is_Nil_conv hd_append2 not_False_eq_True) simp_all
  then show ?thesis using hd_dropWhile[of ?P s] by metis
qed

lemma last_strip_both: "strip_both cs s \<noteq> [] \<Longrightarrow> last (strip_both cs s) \<notin> set cs"
  using hd_dropWhile[of "\<lambda>c. c \<in> set cs" "rev (dropWhile (\<lambda>c. c \<in> set cs) s)"]
  by (simp add: strip_both_def last_rev)

lemma strip_both_id:
  assumes "s \<noteq> []" "hd s \<notin> set cs" "last s \<notin> set cs"
  shows "strip_both cs s = s"
proof -
  have "dropWhile (\<lambda>c. c \<in> set cs) s = s" using assms(1,2) by (cases s) auto
  moreover have "dropWhile (\<lambda>c. c \<in> set cs) (rev s) = rev s"
    using assms(1,3) by (cases s rule: rev_cases) auto
  ultimately show ?thesis by (simp add: strip_both_def)
qed

lemma strip_both_idem: "strip_both cs (strip_both cs s) = strip_both cs s"
  by (metis hd_strip_both last_strip_both strip_both_empty strip_both_id
      empty_subsetI list.set(1))

section \<open>Characters\<close>

text \<open>\<^verbatim>\<open>std::tolower\<close>, \<^verbatim>\<open>std::isxdigit\<close>, \<^verbatim>\<open>std::isdigit\<close> and \<^verbatim>\<open>std::isspace\<close> in the C locale.\<close>

abbreviation ord8 :: "char \<Rightarrow> nat" where
  "ord8 c \<equiv> of_char c"

definition tolower :: "char \<Rightarrow> char" where
  "tolower c = (if 65 \<le> ord8 c \<and> ord8 c \<le> 90 then char_of (ord8 c + 32) else c)"

definition isdigit :: "char \<Rightarrow> bool" where
  "isdigit c \<longleftrightarrow> 48 \<le> ord8 c \<and> ord8 c \<le> 57"

definition isxdigit :: "char \<Rightarrow> bool" where
  "isxdigit c \<longleftrightarrow> isdigit c \<or> (65 \<le> ord8 c \<and> ord8 c \<le> 70) \<or> (97 \<le> ord8 c \<and> ord8 c \<le> 102)"

definition isspace :: "char \<Rightarrow> bool" where
  "isspace c \<longleftrightarrow> ord8 c = 32 \<or> (9 \<le> ord8 c \<and> ord8 c \<le> 13)"

text \<open>\<^verbatim>\<open>std::transform(s.begin(), s.end(), s.begin(), ::tolower)\<close>.\<close>

abbreviation lower :: "string \<Rightarrow> string" where
  "lower s \<equiv> map tolower s"

lemma ord8_less [simp]: "ord8 c < 256"
  by (metis mod_less_divisor of_char_mod_256 zero_less_numeral)

lemma ord8_tolower: "ord8 (tolower c) = (if 65 \<le> ord8 c \<and> ord8 c \<le> 90 then ord8 c + 32 else ord8 c)"
  by (simp add: tolower_def)

lemma tolower_idem [simp]: "tolower (tolower c) = tolower c"
  by (simp add: tolower_def)

lemma lower_idem [simp]: "lower (lower s) = lower s"
  by (simp add: comp_def)

lemma tolower_ws [simp]: "tolower c \<in> set ws_chars \<longleftrightarrow> c \<in> set ws_chars"
proof -
  have *: "\<And>d. d \<in> set ws_chars \<longleftrightarrow> ord8 d \<in> {32, 9, 10, 13}"
    by (auto simp: ws_chars_def simp flip: of_char_eq_iff [where ?'a = nat])
  show ?thesis by (simp add: * ord8_tolower)
qed

section \<open>Numbers as text\<close>

definition digit_char :: "nat \<Rightarrow> char" where
  "digit_char d = char_of (48 + d)"

text \<open>\<^verbatim>\<open>std::to_string\<close> on an integer of any width.\<close>

fun nat_to_string :: "nat \<Rightarrow> string" where
  "nat_to_string n =
     (if n < 10 then [digit_char n] else nat_to_string (n div 10) @ [digit_char (n mod 10)])"

declare nat_to_string.simps [simp del]

definition to_string :: "int \<Rightarrow> string" where
  "to_string i = (if i < 0 then CHR ''-'' # nat_to_string (nat (- i)) else nat_to_string (nat i))"

text \<open>The value of a run of decimal digits, and the run at the front of a string.\<close>

definition digits_val :: "string \<Rightarrow> nat" where
  "digits_val ds = foldl (\<lambda>a c. a * 10 + (ord8 c - 48)) 0 ds"

definition num_prefix :: "string \<Rightarrow> string" where
  "num_prefix s = takeWhile isdigit s"

text \<open>
  \<^verbatim>\<open>std::stoi\<close> and \<^verbatim>\<open>std::stoll\<close>: skip white space, take a sign and a run of digits, ignore what
  follows; \<^verbatim>\<open>std::invalid_argument\<close> without digits, \<^verbatim>\<open>std::out_of_range\<close> outside the range of
  the \<open>w\<close>-bit type. The error is the exception's \<^verbatim>\<open>what()\<close>.
\<close>

definition strto_signed :: "nat \<Rightarrow> string \<Rightarrow> string \<Rightarrow> string + int" where
  "strto_signed w name s =
     (let t = dropWhile isspace s;
          neg = starts_with t ''-'';
          u = (if neg \<or> starts_with t ''+'' then tl t else t);
          ds = num_prefix u;
          v = (if neg then - int (digits_val ds) else int (digits_val ds))
      in if ds = [] then Inl name
         else if v < - (2 ^ (w - 1)) \<or> 2 ^ (w - 1) \<le> v then Inl name
         else Inr v)"

definition stoi :: "string \<Rightarrow> string + int" where
  "stoi s = strto_signed 32 ''stoi'' s"

definition stoll :: "string \<Rightarrow> string + int" where
  "stoll s = strto_signed 64 ''stoll'' s"

lemma ord8_digit_char [simp]: "d < 10 \<Longrightarrow> ord8 (digit_char d) = 48 + d"
  by (simp add: digit_char_def)

lemma isdigit_digit_char [simp]: "d < 10 \<Longrightarrow> isdigit (digit_char d)"
  by (simp add: isdigit_def)

lemma nat_to_string_ne [simp]: "nat_to_string n \<noteq> []"
  by (subst nat_to_string.simps) simp

lemma nat_to_string_digits: "\<forall>c \<in> set (nat_to_string n). isdigit c"
proof (induction n rule: nat_to_string.induct)
  case (1 n)
  then show ?case by (subst nat_to_string.simps) auto
qed

lemma digits_val_snoc: "digits_val (ds @ [c]) = digits_val ds * 10 + (ord8 c - 48)"
  by (simp add: digits_val_def)

lemma digits_val_to_string [simp]: "digits_val (nat_to_string n) = n"
proof (induction n rule: nat_to_string.induct)
  case (1 n)
  show ?case
  proof (cases "n < 10")
    case True
    then show ?thesis by (subst nat_to_string.simps) (simp add: digits_val_def)
  next
    case False
    with 1 have "digits_val (nat_to_string (n div 10)) = n div 10" by simp
    with False show ?thesis
      by (subst nat_to_string.simps) (simp add: digits_val_snoc)
  qed
qed

lemma nat_to_string_inject [simp]: "nat_to_string m = nat_to_string n \<longleftrightarrow> m = n"
  by (metis digits_val_to_string)

lemma num_prefix_to_string [simp]: "num_prefix (nat_to_string n) = nat_to_string n"
  using nat_to_string_digits by (simp add: num_prefix_def takeWhile_eq_all_conv)

lemma not_isdigit_punct [simp]:
  "\<not> isdigit (CHR '':'')" "\<not> isdigit (CHR ''-'')" "\<not> isdigit (CHR ''+'')" "\<not> isdigit (CHR ''/'')"
  by (simp_all add: isdigit_def)

lemma to_string_inject [simp]: "to_string i = to_string j \<longleftrightarrow> i = j"
proof -
  have "\<And>n. CHR ''-'' \<notin> set (nat_to_string n)"
    using nat_to_string_digits not_isdigit_punct(2) by blast
  then have "\<And>n r. nat_to_string n \<noteq> CHR ''-'' # r" by (metis list.set_intros(1))
  then show ?thesis by (auto simp: to_string_def dest: sym)
qed

lemma to_string_no_colon: "CHR '':'' \<notin> set (to_string i)"
proof -
  have "\<And>n. CHR '':'' \<notin> set (nat_to_string n)"
    using nat_to_string_digits not_isdigit_punct(1) by blast
  then show ?thesis by (simp add: to_string_def)
qed

text \<open>Reading back what \<^verbatim>\<open>std::to_string\<close> printed.\<close>

lemma strto_signed_to_string:
  assumes "- (2 ^ (w - 1)) \<le> i" "i < 2 ^ (w - 1)"
  shows "strto_signed w name (to_string i) = Inr i"
proof -
  have sp: "\<And>c. isdigit c \<Longrightarrow> \<not> isspace c" by (auto simp: isdigit_def isspace_def)
  obtain c r where n: "nat_to_string (nat \<bar>i\<bar>) = c # r" and c: "isdigit c"
    using nat_to_string_digits[of "nat \<bar>i\<bar>"] nat_to_string_ne[of "nat \<bar>i\<bar>"]
    by (metis list.exhaust list.set_intros(1))
  have ds: "num_prefix (c # r) = c # r" "digits_val (c # r) = nat \<bar>i\<bar>"
    using num_prefix_to_string digits_val_to_string n by metis+
  show ?thesis
  proof (cases "i < 0")
    case True
    then have "to_string i = CHR ''-'' # c # r"
      using n by (simp add: to_string_def)
    with True ds assms show ?thesis
      by (simp add: strto_signed_def isspace_def)
  next
    case False
    then have "to_string i = c # r" using n by (simp add: to_string_def)
    with False ds assms c sp show ?thesis
      by (auto simp: strto_signed_def Let_def isdigit_def)
  qed
qed

section \<open>Hexadecimal\<close>

text \<open>The value of one hexadecimal digit and of a run of them (\<^verbatim>\<open>std::stoul(hex, nullptr, 16)\<close>).\<close>

definition hex_val :: "char \<Rightarrow> nat" where
  "hex_val c = (if isdigit c then ord8 c - 48
                else if 97 \<le> ord8 c then ord8 c - 87 else ord8 c - 55)"

definition stoul_hex :: "string \<Rightarrow> nat" where
  "stoul_hex ds = foldl (\<lambda>a c. a * 16 + hex_val c) 0 ds"

lemma hex_val_less: "isxdigit c \<Longrightarrow> hex_val c < 16"
  by (auto simp: isxdigit_def hex_val_def isdigit_def)

section \<open>Lines\<close>

text \<open>
  The lines \<^verbatim>\<open>std::getline\<close> delivers from a file's contents: separated by newlines, with no
  empty line after a final newline.
\<close>

fun getlines_acc :: "string \<Rightarrow> string \<Rightarrow> string list" where
  "getlines_acc acc [] = (if acc = [] then [] else [rev acc])"
| "getlines_acc acc (c # s) =
     (if c = CHR 0x0A then rev acc # getlines_acc [] s else getlines_acc (c # acc) s)"

definition getlines :: "string \<Rightarrow> string list" where
  "getlines s = getlines_acc [] s"

lemma getlines_acc_app:
  "CHR 0x0A \<notin> set l \<Longrightarrow> getlines_acc acc (l @ CHR 0x0A # s) = (rev acc @ l) # getlines_acc [] s"
  by (induction l arbitrary: acc) auto

lemma getlines_concat:
  "\<forall>l \<in> set ls. CHR 0x0A \<notin> set l \<Longrightarrow> getlines (concat (map (\<lambda>l. l @ [CHR 0x0A]) ls)) = ls"
  by (induction ls) (auto simp: getlines_def getlines_acc_app)

section \<open>Contracts shared by the components\<close>

text \<open>
  The contract of a text encoding: decoding inverts encoding. What the callers rely on follows
  from it: no two byte strings share an encoding, and every byte string is the decoding of a text.
\<close>

locale text_codec =
  fixes encode :: "'a list \<Rightarrow> string" and decode :: "string \<Rightarrow> 'a list"
  assumes decode_encode: "decode (encode x) = x"
begin

lemma encode_inject: "encode x = encode y \<longleftrightarrow> x = y"
  by (metis decode_encode)

lemma decode_surj: "\<exists>t. decode t = x"
  using decode_encode by blast

lemma roundtrip_list: "map decode (map encode xs) = xs"
  by (simp add: comp_def decode_encode)

end

text \<open>
  The contract of a filter: what it returns is safe, and it does not touch what is safe already.
  So it is idempotent, and its results are exactly the safe values.
\<close>

locale safe_filter =
  fixes filt :: "'a \<Rightarrow> 'a" and safe :: "'a \<Rightarrow> bool"
  assumes filt_safe: "safe (filt x)" and filt_id: "safe x \<Longrightarrow> filt x = x"
begin

lemma filt_idem: "filt (filt x) = filt x"
  by (simp add: filt_id filt_safe)

lemma filt_fixpoint: "filt x = x \<longleftrightarrow> safe x"
  by (metis filt_id filt_safe)

lemma filt_range: "range filt = Collect safe"
  using filt_id filt_safe by (metis (mono_tags, lifting) mem_Collect_eq rangeI subsetI subset_antisym UNIV_I image_iff)

end

section \<open>Words\<close>

unbundle bit_operations_syntax

lemma unat_push6_or:
  fixes v :: u32
  assumes "x < 64"
  shows "unat (push_bit 6 v OR of_nat x) = (unat v * 64 + x) mod 2 ^ 32"
proof -
  have "push_bit 6 v OR of_nat x = push_bit 6 v + of_nat x"
  proof (rule disjunctive_add [symmetric])
    fix n
    show "\<not> bit (push_bit 6 v) n \<or> \<not> bit (of_nat x :: u32) n"
    proof (cases "n < 6")
      case True
      then show ?thesis by (simp add: bit_push_bit_iff)
    next
      case False
      then have "(2::nat) ^ 6 \<le> 2 ^ n" by (intro power_increasing) auto
      with assms have "x < 2 ^ n" by simp
      then have "\<not> bit x n" by (simp add: bit_iff_odd)
      then show ?thesis by (simp add: bit_of_nat_iff)
    qed
  qed
  then show ?thesis
    by (simp add: push_bit_eq_mult unat_word_ariths unat_of_nat mod_simps mult.commute)
qed

lemma mod_nat_in: "k * m \<le> b \<Longrightarrow> b < k * m + m \<Longrightarrow> b mod m = b - k * (m :: nat)"
proof -
  assume "k * m \<le> b" "b < k * m + m"
  then obtain r where "b = k * m + r" "r < m" by (metis add_less_cancel_left le_iff_add)
  then show ?thesis by simp
qed

lemma take_bit_of_nat_u32: "take_bit n (of_nat b :: u32) = of_nat (b mod 2 ^ n)"
  by (simp only: take_bit_of_nat[symmetric] take_bit_eq_mod[symmetric])

lemma and_63_of_nat: "(of_nat b :: u32) AND 0x3F = of_nat (b mod 64)"
proof -
  have "(0x3F :: u32) = mask 6" by (simp add: mask_eq_exp_minus_1)
  then have "(of_nat b :: u32) AND 0x3F = take_bit 6 (of_nat b)" by (simp only: take_bit_eq_mask)
  then show ?thesis by (simp only: take_bit_of_nat_u32) simp
qed

lemma drop_255_and: "b < 256 \<Longrightarrow> unat (drop_bit t 0xFF AND (of_nat b :: u32)) = b mod 2 ^ (8 - t)"
proof -
  assume b: "b < 256"
  have "(0xFF :: u32) = mask 8" by (simp add: mask_eq_exp_minus_1)
  moreover have "drop_bit t (mask 8 :: u32) = mask (8 - t)" by (rule bit_eqI) (auto simp: bit_simps)
  ultimately have "drop_bit t (0xFF :: u32) = mask (8 - t)" by (simp only:)
  then have "drop_bit t 0xFF AND (of_nat b :: u32) = take_bit (8 - t) (of_nat b)" by (simp only: take_bit_eq_mask and.commute)
  moreover have "b mod 2 ^ (8 - t) < 2 ^ 32" using le_less_trans[OF mod_less_eq_dividend b, of "2 ^ (8 - t)"] by (rule less_trans) simp
  ultimately show ?thesis by (simp only: take_bit_of_nat_u32) (simp add: unat_of_nat)
qed

end
