(* ===== verification/Action.thy ===== *)
theory Action
  imports Prelude
begin

text \<open>
  The effect discipline of the model. A C++ function that reads or writes shared state and may
  throw is an \<^emph>\<open>action\<close>: a function from the state to either an exception or a value, and the new
  state. \<open>bnd\<close> sequences two actions, \<open>try_catch\<close> is a \<^verbatim>\<open>try\<close> block with one handler.
  The second half is a small calculus over actions: \<open>wp\<close>, the weakest precondition of an action
  for a postcondition on its outcome and final state, with one rewrite rule per combinator
  (collection \<open>wp\<close>), and \<open>keeps\<close>, preservation of a state predicate, with one introduction
  rule per combinator (collection \<open>keeps\<close>).
\<close>

section \<open>Exceptions\<close>

text \<open>
  The exceptions the code distinguishes: \<^verbatim>\<open>nlohmann::json::parse_error\<close>,
  \<^verbatim>\<open>nlohmann::json::type_error\<close>, \<^verbatim>\<open>nlohmann::json::out_of_range\<close> (all three \<^verbatim>\<open>json::exception\<close>), and any other \<^verbatim>\<open>std::exception\<close>. Each
  carries its \<^verbatim>\<open>what()\<close>. The last three are no exceptions of the program and no \<^verbatim>\<open>catch\<close> clause
  sees them: \<open>OutOfFuel\<close> stands for a loop that has not finished within the fuel given to it,
  \<open>Undefined\<close> for undefined behaviour (a dangling pointer, an access out of range), \<open>Blocks\<close> for a call
  that waits for ever.
\<close>

datatype exn = ParseError string | TypeError string | OutOfRange string | StdError string | OutOfFuel | Undefined | Blocks

fun what :: "exn \<Rightarrow> string" where
  "what (ParseError w) = w"
| "what (TypeError w) = w"
| "what (OutOfRange w) = w"
| "what (StdError w) = w"
| "what OutOfFuel = []"
| "what Undefined = []"
| "what Blocks = []"

text \<open>The classes a \<^verbatim>\<open>catch\<close> clause names; \<^verbatim>\<open>catch (...)\<close> is \<open>any_exn\<close> as well.\<close>

fun is_parse_error :: "exn \<Rightarrow> bool" where
  "is_parse_error (ParseError w) = True"
| "is_parse_error e = False"

fun is_json_exn :: "exn \<Rightarrow> bool" where
  "is_json_exn (ParseError w) = True"
| "is_json_exn (TypeError w) = True"
| "is_json_exn (OutOfRange w) = True"
| "is_json_exn e = False"

fun any_exn :: "exn \<Rightarrow> bool" where
  "any_exn OutOfFuel = False"
| "any_exn Undefined = False"
| "any_exn Blocks = False"
| "any_exn e = True"

section \<open>Actions\<close>

type_synonym ('s, 'a) act = "'s \<Rightarrow> (exn + 'a) \<times> 's"

named_theorems act_defs \<open>unfolding actions to state transformers\<close>
named_theorems wp \<open>weakest preconditions of the action combinators\<close>
named_theorems keeps \<open>preservation of state predicates\<close>

definition ret :: "'a \<Rightarrow> ('s, 'a) act" where
  "ret x = (\<lambda>s. (Inr x, s))"

definition raise :: "exn \<Rightarrow> ('s, 'a) act" where
  "raise e = (\<lambda>s. (Inl e, s))"

definition of_sum :: "exn + 'a \<Rightarrow> ('s, 'a) act" where
  "of_sum r = (\<lambda>s. (r, s))"

definition bnd :: "('s, 'a) act \<Rightarrow> ('a \<Rightarrow> ('s, 'b) act) \<Rightarrow> ('s, 'b) act" where
  "bnd m f = (\<lambda>s. case m s of (Inl e, s') \<Rightarrow> (Inl e, s') | (Inr x, s') \<Rightarrow> f x s')"

definition try_catch ::
  "('s, 'a) act \<Rightarrow> (exn \<Rightarrow> bool) \<Rightarrow> (exn \<Rightarrow> ('s, 'a) act) \<Rightarrow> ('s, 'a) act" where
  "try_catch m p h =
     (\<lambda>s. case m s of (Inl e, s') \<Rightarrow> if p e then h e s' else (Inl e, s') | (Inr x, s') \<Rightarrow> (Inr x, s'))"

definition gets :: "('s \<Rightarrow> 'a) \<Rightarrow> ('s, 'a) act" where
  "gets f = (\<lambda>s. (Inr (f s), s))"

definition modify :: "('s \<Rightarrow> 's) \<Rightarrow> ('s, unit) act" where
  "modify f = (\<lambda>s. (Inr (), f s))"

text \<open>\<^verbatim>\<open>for (const auto &x : xs)\<close>, collecting the results.\<close>

fun mapA :: "('a \<Rightarrow> ('s, 'b) act) \<Rightarrow> 'a list \<Rightarrow> ('s, 'b list) act" where
  "mapA f [] = ret []"
| "mapA f (x # xs) = bnd (f x) (\<lambda>y. bnd (mapA f xs) (\<lambda>ys. ret (y # ys)))"

lemmas [act_defs] = ret_def raise_def of_sum_def bnd_def try_catch_def gets_def modify_def

lemma ret_apply [simp]: "ret x s = (Inr x, s)"
  by (simp add: ret_def)

lemma raise_apply [simp]: "raise e s = (Inl e, s)"
  by (simp add: raise_def)

lemma of_sum_apply [simp]: "of_sum r s = (r, s)"
  by (simp add: of_sum_def)

lemma gets_apply [simp]: "gets f s = (Inr (f s), s)"
  by (simp add: gets_def)

lemma modify_apply [simp]: "modify f s = (Inr (), f s)"
  by (simp add: modify_def)

lemma bnd_ret [simp]: "bnd (ret x) f = f x"
  by (simp add: bnd_def fun_eq_iff)

lemma ret_bnd [simp]: "bnd m ret = m"
  by (auto simp: bnd_def fun_eq_iff split: prod.splits sum.splits)

lemma bnd_raise [simp]: "bnd (raise e) f = raise e"
  by (simp add: bnd_def fun_eq_iff)

lemma bnd_assoc: "bnd (bnd m f) g = bnd m (\<lambda>x. bnd (f x) g)"
  by (auto simp: bnd_def fun_eq_iff split: prod.splits sum.splits)

lemma bnd_eq_Inr:
  "bnd m f s = (Inr y, t) \<longleftrightarrow> (\<exists>x u. m s = (Inr x, u) \<and> f x u = (Inr y, t))"
  by (auto simp: bnd_def split: prod.splits sum.splits)

lemma bnd_eq_Inl:
  "bnd m f s = (Inl e, t) \<longleftrightarrow>
     m s = (Inl e, t) \<or> (\<exists>x u. m s = (Inr x, u) \<and> f x u = (Inl e, t))"
  by (auto simp: bnd_def split: prod.splits sum.splits)

section \<open>Weakest preconditions\<close>

definition wp :: "('s, 'a) act \<Rightarrow> (exn + 'a \<Rightarrow> 's \<Rightarrow> bool) \<Rightarrow> 's \<Rightarrow> bool" where
  "wp m Q s \<longleftrightarrow> (case m s of (r, t) \<Rightarrow> Q r t)"

lemma wp_ret [wp]: "wp (ret x) Q s = Q (Inr x) s"
  by (simp add: wp_def)

lemma wp_raise [wp]: "wp (raise e) Q s = Q (Inl e) s"
  by (simp add: wp_def)

lemma wp_of_sum [wp]: "wp (of_sum r) Q s = Q r s"
  by (simp add: wp_def)

lemma wp_gets [wp]: "wp (gets f) Q s = Q (Inr (f s)) s"
  by (simp add: wp_def)

lemma wp_modify [wp]: "wp (modify f) Q s = Q (Inr ()) (f s)"
  by (simp add: wp_def)

lemma wp_bnd [wp]:
  "wp (bnd m f) Q s = wp m (\<lambda>r t. case r of Inl e \<Rightarrow> Q (Inl e) t | Inr x \<Rightarrow> wp (f x) Q t) s"
  by (auto simp: wp_def bnd_def split: prod.splits sum.splits)

lemma wp_try_catch [wp]:
  "wp (try_catch m p h) Q s =
   wp m (\<lambda>r t. case r of Inl e \<Rightarrow> if p e then wp (h e) Q t else Q (Inl e) t | Inr x \<Rightarrow> Q (Inr x) t) s"
  by (auto simp: wp_def try_catch_def split: prod.splits sum.splits)

lemma wp_if [wp]: "wp (if b then m else n) Q s = (if b then wp m Q s else wp n Q s)"
  by simp

lemma wp_mono: "wp m Q s \<Longrightarrow> (\<And>r t. Q r t \<Longrightarrow> R r t) \<Longrightarrow> wp m R s"
  by (auto simp: wp_def split: prod.splits)

lemma wp_iff: "wp m Q s \<longleftrightarrow> (\<forall>r t. m s = (r, t) \<longrightarrow> Q r t)"
  by (auto simp: wp_def split: prod.splits)

lemma wpD: "wp m Q s \<Longrightarrow> m s = (r, t) \<Longrightarrow> Q r t"
  by (simp add: wp_iff)

section \<open>Preservation\<close>

definition keeps :: "('s \<Rightarrow> bool) \<Rightarrow> ('s, 'a) act \<Rightarrow> bool" where
  "keeps P m \<longleftrightarrow> (\<forall>s. P s \<longrightarrow> P (snd (m s)))"

lemma keepsD: "keeps P m \<Longrightarrow> P s \<Longrightarrow> m s = (r, t) \<Longrightarrow> P t"
  by (metis keeps_def snd_conv)

lemma keeps_ret [keeps]: "keeps P (ret x)"
  by (simp add: keeps_def)

lemma keeps_raise [keeps]: "keeps P (raise e)"
  by (simp add: keeps_def)

lemma keeps_of_sum [keeps]: "keeps P (of_sum r)"
  by (simp add: keeps_def)

lemma keeps_gets [keeps]: "keeps P (gets f)"
  by (simp add: keeps_def)

lemma keeps_modify [keeps]: "(\<And>s. P s \<Longrightarrow> P (f s)) \<Longrightarrow> keeps P (modify f)"
  by (simp add: keeps_def)

lemma keeps_bnd [keeps]: "keeps P m \<Longrightarrow> (\<And>x. keeps P (f x)) \<Longrightarrow> keeps P (bnd m f)"
  by (auto simp: keeps_def bnd_def split: prod.splits sum.splits)

lemma keeps_try_catch [keeps]:
  "keeps P m \<Longrightarrow> (\<And>e. keeps P (h e)) \<Longrightarrow> keeps P (try_catch m p h)"
  by (auto simp: keeps_def try_catch_def split: prod.splits sum.splits)

lemma keeps_mapA [keeps]: "(\<And>x. keeps P (f x)) \<Longrightarrow> keeps P (mapA f xs)"
  by (induction xs) (auto intro!: keeps)

section \<open>Actions that never throw\<close>

text \<open>No exception of the program leaves the action.\<close>

definition nothrow :: "('s, 'a) act \<Rightarrow> bool" where
  "nothrow m \<longleftrightarrow> (\<forall>s e t. m s = (Inl e, t) \<longrightarrow> \<not> any_exn e)"

lemma nothrow_catch_all: "(\<And>e. nothrow (h e)) \<Longrightarrow> nothrow (try_catch m any_exn h)"
  by (auto simp: nothrow_def try_catch_def split: prod.splits sum.splits if_splits)

lemma nothrow_ret: "nothrow (ret x)"
  by (simp add: nothrow_def)

lemma nothrow_gets: "nothrow (gets f)"
  by (simp add: nothrow_def)

lemma nothrow_modify: "nothrow (modify f)"
  by (simp add: nothrow_def)

lemma nothrow_bnd: "nothrow m \<Longrightarrow> (\<And>x. nothrow (f x)) \<Longrightarrow> nothrow (bnd m f)"
  unfolding nothrow_def bnd_eq_Inl by blast

lemma nothrow_if: "(b \<Longrightarrow> nothrow m) \<Longrightarrow> (\<not> b \<Longrightarrow> nothrow n) \<Longrightarrow> nothrow (if b then m else n)"
  by simp

lemmas nothrow_intros =
  nothrow_catch_all nothrow_ret nothrow_gets nothrow_modify nothrow_bnd nothrow_if

section \<open>Actions that return\<close>

text \<open>
  \<open>catchable m\<close>: whatever stops the action is an exception a \<^verbatim>\<open>catch\<close> clause sees. A \<^verbatim>\<open>try\<close> block over
  such an action with a handler that returns always returns.
\<close>

definition catchable :: "('s, 'a) act \<Rightarrow> bool" where
  "catchable m \<longleftrightarrow> (\<forall>s e t. m s = (Inl e, t) \<longrightarrow> any_exn e)"

definition returns :: "('s, 'a) act \<Rightarrow> bool" where
  "returns m \<longleftrightarrow> (\<forall>s. \<exists>x t. m s = (Inr x, t))"

named_theorems catchable \<open>actions stopped by exceptions only\<close>

lemma catchable_ret [catchable]: "catchable (ret x)"
  and catchable_gets [catchable]: "catchable (gets f)"
  and catchable_modify [catchable]: "catchable (modify g)"
  by (simp_all add: catchable_def)

lemma catchable_raise [catchable]: "any_exn e \<Longrightarrow> catchable (raise e)"
  by (simp add: catchable_def)

lemma catchable_of_sum: "(\<And>e. r = Inl e \<Longrightarrow> any_exn e) \<Longrightarrow> catchable (of_sum r)"
  by (simp add: catchable_def)

lemma catchable_bnd [catchable]: "catchable m \<Longrightarrow> (\<And>x. catchable (f x)) \<Longrightarrow> catchable (bnd m f)"
  unfolding catchable_def bnd_eq_Inl by blast

lemma catchable_try [catchable]: "catchable m \<Longrightarrow> (\<And>e. catchable (h e)) \<Longrightarrow> catchable (try_catch m p h)"
  by (auto simp: catchable_def try_catch_def split: prod.splits sum.splits if_splits)

lemma catchable_if [catchable]:
  "(b \<Longrightarrow> catchable m) \<Longrightarrow> (\<not> b \<Longrightarrow> catchable n) \<Longrightarrow> catchable (if b then m else n)"
  by simp

lemma catchable_Let [catchable]: "(\<And>x. catchable (f x)) \<Longrightarrow> catchable (let x = a in f x)"
  by simp

lemma catchable_case_option [catchable]:
  "catchable n \<Longrightarrow> (\<And>x. catchable (f x)) \<Longrightarrow> catchable (case r of None \<Rightarrow> n | Some x \<Rightarrow> f x)"
  by (cases r) auto

lemma catchable_case_sum [catchable]:
  "(\<And>x. catchable (f x)) \<Longrightarrow> (\<And>x. catchable (g x)) \<Longrightarrow> catchable (case r of Inl x \<Rightarrow> f x | Inr x \<Rightarrow> g x)"
  by (cases r) auto

lemma catchable_case_prod [catchable]:
  "(\<And>x y. catchable (f x y)) \<Longrightarrow> catchable (case r of (x, y) \<Rightarrow> f x y)"
  by (cases r) auto

lemma catchable_mapA [catchable]: "(\<And>x. catchable (f x)) \<Longrightarrow> catchable (mapA f xs)"
  by (induction xs) (auto intro!: catchable)

lemma returns_catchable: "returns m \<Longrightarrow> catchable m"
  unfolding returns_def catchable_def by (metis old.sum.distinct(1) prod.inject)

lemma returns_ret: "returns (ret x)"
  by (simp add: returns_def)

lemma returns_catch_all:
  assumes "catchable m" "\<And>e. returns (h e)"
  shows "returns (try_catch m any_exn h)"
  unfolding returns_def
proof
  fix s
  obtain r t where m: "m s = (r, t)" by (cases "m s")
  show "\<exists>x t. try_catch m any_exn h s = (Inr x, t)"
  proof (cases r)
    case (Inl e)
    then have "any_exn e" using assms(1) m by (auto simp: catchable_def)
    then show ?thesis using assms(2)[of e] m Inl by (auto simp: try_catch_def returns_def)
  qed (simp add: try_catch_def m)
qed

section \<open>The interface of a service\<close>

text \<open>
  Calls that lead from good states to good states and are answered there, unless they stop with one of the
  outcomes \<open>stops\<close> lists for them. Then a sequence of them is answered, one answer per call, or
  up to a call that stops in such a way; and certainly answered when none of its calls can.
\<close>

locale answering =
  fixes run :: "'c \<Rightarrow> ('s, 'r) act" and good :: "'s \<Rightarrow> bool" and stops :: "'c \<Rightarrow> exn \<Rightarrow> bool"
  assumes answers: "good s \<Longrightarrow> run c s = (r, t) \<Longrightarrow> good t \<and> (\<forall>e. r = Inl e \<longrightarrow> stops c e)"
begin

lemma sequence_answered:
  assumes "good s" "mapA run cs s = (r, t)"
  shows "good t \<and>
    (case r of
       Inr rs \<Rightarrow> length rs = length cs
     | Inl e \<Rightarrow> (\<exists>cs1 c cs2 rs u. cs = cs1 @ c # cs2 \<and> mapA run cs1 s = (Inr rs, u) \<and> stops c e))"
  using assms
proof (induction cs arbitrary: s r t)
  case (Cons c cs)
  obtain x u where u: "run c s = (x, u)" by fastforce
  note step = answers[OF Cons.prems(1) u]
  show ?case
  proof (cases x)
    case (Inl e)
    then have "r = Inl e" "t = u" using Cons.prems(2) u by (simp_all add: bnd_def)
    then show ?thesis
      using step Inl by (simp add: exI[of _ "[]"])
  next
    case (Inr y)
    obtain x' t' where rest: "mapA run cs u = (x', t')" by fastforce
    then have rt: "t = t'" "r = (case x' of Inl e \<Rightarrow> Inl e | Inr ys \<Rightarrow> Inr (y # ys))"
      using Cons.prems(2) u Inr by (auto simp: bnd_def split: sum.splits)
    note IH = Cons.IH[OF conjunct1[OF step] rest]
    have front: "mapA run (c # cs1) s = (Inr (y # rs), v)" if "mapA run cs1 u = (Inr rs, v)" for cs1 rs v
      using that u Inr by (simp add: bnd_def)
    show ?thesis
    proof (cases x')
      case (Inl e)
      with IH obtain cs1 d cs2 rs v where d: "cs = cs1 @ d # cs2" "mapA run cs1 u = (Inr rs, v)" "stops d e" by auto
      then have "c # cs = (c # cs1) @ d # cs2" by simp
      with d(3) front[OF d(2)] IH rt Inl show ?thesis by (simp del: mapA.simps append_Cons) blast
    qed (use IH rt in simp)
  qed
qed auto

lemma all_answered:
  assumes "good s" "\<And>c e. c \<in> set cs \<Longrightarrow> \<not> stops c e"
  shows "\<exists>rs t. mapA run cs s = (Inr rs, t) \<and> length rs = length cs \<and> good t"
proof -
  obtain r t where "mapA run cs s = (r, t)" by fastforce
  with sequence_answered[OF assms(1) this] assms(2) show ?thesis by (cases r) auto
qed

end

end
