(* ===== verification/Json.thy ===== *)
theory Json
  imports Action
begin

text \<open>
  The JSON values of \<^verbatim>\<open>nlohmann::json\<close> (\<^verbatim>\<open>backend/src/libs/json.hpp\<close>) and the accessors the backend
  calls on them: \<^verbatim>\<open>type_name\<close>, the \<^verbatim>\<open>is_*\<close> tests, \<^verbatim>\<open>empty\<close>, \<^verbatim>\<open>find\<close>, \<^verbatim>\<open>contains\<close>, \<^verbatim>\<open>operator[]\<close>,
  \<^verbatim>\<open>value\<close> and \<^verbatim>\<open>get<T>\<close>, with the type errors they throw. Objects are \<^verbatim>\<open>std::map\<close>s ordered by key,
  hence association lists sorted by key; integers keep their 64 bits. Printing
  and parsing (\<^verbatim>\<open>json::dump\<close>, \<^verbatim>\<open>json::parse\<close>) follow in the theories \<open>JsonText\<close>, \<open>JsonParse\<close> and \<open>JsonRoundtrip\<close>.
\<close>

datatype json =
    JNull
  | JBool bool
  | JInt "64 word"      \<comment> \<open>\<^verbatim>\<open>number_integer\<close>, two's complement\<close>
  | JUint "64 word"     \<comment> \<open>\<^verbatim>\<open>number_unsigned\<close>\<close>
  | JFloat int int      \<comment> \<open>\<^verbatim>\<open>number_float\<close>: the double \<open>m * 2 ^ e\<close>\<close>
  | JStr string
  | JArr "json list"
  | JObj "(string \<times> json) list"
  | JDiscarded

fun type_name :: "json \<Rightarrow> string" where
  "type_name JNull = ''null''"
| "type_name (JObj kvs) = ''object''"
| "type_name (JArr js) = ''array''"
| "type_name (JStr s) = ''string''"
| "type_name (JBool b) = ''boolean''"
| "type_name JDiscarded = ''discarded''"
| "type_name (JInt i) = ''number''"
| "type_name (JUint n) = ''number''"
| "type_name (JFloat m e) = ''number''"

fun is_null :: "json \<Rightarrow> bool" where
  "is_null JNull = True" | "is_null j = False"

fun is_string :: "json \<Rightarrow> bool" where
  "is_string (JStr s) = True" | "is_string j = False"

fun is_array :: "json \<Rightarrow> bool" where
  "is_array (JArr js) = True" | "is_array j = False"

fun is_object :: "json \<Rightarrow> bool" where
  "is_object (JObj kvs) = True" | "is_object j = False"

fun is_number :: "json \<Rightarrow> bool" where
  "is_number (JInt i) = True"
| "is_number (JUint n) = True"
| "is_number (JFloat m e) = True"
| "is_number j = False"

text \<open>\<^verbatim>\<open>empty()\<close>: null, and containers without elements.\<close>

fun json_empty :: "json \<Rightarrow> bool" where
  "json_empty JNull = True"
| "json_empty (JArr js) = (js = [])"
| "json_empty (JObj kvs) = (kvs = [])"
| "json_empty j = False"

text \<open>\<^verbatim>\<open>find(key)\<close>: only objects have keys.\<close>

fun json_find :: "json \<Rightarrow> string \<Rightarrow> json option" where
  "json_find (JObj kvs) k = map_of kvs k"
| "json_find j k = None"

definition json_contains :: "json \<Rightarrow> string \<Rightarrow> bool" where
  "json_contains j k \<longleftrightarrow> json_find j k \<noteq> None"

text \<open>The elements a range-based \<^verbatim>\<open>for\<close> visits in an array, and its first element.\<close>

fun elements :: "json \<Rightarrow> json list" where
  "elements (JArr js) = js"
| "elements j = []"

section \<open>Writing: \<open>row[key] = value\<close>\<close>

fun obj_insert :: "string \<Rightarrow> json \<Rightarrow> (string \<times> json) list \<Rightarrow> (string \<times> json) list" where
  "obj_insert k v [] = [(k, v)]"
| "obj_insert k v ((k', v') # r) =
     (if k = k' then (k, v) # r
      else if k < k' then (k, v) # (k', v') # r
      else (k', v') # obj_insert k v r)"

text \<open>
  \<^verbatim>\<open>operator[]\<close> on a null value makes it an empty object first. Every value the code writes a key
  into is null or an object, so the error branch of the operator does not arise.
\<close>

fun jset :: "json \<Rightarrow> string \<Rightarrow> json \<Rightarrow> json" where
  "jset (JObj kvs) k v = JObj (obj_insert k v kvs)"
| "jset j k v = JObj [(k, v)]"

definition mk_obj :: "(string \<times> json) list \<Rightarrow> json" where
  "mk_obj kvs = foldl (\<lambda>j (k, v). jset j k v) JNull kvs"

section \<open>Reading: \<open>get<T>()\<close>, \<open>value\<close>\<close>

definition type_error :: "string \<Rightarrow> string \<Rightarrow> json \<Rightarrow> exn" where
  "type_error ident msg j =
     TypeError (''[json.exception.type_error.'' @ ident @ ''] '' @ msg @ type_name j)"

fun get_string :: "json \<Rightarrow> exn + string" where
  "get_string (JStr s) = Inr s"
| "get_string j = Inl (type_error ''302'' ''type must be string, but is '' j)"

fun get_bool :: "json \<Rightarrow> exn + bool" where
  "get_bool (JBool b) = Inr b"
| "get_bool j = Inl (type_error ''302'' ''type must be boolean, but is '' j)"

text \<open>
  \<^verbatim>\<open>get<uint32_t>\<close> and \<^verbatim>\<open>get<int>\<close>: a \<^verbatim>\<open>static_cast\<close> of whichever number is stored, so a 64-bit value
  loses its upper half. A floating-point value is cut towards zero first. C++ leaves the cast of one that
  does not fit the target undefined; here it is reduced like an integer, as a simplification: the numbers the
  backend reads this way are the integer columns of its own tables and the \<^verbatim>\<open>exp\<close> claim of a token Google has signed.
\<close>

fun get_word32 :: "json \<Rightarrow> exn + u32" where
  "get_word32 (JUint n) = Inr (ucast n)"
| "get_word32 (JInt i) = Inr (ucast i)"
| "get_word32 (JFloat m e) =
     Inr (word_of_int (if 0 \<le> e then m * 2 ^ nat e else sgn m * (\<bar>m\<bar> div 2 ^ nat (- e))))"
| "get_word32 (JBool b) = Inr (of_bool b)"
| "get_word32 j = Inl (type_error ''302'' ''type must be number, but is '' j)"

definition get_int :: "json \<Rightarrow> exn + int" where
  "get_int j = map_sum id sint (get_word32 j)"

text \<open>\<^verbatim>\<open>j.value(key, default)\<close>: the default only when an object lacks the key.\<close>

definition json_value :: "(json \<Rightarrow> exn + 'a) \<Rightarrow> json \<Rightarrow> string \<Rightarrow> 'a \<Rightarrow> exn + 'a" where
  "json_value get j k d =
     (if is_object j then (case json_find j k of Some v \<Rightarrow> get v | None \<Rightarrow> Inr d)
      else Inl (type_error ''306'' ''cannot use value() with '' j))"

lemma type_error_simps [simp]:
  "type_error i m j \<noteq> ParseError w" "type_error i m j \<noteq> StdError w"
  "\<not> is_parse_error (type_error i m j)" "is_json_exn (type_error i m j)"
  by (simp_all add: type_error_def)

section \<open>Laws of objects\<close>

definition sorted_keys :: "(string \<times> json) list \<Rightarrow> bool" where
  "sorted_keys kvs \<longleftrightarrow> sorted_wrt (<) (map fst kvs)"

lemma set_keys_obj_insert: "fst ` set (obj_insert k v kvs) = insert k (fst ` set kvs)"
proof (induction kvs)
  case (Cons kv kvs)
  then show ?case by (cases kv) (auto simp: image_iff split: if_splits)
qed simp

lemma sorted_keys_obj_insert: "sorted_keys kvs \<Longrightarrow> sorted_keys (obj_insert k v kvs)"
proof (induction kvs)
  case Nil
  then show ?case by (simp add: sorted_keys_def)
next
  case (Cons kv kvs)
  obtain k' v' where kv: "kv = (k', v')" by (cases kv)
  have IH: "sorted_wrt (<) (map fst (obj_insert k v kvs))"
    using Cons by (simp add: sorted_keys_def)
  have "\<And>x. x \<in> set (map fst (obj_insert k v kvs)) \<Longrightarrow> x = k \<or> x \<in> set (map fst kvs)"
    using set_keys_obj_insert[of k v kvs] by auto
  then show ?case
    using Cons.prems IH kv by (fastforce simp: sorted_keys_def)
qed

lemma map_of_obj_insert [simp]: "map_of (obj_insert k v kvs) = (map_of kvs)(k \<mapsto> v)"
  by (induction kvs) (auto simp: fun_eq_iff)

lemma json_find_jset [simp]:
  "json_find (jset j k v) k' = (if k' = k then Some v else json_find j k')"
  by (cases j) auto

lemma is_object_jset [simp]: "is_object (jset j k v)"
  by (cases j) auto

lemma is_array_iff: "is_array j \<longleftrightarrow> (\<exists>js. j = JArr js)"
  by (cases j) auto

lemma is_object_iff: "is_object j \<longleftrightarrow> (\<exists>kvs. j = JObj kvs)"
  by (cases j) auto

lemma array_nonempty_iff: "is_array j \<and> \<not> json_empty j \<longleftrightarrow> (\<exists>x xs. j = JArr (x # xs))"
  by (cases j) (auto simp: neq_Nil_conv)

lemma json_contains_object: "json_contains j k \<Longrightarrow> is_object j"
  by (cases j) (auto simp: json_contains_def)

lemma get_string_Inr [simp]: "get_string j = Inr s \<longleftrightarrow> j = JStr s"
  by (cases j) auto

section \<open>Exceptions of the accessors\<close>

lemma any_type_error [simp]: "any_exn (type_error i m j)"
  by (simp add: type_error_def)

lemma get_string_catchable: "get_string j = Inl e \<Longrightarrow> any_exn e"
  by (cases j) auto

lemma get_bool_catchable: "get_bool j = Inl e \<Longrightarrow> any_exn e"
  by (cases j) auto

lemma get_word32_catchable: "get_word32 j = Inl e \<Longrightarrow> any_exn e"
  by (cases j) auto

lemma get_int_catchable: "get_int j = Inl e \<Longrightarrow> any_exn e"
  by (cases "get_word32 j") (auto simp: get_int_def dest: get_word32_catchable)

lemma catchable_get [catchable]:
  "catchable (of_sum (get_string j))" "catchable (of_sum (get_bool j))"
  "catchable (of_sum (get_word32 j))" "catchable (of_sum (get_int j))"
  by (rule catchable_of_sum, metis get_string_catchable get_bool_catchable get_word32_catchable get_int_catchable)+

lemma catchable_json_value [catchable]:
  "(\<And>v e. g v = Inl e \<Longrightarrow> any_exn e) \<Longrightarrow> catchable (of_sum (json_value g j k d))"
  by (rule catchable_of_sum) (auto simp: json_value_def split: if_splits option.splits)

section \<open>Well-formed values\<close>

text \<open>The invariant of \<^verbatim>\<open>std::map\<close> at every depth: the keys of an object are in strictly ascending order.\<close>

fun json_wf :: "json \<Rightarrow> bool" where
  "json_wf (JArr js) \<longleftrightarrow> (\<forall>j \<in> set js. json_wf j)"
| "json_wf (JObj kvs) \<longleftrightarrow> sorted_keys kvs \<and> (\<forall>kv \<in> set kvs. json_wf (snd kv))"
| "json_wf j \<longleftrightarrow> True"

lemma set_obj_insert: "set (obj_insert k v kvs) \<subseteq> insert (k, v) (set kvs)"
  by (induction kvs) (auto split: if_splits)

lemma json_wf_jset: "json_wf j \<Longrightarrow> json_wf v \<Longrightarrow> json_wf (jset j k v)"
proof (cases j)
  case (JObj kvs)
  assume "json_wf j" "json_wf v"
  with JObj set_obj_insert[of k v kvs] show ?thesis by (auto simp: sorted_keys_obj_insert)
qed (simp_all add: sorted_keys_def)

lemma foldl_jset:
  assumes "\<forall>kv \<in> set kvs. json_wf (snd kv)" "json_wf j"
  shows "json_wf (foldl (\<lambda>j (k, v). jset j k v) j kvs) \<and>
    json_find (foldl (\<lambda>j (k, v). jset j k v) j kvs) k =
      (case map_of (rev kvs) k of Some v \<Rightarrow> Some v | None \<Rightarrow> json_find j k)"
  using assms
proof (induction kvs arbitrary: j)
  case (Cons kv kvs)
  then show ?case
    by (cases kv) (auto simp: json_wf_jset map_add_def split: option.splits)
qed simp

section \<open>Properties\<close>

text \<open>
  The JSON values the backend builds and takes apart are well formed at every depth: an object made from well-formed
  fields is well formed and each key gives the value written last, writing a key and reading a key or
  an element keep well-formedness.
\<close>
theorem json_typed:
  assumes "\<forall>kv \<in> set kvs. json_wf (snd kv)" and "json_wf j" and "json_wf v"
  shows "json_wf (mk_obj kvs) \<and> json_find (mk_obj kvs) k = map_of (rev kvs) k \<and> json_wf (jset j k v) \<and>
    (json_find j k = Some w \<longrightarrow> json_wf w) \<and> (x \<in> set (elements j) \<longrightarrow> json_wf x)"
proof (intro conjI impI)
  show "json_wf (mk_obj kvs)" "json_find (mk_obj kvs) k = map_of (rev kvs) k"
    using foldl_jset[OF assms(1), of JNull k] by (simp_all add: mk_obj_def split: option.splits)
  show "json_wf (jset j k v)" by (rule json_wf_jset[OF assms(2,3)])
  show "json_wf w" if "json_find j k = Some w"
    using assms(2) that by (cases j) (auto dest!: map_of_SomeD)
  show "json_wf x" if "x \<in> set (elements j)"
    using assms(2) that by (cases j) auto
qed

theorem json_typed_witness:
  "json_wf (mk_obj [(''b'', JNull), (''a'', JArr [JNull]), (''b'', JBool True)]) \<and>
   json_find (mk_obj [(''b'', JNull), (''a'', JArr [JNull]), (''b'', JBool True)]) ''b'' = Some (JBool True)"
  using json_typed[of "[(''b'', JNull), (''a'', JArr [JNull]), (''b'', JBool True)]" JNull JNull "''b''"] by simp

end
