(* ===== verification/JsonText.thy ===== *)
theory JsonText
  imports Json
begin

text \<open>
  The serializer of \<^verbatim>\<open>backend/src/libs/json.hpp\<close> as \<^verbatim>\<open>json::dump()\<close> runs it: compact, strict about UTF-8 and
  without \<^verbatim>\<open>ensure_ascii\<close>. The table-driven UTF-8 decoder, the escaping loop with its output buffer, and the
  two-digits-at-a-time printer of integers are translated step by step; the lemmas relate each to
  a plain reference definition. Printing a \<^verbatim>\<open>double\<close> (the Grisu2 code) and reading one (\<^verbatim>\<open>strtod\<close>) are the two
  fields of the record \<open>float_io\<close>; a double is \<open>m * 2 ^ e\<close>, which leaves out the sign of a zero.
\<close>

unbundle bit_operations_syntax

record float_io =
  double_text :: "int \<Rightarrow> int \<Rightarrow> string"
  str_to_double :: "string \<Rightarrow> (int \<times> int) option"   \<comment> \<open>\<^term>\<open>None\<close>: not finite\<close>

section \<open>The UTF-8 decoder\<close>

definition utf8d :: "nat list" where
  "utf8d =
     replicate 128 0 @ replicate 16 1 @ replicate 16 9 @ replicate 32 7 @
     replicate 2 8 @ replicate 30 2 @
     [10] @ replicate 12 3 @ [4] @ replicate 2 3 @
     [11] @ replicate 3 6 @ [5] @ replicate 11 8 @
     [0, 1, 2, 3, 5, 8, 7, 1, 1, 1, 4, 6, 1, 1, 1, 1] @
     [1, 1, 1, 1, 1, 1, 1, 1, 1, 1, 1, 1, 1, 1, 1, 1] @
     [1, 0, 1, 1, 1, 1, 1, 0, 1, 0, 1, 1, 1, 1, 1, 1] @
     [1, 2, 1, 1, 1, 1, 1, 2, 1, 2, 1, 1, 1, 1, 1, 1] @
     [1, 1, 1, 1, 1, 1, 1, 2, 1, 1, 1, 1, 1, 1, 1, 1] @
     [1, 2, 1, 1, 1, 1, 1, 1, 1, 2, 1, 1, 1, 1, 1, 1] @
     [1, 1, 1, 1, 1, 1, 1, 3, 1, 3, 1, 1, 1, 1, 1, 1] @
     [1, 3, 1, 1, 1, 1, 1, 3, 1, 3, 1, 1, 1, 1, 1, 1] @
     [1, 3, 1, 1, 1, 1, 1, 1, 1, 1, 1, 1, 1, 1, 1, 1]"

definition UTF8_ACCEPT :: nat where "UTF8_ACCEPT = 0"
definition UTF8_REJECT :: nat where "UTF8_REJECT = 1"

definition decode :: "nat \<Rightarrow> u32 \<Rightarrow> nat \<Rightarrow> nat \<times> u32" where
  "decode state codep byte =
     (let type = utf8d ! byte;
          codep' = (if state \<noteq> UTF8_ACCEPT
                    then (of_nat byte AND 0x3F) OR push_bit 6 codep
                    else drop_bit type 0xFF AND of_nat byte)
      in (utf8d ! (256 + state * 16 + type), codep'))"

section \<open>Strings\<close>

definition hex_digit_low :: "nat \<Rightarrow> char" where
  "hex_digit_low n = (if n < 10 then char_of (48 + n) else char_of (87 + n))"

definition hex4 :: "nat \<Rightarrow> string" where
  "hex4 n = [hex_digit_low (n div 4096 mod 16), hex_digit_low (n div 256 mod 16), hex_digit_low (n div 16 mod 16), hex_digit_low (n mod 16)]"

definition hex_bytes :: "nat \<Rightarrow> string" where
  "hex_bytes byte = [''0123456789ABCDEF'' ! (byte div 16), ''0123456789ABCDEF'' ! (byte mod 16)]"

text \<open>What an accepted code point adds to the buffer; \<open>c\<close> is its last byte, the others are there already.\<close>

definition escape_char :: "u32 \<Rightarrow> char \<Rightarrow> string" where
  "escape_char codepoint c =
     (if codepoint = 0x08 then [CHR 0x5C, CHR ''b'']
      else if codepoint = 0x09 then [CHR 0x5C, CHR ''t'']
      else if codepoint = 0x0A then [CHR 0x5C, CHR ''n'']
      else if codepoint = 0x0C then [CHR 0x5C, CHR ''f'']
      else if codepoint = 0x0D then [CHR 0x5C, CHR ''r'']
      else if codepoint = 0x22 then [CHR 0x5C, CHR 0x22]
      else if codepoint = 0x5C then [CHR 0x5C, CHR 0x5C]
      else if codepoint \<le> 0x1F then CHR 0x5C # CHR ''u'' # hex4 (unat codepoint)
      else [c])"

text \<open>
  The loop over the bytes: index, decoder, what has been written to the output, and the part of the
  512-byte buffer in use, which is written out when fewer than 13 bytes are left.
\<close>

fun escape_loop :: "string \<Rightarrow> nat \<Rightarrow> nat \<Rightarrow> u32 \<Rightarrow> nat \<Rightarrow> string \<Rightarrow> string \<Rightarrow> string + string" where
  "escape_loop [] i state codep last_byte out buf =
     (if state = UTF8_ACCEPT then Inr (out @ buf)
      else Inl (''[json.exception.type_error.316] incomplete UTF-8 string; last byte: 0x'' @ hex_bytes last_byte))"
| "escape_loop (c # s) i state codep last_byte out buf =
     (case decode state codep (ord8 c) of (state', codep') \<Rightarrow>
        if state' = UTF8_ACCEPT
        then (let buf' = buf @ escape_char codep' c in
              if 512 - length buf' < 13
              then escape_loop s (i + 1) state' codep' (ord8 c) (out @ buf') []
              else escape_loop s (i + 1) state' codep' (ord8 c) out buf')
        else if state' = UTF8_REJECT
        then Inl (''[json.exception.type_error.316] invalid UTF-8 byte at index '' @ nat_to_string i @ '': 0x'' @ hex_bytes (ord8 c))
        else escape_loop s (i + 1) state' codep' (ord8 c) out (buf @ [c]))"

definition dump_escaped :: "string \<Rightarrow> string + string" where
  "dump_escaped s = escape_loop s 0 UTF8_ACCEPT 0 0 [] []"

section \<open>Integers\<close>

function count_digits :: "nat \<Rightarrow> nat \<Rightarrow> nat" where
  "count_digits n_digits x =
     (if x < 10 then n_digits
      else if x < 100 then n_digits + 1
      else if x < 1000 then n_digits + 2
      else if x < 10000 then n_digits + 3
      else count_digits (n_digits + 4) (x div 10000))"
  by pat_completeness auto
termination by (relation "measure snd") auto

declare count_digits.simps [simp del]

text \<open>\<^verbatim>\<open>*(--buffer_ptr) = c\<close> twice: the two digits of a number below 100 in front of position \<open>p\<close>.\<close>

definition put2 :: "nat \<Rightarrow> nat \<times> string \<Rightarrow> nat \<times> string" where
  "put2 d = (\<lambda>(p, buf). (p - 2, buf[p - 1 := digit_char (d mod 10), p - 2 := digit_char (d div 10)]))"

function int2ascii :: "nat \<Rightarrow> nat \<times> string \<Rightarrow> string" where
  "int2ascii abs_value (p, buf) =
     (if abs_value \<ge> 100 then int2ascii (abs_value div 100) (put2 (abs_value mod 100) (p, buf))
      else if abs_value \<ge> 10 then snd (put2 abs_value (p, buf))
      else buf[p - 1 := digit_char abs_value])"
  by pat_completeness auto
termination by (relation "measure fst") auto

declare int2ascii.simps [simp del]

definition remove_sign :: "u64 \<Rightarrow> u64" where
  "remove_sign x = - (x + 1) + 1"

definition number_buffer :: string where
  "number_buffer = replicate 64 (CHR 0x00)"

definition dump_integer :: "bool \<Rightarrow> u64 \<Rightarrow> string" where
  "dump_integer is_signed x =
     (if x = 0 then ''0''
      else if is_signed \<and> sint x < 0
      then (let abs_value = unat (remove_sign x); n_chars = 1 + count_digits 1 abs_value
            in take n_chars (int2ascii abs_value (n_chars, number_buffer[0 := CHR ''-''])))
      else (let n_chars = count_digits 1 (unat x)
            in take n_chars (int2ascii (unat x) (n_chars, number_buffer))))"

section \<open>Values\<close>

fun dump_json :: "float_io \<Rightarrow> json \<Rightarrow> string + string"
  and dump_elements :: "float_io \<Rightarrow> json list \<Rightarrow> string + string"
  and dump_members :: "float_io \<Rightarrow> (string \<times> json) list \<Rightarrow> string + string" where
  "dump_json F (JObj kvs) =
     (if kvs = [] then Inr ''{}''
      else sum_bind (dump_members F kvs) (\<lambda>t. Inr (''{'' @ t @ ''}'')))"
| "dump_json F (JArr js) =
     (if js = [] then Inr ''[]''
      else sum_bind (dump_elements F js) (\<lambda>t. Inr (''['' @ t @ '']'')))"
| "dump_json F (JStr s) = sum_bind (dump_escaped s) (\<lambda>t. Inr ([CHR 0x22] @ t @ [CHR 0x22]))"
| "dump_json F (JBool b) = Inr (if b then ''true'' else ''false'')"
| "dump_json F (JInt i) = Inr (dump_integer True i)"
| "dump_json F (JUint n) = Inr (dump_integer False n)"
| "dump_json F (JFloat m e) = Inr (double_text F m e)"
| "dump_json F JDiscarded = Inr ''<discarded>''"
| "dump_json F JNull = Inr ''null''"
| "dump_elements F [] = Inr []"
| "dump_elements F (j # js) =
     sum_bind (dump_json F j) (\<lambda>t.
     if js = [] then Inr t else sum_bind (dump_elements F js) (\<lambda>u. Inr (t @ '','' @ u)))"
| "dump_members F [] = Inr []"
| "dump_members F (kv # kvs) =
     sum_bind (dump_escaped (fst kv)) (\<lambda>k.
     sum_bind (dump_json F (snd kv)) (\<lambda>t.
     if kvs = [] then Inr ([CHR 0x22] @ k @ [CHR 0x22] @ '':'' @ t)
     else sum_bind (dump_members F kvs) (\<lambda>u. Inr ([CHR 0x22] @ k @ [CHR 0x22] @ '':'' @ t @ '','' @ u))))"

section \<open>Integers print as numerals\<close>

lemma nat_to_string_100:
  assumes "100 \<le> n"
  shows "nat_to_string n = nat_to_string (n div 100) @ [digit_char (n mod 100 div 10), digit_char (n mod 100 mod 10)]"
proof -
  have "n div 10 div 10 = n div 100" "n div 10 mod 10 = n mod 100 div 10" "n mod 10 = n mod 100 mod 10"
    by (simp_all add: div_mult2_eq[symmetric] mod_mult2_eq[of n 10 10, simplified] mod_mod_cancel)
  moreover have "\<not> n div 10 < 10" using assms by linarith
  ultimately show ?thesis
    using assms by (simp add: nat_to_string.simps[of n] nat_to_string.simps[of "n div 10"])
qed

lemma nat_to_string_small: "n < 10 \<Longrightarrow> nat_to_string n = [digit_char n]"
  "10 \<le> n \<Longrightarrow> n < 100 \<Longrightarrow> nat_to_string n = [digit_char (n div 10), digit_char (n mod 10)]"
  by (simp_all add: nat_to_string.simps[of n] nat_to_string.simps[of "n div 10"])

lemma length_nat_to_string_100: "100 \<le> n \<Longrightarrow> length (nat_to_string n) = length (nat_to_string (n div 100)) + 2"
  by (simp add: nat_to_string_100)

lemma count_digits_length: "count_digits (Suc d) x = d + length (nat_to_string x)"
proof (induction x arbitrary: d rule: less_induct)
  case (less x)
  consider "x < 10" | "10 \<le> x" "x < 100" | "100 \<le> x" "x < 1000" | "1000 \<le> x" "x < 10000" | "10000 \<le> x" by linarith
  then show ?case
  proof cases
    case 5
    then have "length (nat_to_string x) = length (nat_to_string (x div 10000)) + 4"
      by (simp add: length_nat_to_string_100 div_mult2_eq[symmetric])
    with 5 less[of "x div 10000" "d + 4"] show ?thesis by (simp add: count_digits.simps[of "Suc d" x])
  qed (simp_all add: count_digits.simps[of "Suc d" x] nat_to_string_small length_nat_to_string_100)
qed

lemma length_nat_to_string_le: "x < 10 ^ k \<Longrightarrow> 0 < k \<Longrightarrow> length (nat_to_string x) \<le> k"
proof (induction k arbitrary: x)
  case (Suc k)
  show ?case
  proof (cases "x < 10")
    case False
    then have "length (nat_to_string x) = length (nat_to_string (x div 10)) + 1" by (simp add: nat_to_string.simps[of x])
    moreover have "x div 10 < 10 ^ k" using Suc.prems(1) by (simp add: less_mult_imp_div_less mult.commute)
    moreover have "0 < k" using Suc.prems(1) False by (cases k) auto
    ultimately show ?thesis using Suc.IH[of "x div 10"] by simp
  qed (simp add: nat_to_string_small)
qed simp

lemma put2_update:
  assumes "2 \<le> p" "p \<le> length buf"
  shows "put2 d (p, buf) = (p - 2, take (p - 2) buf @ [digit_char (d div 10), digit_char (d mod 10)] @ drop p buf)"
proof -
  obtain q where q: "p = q + 2" using assms(1) by (metis le_add_diff_inverse2)
  have "buf = take q buf @ buf ! q # buf ! Suc q # drop (q + 2) buf"
    using assms(2) q by (metis Cons_nth_drop_Suc Suc_le_lessD add_2_eq_Suc' append_take_drop_id less_Suc_eq le_SucI Suc_leD)
  then obtain a b c d where "buf = a @ b # c # d" "length a = q" "take q buf = a" "drop (q + 2) buf = d"
    using assms(2) q by (metis length_take min.absorb2 trans_le_add1 le_add1 le_trans)
  then show ?thesis using q by (simp add: put2_def list_update_append)
qed

lemma int2ascii_fill:
  assumes "length (nat_to_string n) \<le> p" "p \<le> length buf"
  shows "int2ascii n (p, buf) = take (p - length (nat_to_string n)) buf @ nat_to_string n @ drop p buf"
  using assms
proof (induction n arbitrary: p buf rule: less_induct)
  case (less n)
  consider "n < 10" | "10 \<le> n" "n < 100" | "100 \<le> n" by linarith
  then show ?case
  proof cases
    case 1
    then obtain q where "p = Suc q" using less.prems by (cases p) (simp_all add: nat_to_string_small)
    with 1 less.prems show ?thesis
      by (simp add: int2ascii.simps[of n] nat_to_string_small upd_conv_take_nth_drop)
  next
    case 2
    with less.prems show ?thesis
      by (simp add: int2ascii.simps[of n] nat_to_string_small put2_update numeral_2_eq_2)
  next
    case 3
    let ?b = "take (p - 2) buf @ [digit_char (n mod 100 div 10), digit_char (n mod 100 mod 10)] @ drop p buf"
    have len: "length (nat_to_string n) = length (nat_to_string (n div 100)) + 2" by (rule length_nat_to_string_100[OF 3])
    then have p: "2 \<le> p" "length (nat_to_string (n div 100)) \<le> p - 2" "p - 2 \<le> length ?b" using less.prems by simp_all
    have "int2ascii n (p, buf) = int2ascii (n div 100) (p - 2, ?b)"
      using 3 p less.prems by (simp add: int2ascii.simps[of n] put2_update)
    also have "\<dots> = take (p - 2 - length (nat_to_string (n div 100))) ?b @ nat_to_string (n div 100) @ drop (p - 2) ?b"
      using 3 p by (intro less.IH) simp_all
    finally show ?thesis using less.prems p by (simp add: len nat_to_string_100[OF 3])
  qed
qed

lemma length_numeral_u64: "length (nat_to_string (unat (x :: u64))) \<le> 20"
proof -
  have "unat x < 2 ^ 64" using unsigned_less[of x] by simp
  then show ?thesis by (intro length_nat_to_string_le) simp_all
qed

lemma sint_nonneg_uint: "0 \<le> sint (x :: u64) \<Longrightarrow> sint x = uint x"
proof -
  assume nn: "0 \<le> sint x"
  have s: "sint x = signed_take_bit 63 (uint x)" by (simp add: sint_uint)
  have "uint x < 2 ^ 64" using unsigned_less[of x] by simp
  then have "uint x div 2 ^ 63 < 2" by (simp add: less_mult_imp_div_less)
  moreover have "0 \<le> uint x div 2 ^ 63" by (simp add: pos_imp_zdiv_nonneg_iff)
  moreover have bit: "\<not> bit (uint x) 63" using nn unfolding s by simp
  then have "even (uint x div 2 ^ 63)" by (simp add: bit_iff_odd)
  moreover have "q = 0" if "q < 2" "0 \<le> q" "even q" for q :: int using that by presburger
  ultimately have "uint x div 2 ^ 63 = 0" by blast
  then have "uint x < 2 ^ 63" by (auto simp: zdiv_eq_0_iff)
  with bit show ?thesis unfolding s by (simp add: signed_take_bit_eq_if_positive take_bit_int_eq_self)
qed

lemma unat_remove_sign:
  assumes "sint x < 0"
  shows "unat (remove_sign x) = nat (- sint x)"
proof -
  have k: "unat (word_of_int k :: u64) = nat k" if "0 \<le> k" "k < 2 ^ 64" for k
    using that by (simp add: unsigned_of_int take_bit_int_eq_self)
  have "- (2 ^ 63) \<le> sint x" using sint_ge[of x] by simp
  with assms have "unat (word_of_int (- sint x) :: u64) = nat (- sint x)" by (intro k) simp_all
  moreover have "remove_sign x = word_of_int (- sint x)" by (simp add: remove_sign_def)
  ultimately show ?thesis by (simp only:)
qed

lemma dump_integer_eq: "dump_integer False x = nat_to_string (unat x)" "dump_integer True x = to_string (sint x)"
proof -
  have pos: "take (count_digits 1 (unat x)) (int2ascii (unat x) (count_digits 1 (unat x), number_buffer)) = nat_to_string (unat x)" for x :: u64
    using length_numeral_u64[of x] count_digits_length[of 0]
    by (simp add: int2ascii_fill number_buffer_def)
  have zero: "nat_to_string 0 = ''0''" by code_simp
  show "dump_integer False x = nat_to_string (unat x)"
    using pos[of x] zero by (simp add: dump_integer_def Let_def)
  show "dump_integer True x = to_string (sint x)"
  proof (cases "sint x < 0")
    case True
    let ?n = "unat (remove_sign x)"
    have minus: "number_buffer[0 := CHR ''-''] = CHR ''-'' # replicate 63 (CHR 0x00)" by code_simp
    have "length (nat_to_string ?n) \<le> 20" by (rule length_numeral_u64)
    then have "take (1 + count_digits 1 ?n) (int2ascii ?n (1 + count_digits 1 ?n, number_buffer[0 := CHR ''-''])) = CHR ''-'' # nat_to_string ?n"
      using count_digits_length[of 0 ?n] minus by (simp add: int2ascii_fill)
    with True show ?thesis
      by (auto simp: dump_integer_def Let_def unat_remove_sign to_string_def)
  next
    case False
    then have "nat (sint x) = unat x"
      using sint_nonneg_uint[of x] by simp
    with False pos[of x] show ?thesis
      using zero by (auto simp: dump_integer_def Let_def to_string_def)
  qed
qed

section \<open>The decoder accepts UTF-8\<close>

text \<open>Well-formed byte sequences of one code point, after table 3-7 of the Unicode standard.\<close>

definition cont :: "nat \<Rightarrow> bool" where
  "cont b \<longleftrightarrow> 0x80 \<le> b \<and> b \<le> 0xBF"

fun utf8_seq :: "nat list \<Rightarrow> bool" where
  "utf8_seq [a] \<longleftrightarrow> a < 0x80"
| "utf8_seq [a, b] \<longleftrightarrow> 0xC2 \<le> a \<and> a \<le> 0xDF \<and> cont b"
| "utf8_seq [a, b, c] \<longleftrightarrow> cont c \<and>
     (a = 0xE0 \<and> 0xA0 \<le> b \<and> b \<le> 0xBF \<or> (0xE1 \<le> a \<and> a \<le> 0xEC \<or> 0xEE \<le> a \<and> a \<le> 0xEF) \<and> cont b \<or>
      a = 0xED \<and> 0x80 \<le> b \<and> b \<le> 0x9F)"
| "utf8_seq [a, b, c, d] \<longleftrightarrow> cont c \<and> cont d \<and>
     (a = 0xF0 \<and> 0x90 \<le> b \<and> b \<le> 0xBF \<or> 0xF1 \<le> a \<and> a \<le> 0xF3 \<and> cont b \<or> a = 0xF4 \<and> 0x80 \<le> b \<and> b \<le> 0x8F)"
| "utf8_seq _ \<longleftrightarrow> False"

fun utf8 :: "string \<Rightarrow> bool" where
  "utf8 [] \<longleftrightarrow> True"
| "utf8 (a # s) \<longleftrightarrow>
     (if ord8 a < 0x80 then utf8 s
      else case s of [] \<Rightarrow> False | b # s1 \<Rightarrow>
        utf8_seq [ord8 a, ord8 b] \<and> utf8 s1 \<or>
        (case s1 of [] \<Rightarrow> False | c # s2 \<Rightarrow>
           utf8_seq [ord8 a, ord8 b, ord8 c] \<and> utf8 s2 \<or>
           (case s2 of [] \<Rightarrow> False | d # s3 \<Rightarrow> utf8_seq [ord8 a, ord8 b, ord8 c, ord8 d] \<and> utf8 s3)))"

definition utf8_type :: "nat \<Rightarrow> nat" where
  "utf8_type b =
     (if b < 128 then 0 else if b < 144 then 1 else if b < 160 then 9 else if b < 192 then 7 else if b < 194 then 8
      else if b < 224 then 2 else if b = 224 then 10 else if b < 237 then 3 else if b = 237 then 4 else if b < 240 then 3
      else if b = 240 then 11 else if b < 244 then 6 else if b = 244 then 5 else 8)"

lemma utf8d_table: "utf8d = map utf8_type [0..<256] @ drop 256 utf8d"
  by code_simp

lemma utf8d_type: "b < 256 \<Longrightarrow> utf8d ! b = utf8_type b"
  by (subst utf8d_table) (simp add: nth_append)

definition utf8_next :: "nat \<Rightarrow> nat \<Rightarrow> nat" where
  "utf8_next st b = utf8d ! (256 + st * 16 + utf8d ! b)"

text \<open>The classes of lead bytes, byte by byte.\<close>

lemma utf8_first:
  assumes "b < 256"
  shows "[0, 1, 2, 3, 5, 8, 7, 1, 1, 1, 4, 6] ! utf8_type b =
    (if b < 0x80 then 0 else if 0xC2 \<le> b \<and> b \<le> 0xDF then 2 else if b = 0xE0 then 4 else if b = 0xED then 5
     else if 0xE1 \<le> b \<and> b \<le> 0xEF then 3 else if b = 0xF0 then 6 else if 0xF1 \<le> b \<and> b \<le> 0xF3 then 7 else if b = 0xF4 then 8 else (1 :: nat))"
proof -
  have "map (\<lambda>b. [0, 1, 2, 3, 5, 8, 7, 1, 1, 1, 4, 6] ! utf8_type b) [0..<256] =
    map (\<lambda>b. if b < 0x80 then 0 else if 0xC2 \<le> b \<and> b \<le> 0xDF then 2 else if b = 0xE0 then 4 else if b = 0xED then 5
     else if 0xE1 \<le> b \<and> b \<le> 0xEF then 3 else if b = 0xF0 then 6 else if 0xF1 \<le> b \<and> b \<le> 0xF3 then 7 else if b = 0xF4 then 8 else (1 :: nat)) [0..<256]"
    by code_simp
  with assms show ?thesis by simp
qed

lemma utf8_next_eq:
  assumes "b < 256"
  shows "utf8_next 0 b = (if b < 0x80 then 0 else if 0xC2 \<le> b \<and> b \<le> 0xDF then 2 else if b = 0xE0 then 4 else if b = 0xED then 5
      else if 0xE1 \<le> b \<and> b \<le> 0xEF then 3 else if b = 0xF0 then 6 else if 0xF1 \<le> b \<and> b \<le> 0xF3 then 7 else if b = 0xF4 then 8 else 1)"
    "utf8_next 2 b = (if cont b then 0 else 1)"
    "utf8_next 3 b = (if cont b then 2 else 1)"
    "utf8_next 4 b = (if 0xA0 \<le> b \<and> b \<le> 0xBF then 2 else 1)"
    "utf8_next 5 b = (if 0x80 \<le> b \<and> b \<le> 0x9F then 2 else 1)"
    "utf8_next 6 b = (if 0x90 \<le> b \<and> b \<le> 0xBF then 3 else 1)"
    "utf8_next 7 b = (if cont b then 3 else 1)"
    "utf8_next 8 b = (if 0x80 \<le> b \<and> b \<le> 0x8F then 3 else 1)"
proof -
  have len: "length utf8d = 400" by code_simp
  have nx: "utf8_next st b = row ! utf8_type b" if "st < 9" "take 12 (drop (256 + 16 * st) utf8d) = row" for st row
  proof -
    have "utf8_type b < 12" by (simp add: utf8_type_def)
    moreover have "256 + st * 16 + utf8_type b < 400" using calculation that(1) by linarith
    ultimately show ?thesis using len by (simp add: utf8_next_def utf8d_type[OF assms] mult.commute that(2)[symmetric])
  qed
  have "utf8_next 0 b = [0, 1, 2, 3, 5, 8, 7, 1, 1, 1, 4, 6] ! utf8_type b" by (rule nx) (simp, code_simp)
  then show "utf8_next 0 b = (if b < 0x80 then 0 else if 0xC2 \<le> b \<and> b \<le> 0xDF then 2 else if b = 0xE0 then 4 else if b = 0xED then 5
      else if 0xE1 \<le> b \<and> b \<le> 0xEF then 3 else if b = 0xF0 then 6 else if 0xF1 \<le> b \<and> b \<le> 0xF3 then 7 else if b = 0xF4 then 8 else 1)"
    by (simp only: utf8_first[OF assms])
  have "utf8_next 2 b = [1, 0, 1, 1, 1, 1, 1, 0, 1, 0, 1, 1] ! utf8_type b" by (rule nx) (simp, code_simp)
  then show "utf8_next 2 b = (if cont b then 0 else 1)" by (simp add: utf8_type_def cont_def)
  have "utf8_next 3 b = [1, 2, 1, 1, 1, 1, 1, 2, 1, 2, 1, 1] ! utf8_type b" by (rule nx) (simp, code_simp)
  then show "utf8_next 3 b = (if cont b then 2 else 1)" by (simp add: utf8_type_def cont_def)
  have "utf8_next 4 b = [1, 1, 1, 1, 1, 1, 1, 2, 1, 1, 1, 1] ! utf8_type b" by (rule nx) (simp, code_simp)
  then show "utf8_next 4 b = (if 0xA0 \<le> b \<and> b \<le> 0xBF then 2 else 1)" by (simp add: utf8_type_def)
  have "utf8_next 5 b = [1, 2, 1, 1, 1, 1, 1, 1, 1, 2, 1, 1] ! utf8_type b" by (rule nx) (simp, code_simp)
  then show "utf8_next 5 b = (if 0x80 \<le> b \<and> b \<le> 0x9F then 2 else 1)" by (simp add: utf8_type_def)
  have "utf8_next 6 b = [1, 1, 1, 1, 1, 1, 1, 3, 1, 3, 1, 1] ! utf8_type b" by (rule nx) (simp, code_simp)
  then show "utf8_next 6 b = (if 0x90 \<le> b \<and> b \<le> 0xBF then 3 else 1)" by (simp add: utf8_type_def)
  have "utf8_next 7 b = [1, 3, 1, 1, 1, 1, 1, 3, 1, 3, 1, 1] ! utf8_type b" by (rule nx) (simp, code_simp)
  then show "utf8_next 7 b = (if cont b then 3 else 1)" by (simp add: utf8_type_def cont_def)
  have "utf8_next 8 b = [1, 3, 1, 1, 1, 1, 1, 1, 1, 1, 1, 1] ! utf8_type b" by (rule nx) (simp, code_simp)
  then show "utf8_next 8 b = (if 0x80 \<le> b \<and> b \<le> 0x8F then 3 else 1)" by (simp add: utf8_type_def)
qed

text \<open>What the code point read so far is worth in each state.\<close>

definition dfa_ok :: "nat \<Rightarrow> nat \<Rightarrow> bool" where
  "dfa_ok st cp \<longleftrightarrow>
     (if st = 2 then 2 \<le> cp \<and> cp < 2 ^ 15 else if st = 3 then 1 \<le> cp \<and> cp < 2 ^ 9 else if st = 4 then cp = 0
      else if st = 5 then cp = 13 else if st = 6 then cp = 0 else if st = 7 then 1 \<le> cp \<and> cp < 4
      else if st = 8 then cp = 4 else st = 0)"

definition esc_byte :: "char \<Rightarrow> string" where
  "esc_byte c = (if ord8 c < 0x80 then escape_char (of_nat (ord8 c)) c else [c])"

lemma decode_start:
  assumes "b < 256" "utf8_next 0 b \<noteq> 1"
  shows "dfa_ok (utf8_next 0 b) (b mod 2 ^ (8 - utf8_type b)) \<and> (b < 0x80 \<longrightarrow> b mod 2 ^ (8 - utf8_type b) = b)"
proof -
  consider "b < 128" | "194 \<le> b" "b \<le> 223" | "b = 224" | "b = 237" | "225 \<le> b" "b \<le> 239" "b \<noteq> 237" | "b = 240" | "b = 241 \<or> b = 242 \<or> b = 243" | "b = 244"
    using assms utf8_next_eq(1)[OF assms(1)] by (auto split: if_splits) linarith
  then show ?thesis
  proof cases
    case 2
    then have "b mod 64 = b - 192" using mod_nat_in[of 3 64 b] by simp
    with 2 show ?thesis by (simp add: utf8_next_eq(1)[OF assms(1)] utf8_type_def dfa_ok_def) linarith
  next
    case 5
    then have "b mod 32 = b - 224" using mod_nat_in[of 7 32 b] by simp
    with 5 show ?thesis by (simp add: utf8_next_eq(1)[OF assms(1)] utf8_type_def dfa_ok_def) linarith
  next
    case 7
    then show ?thesis by (elim disjE) (simp_all add: utf8_next_eq(1) utf8_type_def dfa_ok_def)
  qed (simp_all add: utf8_next_eq(1) utf8_type_def dfa_ok_def)
qed

lemma decode_step:
  assumes "dfa_ok st (unat cp)" "decode st cp (ord8 c) = (st', cp')" "st' \<noteq> 1"
  shows "dfa_ok st' (unat cp') \<and> (if st' = 0 then escape_char cp' c else [c]) = esc_byte c"
proof (cases "st = 0")
  case True
  have st': "st' = utf8_next 0 (ord8 c)" and cp': "unat cp' = ord8 c mod 2 ^ (8 - utf8_type (ord8 c))"
    using assms(2) True by (auto simp: decode_def utf8_next_def UTF8_ACCEPT_def utf8d_type drop_255_and Let_def)
  note d = decode_start[of "ord8 c", folded st', OF ord8_less assms(3), folded cp']
  show ?thesis
  proof (cases "ord8 c < 0x80")
    case True
    then have "unat cp' = unat (of_nat (ord8 c) :: u32)" using d by (simp add: unat_of_nat)
    then have "cp' = of_nat (ord8 c)" by (simp only: word_unat_eq_iff)
    with True show ?thesis by (simp add: esc_byte_def st' utf8_next_eq dfa_ok_def)
  next
    case False
    then have "st' \<noteq> 0" by (simp add: st' utf8_next_eq)
    with False d show ?thesis by (simp add: esc_byte_def)
  qed
next
  case False
  let ?b = "ord8 c"
  have st': "st' = utf8_next st ?b" and "cp' = push_bit 6 cp OR of_nat (?b mod 64)"
    using assms(2) False by (auto simp: decode_def utf8_next_def UTF8_ACCEPT_def and_63_of_nat or.commute Let_def)
  then have "unat cp' = (unat cp * 64 + ?b mod 64) mod 2 ^ 32" by (simp only: unat_push6_or[OF mod_less_divisor])
  moreover have "unat cp < 2 ^ 15" using assms(1) False by (auto simp: dfa_ok_def split: if_splits)
  ultimately have cp': "unat cp' = unat cp * 64 + ?b mod 64" by (simp add: trans_less_add1)
  have st: "st = 2 \<or> st = 3 \<or> st = 4 \<or> st = 5 \<or> st = 6 \<or> st = 7 \<or> st = 8"
    using assms(1) False by (auto simp: dfa_ok_def split: if_splits)
  have hi: "128 \<le> ?b"
    using st assms(3) unfolding st' by (elim disjE) (auto simp: utf8_next_eq cont_def split: if_splits)
  have "?b mod 64 = ?b - 128" if "?b \<le> 191" using that hi mod_nat_in[of 2 64 ?b] by simp
  moreover have "?b mod 64 < 64" by simp
  ultimately have "dfa_ok st' (unat cp')" and "st' = 0 \<longrightarrow> 128 \<le> unat cp'"
    using st assms(1,3) unfolding st' cp' by (elim disjE; auto simp: utf8_next_eq dfa_ok_def split: if_splits)+
  moreover have "escape_char cp' c = [c]" if "128 \<le> unat cp'"
    using that by (auto simp: escape_char_def word_le_nat_alt)
  ultimately show ?thesis using hi by (simp add: esc_byte_def)
qed

fun utf8_run :: "nat \<Rightarrow> string \<Rightarrow> bool" where
  "utf8_run st [] \<longleftrightarrow> st = 0"
| "utf8_run st (c # s) \<longleftrightarrow> utf8_next st (ord8 c) \<noteq> 1 \<and> utf8_run (utf8_next st (ord8 c)) s"

definition escaped :: "string \<Rightarrow> string" where
  "escaped s = concat (map esc_byte s)"

lemma escape_loop_run:
  "dfa_ok st (unat cp) \<Longrightarrow>
   (if utf8_run st s then escape_loop s i st cp lb out buf = Inr (out @ buf @ escaped s)
    else \<exists>e. escape_loop s i st cp lb out buf = Inl e)"
proof (induction s arbitrary: i st cp lb out buf)
  case (Cons c s)
  obtain st' cp' where d: "decode st cp (ord8 c) = (st', cp')" by fastforce
  then have st': "st' = utf8_next st (ord8 c)" by (auto simp: decode_def utf8_next_def Let_def)
  show ?case
  proof (cases "st' = 1")
    case False
    from decode_step[OF Cons.prems d False]
    have "dfa_ok st' (unat cp')" and e: "(if st' = 0 then escape_char cp' c else [c]) = esc_byte c" by simp_all
    note IH = Cons.IH[OF this(1)]
    have "\<exists>o' b' i' lb'. o' @ b' = out @ buf @ esc_byte c \<and> escape_loop (c # s) i st cp lb out buf = escape_loop s i' st' cp' lb' o' b'"
      using e False by (cases "st' = 0") (auto simp: d UTF8_ACCEPT_def UTF8_REJECT_def Let_def)
    then obtain o' b' i' lb' where "o' @ b' = out @ buf @ esc_byte c" "escape_loop (c # s) i st cp lb out buf = escape_loop s i' st' cp' lb' o' b'"
      by blast
    with IH[of i' lb' o' b'] False show ?thesis by (auto simp: st'[symmetric] escaped_def append_assoc[symmetric] simp del: escape_loop.simps append_assoc)
  qed (simp add: d st'[symmetric] UTF8_ACCEPT_def UTF8_REJECT_def)
qed (simp add: UTF8_ACCEPT_def escaped_def)

lemma utf8_run_cont:
  "utf8_run 2 s \<longleftrightarrow> (case s of [] \<Rightarrow> False | c # r \<Rightarrow> cont (ord8 c) \<and> utf8_run 0 r)"
  "utf8_run 3 s \<longleftrightarrow> (case s of [] \<Rightarrow> False | c # r \<Rightarrow> cont (ord8 c) \<and> utf8_run 2 r)"
  "utf8_run 4 s \<longleftrightarrow> (case s of [] \<Rightarrow> False | c # r \<Rightarrow> 0xA0 \<le> ord8 c \<and> ord8 c \<le> 0xBF \<and> utf8_run 2 r)"
  "utf8_run 5 s \<longleftrightarrow> (case s of [] \<Rightarrow> False | c # r \<Rightarrow> 0x80 \<le> ord8 c \<and> ord8 c \<le> 0x9F \<and> utf8_run 2 r)"
  "utf8_run 6 s \<longleftrightarrow> (case s of [] \<Rightarrow> False | c # r \<Rightarrow> 0x90 \<le> ord8 c \<and> ord8 c \<le> 0xBF \<and> utf8_run 3 r)"
  "utf8_run 7 s \<longleftrightarrow> (case s of [] \<Rightarrow> False | c # r \<Rightarrow> cont (ord8 c) \<and> utf8_run 3 r)"
  "utf8_run 8 s \<longleftrightarrow> (case s of [] \<Rightarrow> False | c # r \<Rightarrow> 0x80 \<le> ord8 c \<and> ord8 c \<le> 0x8F \<and> utf8_run 3 r)"
  by (cases s; auto simp: utf8_next_eq)+

lemma utf8_run_first:
  "utf8_run 0 (a # s) \<longleftrightarrow>
     (let b = ord8 a in
      if b < 0x80 then utf8_run 0 s else if 0xC2 \<le> b \<and> b \<le> 0xDF then utf8_run 2 s else if b = 0xE0 then utf8_run 4 s
      else if b = 0xED then utf8_run 5 s else if 0xE1 \<le> b \<and> b \<le> 0xEF then utf8_run 3 s else if b = 0xF0 then utf8_run 6 s
      else if 0xF1 \<le> b \<and> b \<le> 0xF3 then utf8_run 7 s else if b = 0xF4 then utf8_run 8 s else False)"
  by (simp add: utf8_next_eq Let_def)

lemma utf8_run_iff: "utf8_run 0 s \<longleftrightarrow> utf8 s"
proof (induction "length s" arbitrary: s rule: less_induct)
  case less
  show ?case
  proof (cases s)
    case (Cons a r)
    then have IH: "utf8_run 0 t \<longleftrightarrow> utf8 t" if "length t \<le> length r" for t using less that by simp
    let ?a = "ord8 a"
    consider "?a < 128" | "128 \<le> ?a" "?a < 194" | "194 \<le> ?a" "?a \<le> 223" | "?a = 224" | "?a = 237" | "225 \<le> ?a" "?a \<le> 239" "?a \<noteq> 237"
      | "?a = 240" | "241 \<le> ?a" "?a \<le> 243" | "?a = 244" | "244 < ?a" by linarith
    then show ?thesis
      unfolding Cons utf8_run_first utf8.simps(2)[of a r]
      by cases (auto simp: Let_def IH utf8_run_cont cont_def simp del: utf8.simps utf8_run.simps split: list.split)
  qed simp
qed

theorem dump_escaped_iff: "(\<exists>t. dump_escaped s = Inr t) \<longleftrightarrow> utf8 s"
  and dump_escaped_eq: "utf8 s \<Longrightarrow> dump_escaped s = Inr (escaped s)"
proof -
  have "dfa_ok 0 (unat (0 :: u32))" by (simp add: dfa_ok_def)
  note run = escape_loop_run[OF this, of s 0 0 "[]" "[]", unfolded utf8_run_iff]
  then show "utf8 s \<Longrightarrow> dump_escaped s = Inr (escaped s)" by (simp add: dump_escaped_def UTF8_ACCEPT_def)
  from run show "(\<exists>t. dump_escaped s = Inr t) \<longleftrightarrow> utf8 s"
    by (auto simp: dump_escaped_def UTF8_ACCEPT_def split: if_splits)
qed

section \<open>The output buffer is not overrun\<close>

text \<open>
  The largest number of bytes the loop ever has in the buffer, along the run of \<open>escape_loop\<close>; since it stays below 512
  the free space \<^verbatim>\<open>string_buffer.size() - bytes\<close> does not wrap either.
\<close>

fun escape_peak :: "string \<Rightarrow> nat \<Rightarrow> u32 \<Rightarrow> string \<Rightarrow> nat" where
  "escape_peak [] state codep buf = length buf"
| "escape_peak (c # s) state codep buf =
     (case decode state codep (ord8 c) of (state', codep') \<Rightarrow>
        if state' = UTF8_ACCEPT
        then (let buf' = buf @ escape_char codep' c in
              max (length buf') (escape_peak s state' codep' (if 512 - length buf' < 13 then [] else buf')))
        else if state' = UTF8_REJECT then length buf
        else max (length (buf @ [c])) (escape_peak s state' codep' (buf @ [c])))"

definition buffer_cap :: "nat \<Rightarrow> nat" where
  "buffer_cap st = (if st = 0 then 499 else if st = 2 then 502 else if st = 3 then 501 else 500)"

lemma esc_byte_length: "length (esc_byte c) \<le> 6" "0x80 \<le> ord8 c \<Longrightarrow> length (esc_byte c) = 1"
  by (simp_all add: esc_byte_def escape_char_def hex4_def)

lemma utf8_next_cap:
  assumes "b < 256" "dfa_ok st cp" "utf8_next st b \<noteq> 1"
  shows "(utf8_next st b \<noteq> 0 \<longrightarrow> buffer_cap st < buffer_cap (utf8_next st b)) \<and> (st \<noteq> 0 \<longrightarrow> 0x80 \<le> b)"
proof -
  have "st = 0 \<or> st = 2 \<or> st = 3 \<or> st = 4 \<or> st = 5 \<or> st = 6 \<or> st = 7 \<or> st = 8"
    using assms(2) by (auto simp: dfa_ok_def split: if_splits)
  then show ?thesis
    using assms(3) by (elim disjE) (auto simp: utf8_next_eq[OF assms(1)] buffer_cap_def cont_def split: if_splits)
qed

lemma escape_peak_bound:
  "dfa_ok st (unat cp) \<Longrightarrow> length buf \<le> buffer_cap st \<Longrightarrow> escape_peak s st cp buf \<le> 505"
proof (induction s arbitrary: st cp buf)
  case Nil
  then show ?case by (simp add: buffer_cap_def split: if_splits)
next
  case (Cons c s)
  have cap: "buffer_cap st \<le> 502" for st by (simp add: buffer_cap_def)
  obtain st' cp' where d: "decode st cp (ord8 c) = (st', cp')" by fastforce
  then have st': "st' = utf8_next st (ord8 c)" by (auto simp: decode_def utf8_next_def Let_def)
  show ?case
  proof (cases "st' = 1")
    case True
    then show ?thesis using Cons.prems(2) cap[of st] by (simp add: d UTF8_ACCEPT_def UTF8_REJECT_def)
  next
    case False
    from decode_step[OF Cons.prems(1) d False]
    have ok: "dfa_ok st' (unat cp')" and e: "(if st' = 0 then escape_char cp' c else [c]) = esc_byte c" by simp_all
    have nx: "st' \<noteq> 0 \<longrightarrow> buffer_cap st < buffer_cap st'" "st \<noteq> 0 \<longrightarrow> 0x80 \<le> ord8 c"
      using utf8_next_cap[OF ord8_less Cons.prems(1)] False by (simp_all add: st')
    have len: "length (buf @ esc_byte c) \<le> 505"
      using Cons.prems(2) esc_byte_length[of c] nx(2) cap[of st] by (cases "st = 0") (auto simp: buffer_cap_def[of 0])
    show ?thesis
    proof (cases "st' = 0")
      case True
      have "escape_peak s 0 cp' (if 512 - length (buf @ esc_byte c) < 13 then [] else buf @ esc_byte c) \<le> 505"
        using ok True by (intro Cons.IH) (auto simp: buffer_cap_def)
      with True e len show ?thesis by (auto simp: d UTF8_ACCEPT_def Let_def split: if_splits)
    next
      case st0: False
      have "length (buf @ [c]) \<le> buffer_cap st'" using Cons.prems(2) nx(1) st0 by simp
      from Cons.IH[OF ok this] this cap[of st'] show ?thesis
        using False st0 by (simp add: d UTF8_ACCEPT_def UTF8_REJECT_def)
    qed
  qed
qed

text \<open>No string makes the escaping loop write past the 512 bytes of its buffer.\<close>

theorem dump_escaped_in_bounds: "escape_peak s UTF8_ACCEPT 0 [] \<le> 505"
  by (rule escape_peak_bound) (simp_all add: UTF8_ACCEPT_def dfa_ok_def buffer_cap_def)

section \<open>Properties\<close>

text \<open>
  C34. The printer of integers, which writes two digits at a time from the end of a fixed buffer, gives the decimal
  numeral of every 64-bit value, the least one included, as a signed and as an unsigned number.
\<close>
theorem dump_integer_correct: "dump_integer False x = nat_to_string (unat x) \<and> dump_integer True x = to_string (sint x)"
  by (simp add: dump_integer_eq)

end
