(* ===== verification/JsonParse.thy ===== *)
theory JsonParse
  imports JsonText
begin

text \<open>
  The lexer and the parser of \<^verbatim>\<open>backend/src/libs/json.hpp\<close> as \<^verbatim>\<open>json::parse\<close> runs them: no callback, no comments, no trailing
  commas, the whole input. The input still to be read is the rest of a byte list; \<^verbatim>\<open>get()\<close> takes its first
  byte and \<^verbatim>\<open>unget()\<close> leaves it there. The DOM handler's stack of references into the growing value is a stack of
  open containers, each with what it holds so far. Errors carry the unexpected token, what was
  expected and where, of which the library makes its message.
\<close>

section \<open>Strings\<close>

definition hex_nibble :: "char \<Rightarrow> nat option" where
  "hex_nibble c =
     (let b = ord8 c in
      if 0x30 \<le> b \<and> b \<le> 0x39 then Some (b - 0x30)
      else if 0x41 \<le> b \<and> b \<le> 0x46 then Some (b - 0x37)
      else if 0x61 \<le> b \<and> b \<le> 0x66 then Some (b - 0x57)
      else None)"

fun read_nibbles :: "nat list \<Rightarrow> nat \<Rightarrow> string \<Rightarrow> (nat \<times> string) option" where
  "read_nibbles [] codepoint s = Some (codepoint, s)"
| "read_nibbles (factor # fs) codepoint [] = None"
| "read_nibbles (factor # fs) codepoint (c # s) =
     (case hex_nibble c of None \<Rightarrow> None | Some v \<Rightarrow> read_nibbles fs (codepoint + v * 2 ^ factor) s)"

definition get_codepoint :: "string \<Rightarrow> (nat \<times> string) option" where
  "get_codepoint s = read_nibbles [12, 8, 4, 0] 0 s"

definition codepoint_bytes :: "nat \<Rightarrow> string" where
  "codepoint_bytes cp =
     map char_of
       (if cp < 0x80 then [cp]
        else if cp \<le> 0x7FF then [0xC0 + cp div 64, 0x80 + cp mod 64]
        else if cp \<le> 0xFFFF then [0xE0 + cp div 4096, 0x80 + cp div 64 mod 64, 0x80 + cp mod 64]
        else [0xF0 + cp div 262144, 0x80 + cp div 4096 mod 64, 0x80 + cp div 64 mod 64, 0x80 + cp mod 64])"

definition four_hex_msg :: string where
  "four_hex_msg = ''invalid string: '' @ [CHR 0x27, CHR 0x5C] @ ''u'' @ [CHR 0x27] @ '' must be followed by 4 hex digits''"

definition surrogate_msg :: string where
  "surrogate_msg = ''invalid string: surrogate U+D800..U+DBFF must be followed by U+DC00..U+DFFF''"

text \<open>After \<^verbatim>\<open>\u\<close>: one code unit, or a surrogate pair.\<close>

definition scan_unicode :: "string \<Rightarrow> string + string \<times> string" where
  "scan_unicode s =
     (case get_codepoint s of
        None \<Rightarrow> Inl four_hex_msg
      | Some (codepoint1, r) \<Rightarrow>
          if 0xD800 \<le> codepoint1 \<and> codepoint1 \<le> 0xDBFF
          then if take 2 r = [CHR 0x5C, CHR ''u'']
               then (case get_codepoint (drop 2 r) of
                       None \<Rightarrow> Inl four_hex_msg
                     | Some (codepoint2, r2) \<Rightarrow>
                         if 0xDC00 \<le> codepoint2 \<and> codepoint2 \<le> 0xDFFF
                         then Inr (codepoint_bytes (codepoint1 * 1024 + codepoint2 - 0x35FDC00), r2)
                         else Inl surrogate_msg)
               else Inl surrogate_msg
          else if 0xDC00 \<le> codepoint1 \<and> codepoint1 \<le> 0xDFFF
               then Inl ''invalid string: surrogate U+DC00..U+DFFF must follow U+D800..U+DBFF''
               else Inr (codepoint_bytes codepoint1, r))"

definition simple_escapes :: "(char \<times> char) list" where
  "simple_escapes =
     [(CHR 0x22, CHR 0x22), (CHR 0x5C, CHR 0x5C), (CHR ''/'', CHR ''/''), (CHR ''b'', CHR 0x08), (CHR ''f'', CHR 0x0C),
      (CHR ''n'', CHR 0x0A), (CHR ''r'', CHR 0x0D), (CHR ''t'', CHR 0x09)]"

definition scan_escape :: "string \<Rightarrow> string + string \<times> string" where
  "scan_escape s =
     (case s of
        [] \<Rightarrow> Inl ''invalid string: forbidden character after backslash''
      | c # r \<Rightarrow>
          (case map_of simple_escapes c of
             Some d \<Rightarrow> Inr ([d], r)
           | None \<Rightarrow> if c = CHR ''u'' then scan_unicode r else Inl ''invalid string: forbidden character after backslash''))"

text \<open>The ranges the bytes after a lead byte must lie in.\<close>

definition lead_ranges :: "nat \<Rightarrow> (nat \<times> nat) list option" where
  "lead_ranges b =
     (if 0xC2 \<le> b \<and> b \<le> 0xDF then Some [(0x80, 0xBF)]
      else if b = 0xE0 then Some [(0xA0, 0xBF), (0x80, 0xBF)]
      else if b = 0xED then Some [(0x80, 0x9F), (0x80, 0xBF)]
      else if 0xE1 \<le> b \<and> b \<le> 0xEF then Some [(0x80, 0xBF), (0x80, 0xBF)]
      else if b = 0xF0 then Some [(0x90, 0xBF), (0x80, 0xBF), (0x80, 0xBF)]
      else if 0xF1 \<le> b \<and> b \<le> 0xF3 then Some [(0x80, 0xBF), (0x80, 0xBF), (0x80, 0xBF)]
      else if b = 0xF4 then Some [(0x80, 0x8F), (0x80, 0xBF), (0x80, 0xBF)]
      else None)"

fun next_byte_in_range :: "(nat \<times> nat) list \<Rightarrow> string \<Rightarrow> (string \<times> string) option" where
  "next_byte_in_range [] s = Some ([], s)"
| "next_byte_in_range ((lo, hi) # ranges) [] = None"
| "next_byte_in_range ((lo, hi) # ranges) (c # s) =
     (if lo \<le> ord8 c \<and> ord8 c \<le> hi
      then map_option (\<lambda>(t, r). (c # t, r)) (next_byte_in_range ranges s) else None)"

definition control_names :: "string list" where
  "control_names =
     [''NUL'', ''SOH'', ''STX'', ''ETX'', ''EOT'', ''ENQ'', ''ACK'', ''BEL'', ''BS'', ''HT'', ''LF'', ''VT'', ''FF'', ''CR'', ''SO'', ''SI'',
      ''DLE'', ''DC1'', ''DC2'', ''DC3'', ''DC4'', ''NAK'', ''SYN'', ''ETB'', ''CAN'', ''EM'', ''SUB'', ''ESC'', ''FS'', ''GS'', ''RS'', ''US'']"

definition control_msg :: "nat \<Rightarrow> string" where
  "control_msg b =
     ''invalid string: control character U+00'' @ hex_bytes b @ '' ('' @ control_names ! b @ '') must be escaped to '' @ [CHR 0x5C] @ ''u00'' @ hex_bytes b @
     (case map_of [(8 :: nat, CHR ''b''), (9, CHR ''t''), (10, CHR ''n''), (12, CHR ''f''), (13, CHR ''r'')] b of
        Some c \<Rightarrow> '' or '' @ [CHR 0x5C, c] | None \<Rightarrow> [])"

lemma read_nibbles_shorter: "read_nibbles fs cp s = Some (x, r) \<Longrightarrow> length r \<le> length s"
  by (induction fs cp s rule: read_nibbles.induct) (auto split: option.splits)

lemma get_codepoint_shorter: "get_codepoint s = Some (x, r) \<Longrightarrow> length r \<le> length s"
  by (simp add: get_codepoint_def read_nibbles_shorter)

lemma scan_escape_shorter: "scan_escape s = Inr (a, r) \<Longrightarrow> length r \<le> length s"
  by (auto simp: scan_escape_def scan_unicode_def dest!: get_codepoint_shorter split: list.splits option.splits if_splits)

lemma next_byte_in_range_shorter: "next_byte_in_range rs s = Some (t, r) \<Longrightarrow> s = t @ r"
  by (induction rs s arbitrary: t rule: next_byte_in_range.induct) (auto split: if_splits)

function scan_string :: "string \<Rightarrow> string \<Rightarrow> string + string \<times> string" where
  "scan_string buf [] = Inl ''invalid string: missing closing quote''"
| "scan_string buf (c # s) =
     (let b = ord8 c in
      if b = 0x22 then Inr (buf, s)
      else if b = 0x5C
      then (case scan_escape s of Inl e \<Rightarrow> Inl e | Inr (a, r) \<Rightarrow> scan_string (buf @ a) r)
      else if b \<le> 0x1F then Inl (control_msg b)
      else if b \<le> 0x7F then scan_string (buf @ [c]) s
      else (case lead_ranges b of
              None \<Rightarrow> Inl ''invalid string: ill-formed UTF-8 byte''
            | Some ranges \<Rightarrow>
                (case next_byte_in_range ranges s of
                   None \<Rightarrow> Inl ''invalid string: ill-formed UTF-8 byte''
                 | Some (a, r) \<Rightarrow> scan_string (buf @ c # a) r)))"
  by pat_completeness auto
termination
  by (relation "measure (length \<circ> snd)")
    (auto dest!: scan_escape_shorter next_byte_in_range_shorter)

declare scan_string.simps [simp del]

section \<open>Numbers\<close>

datatype num_state = N_minus | N_zero | N_any1 | N_decimal1 | N_decimal2 | N_exponent | N_sign | N_any2

datatype num_type = Num_unsigned | Num_integer | Num_float

definition digit_at :: "char option \<Rightarrow> bool" where
  "digit_at c = (case c of Some d \<Rightarrow> isdigit d | None \<Rightarrow> False)"

text \<open>
  The labels of \<^verbatim>\<open>scan_number\<close> and where the next character leads from each; \<open>None\<close> stands for
  \<^verbatim>\<open>scan_number_done\<close> and \<open>Inl\<close> for an error.
\<close>

fun num_next :: "num_state \<Rightarrow> char option \<Rightarrow> string + num_state option" where
  "num_next N_minus c =
     (if c = Some (CHR ''0'') then Inr (Some N_zero)
      else if digit_at c then Inr (Some N_any1)
      else Inl (''invalid number; expected digit after '' @ [CHR 0x27] @ ''-'' @ [CHR 0x27]))"
| "num_next N_zero c =
     Inr (if c = Some (CHR ''.'') then Some N_decimal1
          else if c = Some (CHR ''e'') \<or> c = Some (CHR ''E'') then Some N_exponent else None)"
| "num_next N_any1 c =
     Inr (if digit_at c then Some N_any1
          else if c = Some (CHR ''.'') then Some N_decimal1
          else if c = Some (CHR ''e'') \<or> c = Some (CHR ''E'') then Some N_exponent else None)"
| "num_next N_decimal1 c =
     (if digit_at c then Inr (Some N_decimal2)
      else Inl (''invalid number; expected digit after '' @ [CHR 0x27] @ ''.'' @ [CHR 0x27]))"
| "num_next N_decimal2 c =
     Inr (if digit_at c then Some N_decimal2
          else if c = Some (CHR ''e'') \<or> c = Some (CHR ''E'') then Some N_exponent else None)"
| "num_next N_exponent c =
     (if c = Some (CHR ''+'') \<or> c = Some (CHR ''-'') then Inr (Some N_sign)
      else if digit_at c then Inr (Some N_any2)
      else Inl (''invalid number; expected '' @ [CHR 0x27] @ ''+'' @ [CHR 0x27] @ '', '' @ [CHR 0x27] @ ''-'' @ [CHR 0x27] @ '', or digit after exponent''))"
| "num_next N_sign c =
     (if digit_at c then Inr (Some N_any2) else Inl ''invalid number; expected digit after exponent sign'')"
| "num_next N_any2 c = Inr (if digit_at c then Some N_any2 else None)"

text \<open>The type of the number changes on the way into a state.\<close>

fun num_type_at :: "num_state \<Rightarrow> num_type \<Rightarrow> num_type" where
  "num_type_at N_minus ty = Num_integer"
| "num_type_at N_decimal1 ty = Num_float"
| "num_type_at N_exponent ty = Num_float"
| "num_type_at st ty = ty"

fun scan_number_from :: "num_state \<Rightarrow> num_type \<Rightarrow> string \<Rightarrow> string \<Rightarrow> string + num_type \<times> string \<times> string" where
  "scan_number_from st ty buf [] =
     (case num_next st None of Inl e \<Rightarrow> Inl e | Inr _ \<Rightarrow> Inr (num_type_at st ty, buf, []))"
| "scan_number_from st ty buf (c # s) =
     (case num_next st (Some c) of
        Inl e \<Rightarrow> Inl e
      | Inr None \<Rightarrow> Inr (num_type_at st ty, buf, c # s)
      | Inr (Some st') \<Rightarrow> scan_number_from st' (num_type_at st ty) (buf @ [c]) s)"

section \<open>Tokens\<close>

datatype token =
    T_begin_array | T_end_array | T_begin_object | T_end_object | T_name_separator | T_value_separator
  | T_true | T_false | T_null
  | T_string string | T_unsigned u64 | T_integer u64 | T_float "(int \<times> int) option"
  | T_end_of_input | T_error string

text \<open>\<^verbatim>\<open>strtoull\<close>, \<^verbatim>\<open>strtoll\<close>, and \<^verbatim>\<open>strtod\<close> when those are out of range.\<close>

definition number_token :: "float_io \<Rightarrow> num_type \<Rightarrow> string \<Rightarrow> token" where
  "number_token F ty buf =
     (case ty of
        Num_unsigned \<Rightarrow> if digits_val buf < 2 ^ 64 then T_unsigned (of_nat (digits_val buf)) else T_float (str_to_double F buf)
      | Num_integer \<Rightarrow> if digits_val (tl buf) \<le> 2 ^ 63 then T_integer (- of_nat (digits_val (tl buf))) else T_float (str_to_double F buf)
      | Num_float \<Rightarrow> T_float (str_to_double F buf))"

definition scan_number :: "float_io \<Rightarrow> char \<Rightarrow> string \<Rightarrow> token \<times> string" where
  "scan_number F c s =
     (case scan_number_from (if c = CHR ''-'' then N_minus else if c = CHR ''0'' then N_zero else N_any1) Num_unsigned [c] s of
        Inl e \<Rightarrow> (T_error e, [])
      | Inr (ty, buf, r) \<Rightarrow> (number_token F ty buf, r))"

definition scan_literal :: "string \<Rightarrow> token \<Rightarrow> string \<Rightarrow> token \<times> string" where
  "scan_literal literal_text return_type s =
     (if starts_with s literal_text then (return_type, drop (length literal_text) s) else (T_error ''invalid literal'', []))"

definition skip_whitespace :: "string \<Rightarrow> string" where
  "skip_whitespace s = dropWhile (\<lambda>c. c \<in> {CHR '' '', CHR 0x09, CHR 0x0A, CHR 0x0D}) s"

definition scan :: "float_io \<Rightarrow> string \<Rightarrow> token \<times> string" where
  "scan F s =
     (case skip_whitespace s of
        [] \<Rightarrow> (T_end_of_input, [])
      | c # r \<Rightarrow>
          if c = CHR ''['' then (T_begin_array, r)
          else if c = CHR '']'' then (T_end_array, r)
          else if c = CHR ''{'' then (T_begin_object, r)
          else if c = CHR ''}'' then (T_end_object, r)
          else if c = CHR '':'' then (T_name_separator, r)
          else if c = CHR '','' then (T_value_separator, r)
          else if c = CHR ''t'' then scan_literal ''rue'' T_true r
          else if c = CHR ''f'' then scan_literal ''alse'' T_false r
          else if c = CHR ''n'' then scan_literal ''ull'' T_null r
          else if c = CHR 0x22
          then (case scan_string [] r of Inl e \<Rightarrow> (T_error e, []) | Inr (t, r') \<Rightarrow> (T_string t, r'))
          else if c = CHR ''-'' \<or> isdigit c then scan_number F c r
          else if c = CHR 0x00 then (T_end_of_input, r)
          else (T_error ''invalid literal'', []))"

text \<open>The first token: an optional byte order mark is skipped.\<close>

definition scan_first :: "float_io \<Rightarrow> string \<Rightarrow> token \<times> string" where
  "scan_first F s =
     (if take 1 s = [CHR 0xEF]
      then if take 3 s = [CHR 0xEF, CHR 0xBB, CHR 0xBF] then scan F (drop 3 s)
           else (T_error ''invalid BOM; must be 0xEF 0xBB 0xBF if given'', [])
      else scan F s)"

section \<open>The parser\<close>

definition quoted :: "char \<Rightarrow> string" where
  "quoted c = [CHR 0x27, c, CHR 0x27]"

definition or_literal :: string where
  "or_literal = quoted (CHR ''['') @ '', '' @ quoted (CHR ''{'') @ '', or a literal''"

text \<open>Open containers: an array with its elements so far, an object with its members and the key of the next.\<close>

datatype frame = In_array "json list" | In_object "(string \<times> json) list" string

datatype failure = Unexpected token string string | Number_overflow | Empty_input

lemma scan_number_from_shorter: "scan_number_from st ty buf s = Inr (ty', buf', r) \<Longrightarrow> length r \<le> length s"
  by (induction st ty buf s rule: scan_number_from.induct) (auto split: sum.splits option.splits)

lemma scan_string_shorter: "scan_string buf s = Inr (t, r) \<Longrightarrow> length r \<le> length s"
proof (induction "length s" arbitrary: buf s rule: less_induct)
  case less
  show ?case
  proof (cases s)
    case (Cons c u)
    have IH: "length r \<le> length v" if "scan_string b v = Inr (t, r)" "length v \<le> length u" for b v
      using less.hyps[of v b] that Cons by simp
    show ?thesis
      using less.prems unfolding Cons scan_string.simps
      by (auto simp: Let_def dest!: scan_escape_shorter next_byte_in_range_shorter split: if_splits sum.splits option.splits)
        (use IH in fastforce)+
  qed (use less.prems in \<open>simp add: scan_string.simps\<close>)
qed

fun final_token :: "token \<Rightarrow> bool" where
  "final_token T_end_of_input = True" | "final_token (T_error e) = True" | "final_token t = False"

lemma skip_whitespace_shorter: "length (skip_whitespace s) \<le> length s"
  by (simp add: skip_whitespace_def length_dropWhile_le)

lemma scan_shorter:
  assumes "scan F s = (t, r)"
  shows "length r \<le> length s" "\<not> final_token t \<Longrightarrow> length r < length s"
proof -
  have "length r \<le> length s \<and> (final_token t \<or> length r < length s)"
  proof (cases "skip_whitespace s")
    case (Cons c u)
    have "Suc (length u) \<le> length s" using skip_whitespace_shorter[of s] Cons by simp
    moreover have "length r \<le> length u"
      using assms Cons
      by (auto simp: scan_def scan_literal_def scan_number_def dest!: scan_string_shorter scan_number_from_shorter
          split: if_splits sum.splits)
    ultimately show ?thesis by simp
  qed (use assms in \<open>auto simp: scan_def\<close>)
  then show "length r \<le> length s" "\<not> final_token t \<Longrightarrow> length r < length s" by auto
qed

lemma scan_shorter_sym:
  "(t, r) = scan F s \<Longrightarrow> length r \<le> length s \<and> (final_token t \<or> length r < length s)"
  by (metis scan_shorter)

function (sequential) parse_value :: "float_io \<Rightarrow> frame list \<Rightarrow> token \<Rightarrow> string \<Rightarrow> failure + json \<times> string"
  and value_done :: "float_io \<Rightarrow> frame list \<Rightarrow> json \<Rightarrow> string \<Rightarrow> failure + json \<times> string" where
  "parse_value F states T_begin_object s =
     (case scan F s of (t1, s1) \<Rightarrow>
      case t1 of
        T_end_object \<Rightarrow> value_done F states (JObj []) s1
      | T_string key \<Rightarrow>
          (case scan F s1 of (t2, s2) \<Rightarrow>
             if t2 = T_name_separator
             then (case scan F s2 of (t3, s3) \<Rightarrow> parse_value F (In_object [] key # states) t3 s3)
             else Inl (Unexpected t2 (quoted (CHR '':'')) ''object separator''))
      | _ \<Rightarrow> Inl (Unexpected t1 ''string literal'' ''object key''))"
| "parse_value F states T_begin_array s =
     (case scan F s of (t1, s1) \<Rightarrow>
      if t1 = T_end_array then value_done F states (JArr []) s1
      else parse_value F (In_array [] # states) t1 s1)"
| "parse_value F states (T_float x) s =
     (case x of None \<Rightarrow> Inl Number_overflow | Some (m, e) \<Rightarrow> value_done F states (JFloat m e) s)"
| "parse_value F states T_false s = value_done F states (JBool False) s"
| "parse_value F states T_null s = value_done F states JNull s"
| "parse_value F states T_true s = value_done F states (JBool True) s"
| "parse_value F states (T_integer i) s = value_done F states (JInt i) s"
| "parse_value F states (T_string t) s = value_done F states (JStr t) s"
| "parse_value F states (T_unsigned n) s = value_done F states (JUint n) s"
| "parse_value F states (T_error e) s = Inl (Unexpected (T_error e) [] ''value'')"
| "parse_value F states t s = Inl (Unexpected t or_literal ''value'')"
| "value_done F [] v s = Inr (v, s)"
| "value_done F (In_array vs # states) v s =
     (case scan F s of (t1, s1) \<Rightarrow>
      if t1 = T_value_separator
      then (case scan F s1 of (t2, s2) \<Rightarrow> parse_value F (In_array (vs @ [v]) # states) t2 s2)
      else if t1 = T_end_array then value_done F states (JArr (vs @ [v])) s1
      else Inl (Unexpected t1 (quoted (CHR '']'')) ''array''))"
| "value_done F (In_object kvs k # states) v s =
     (case scan F s of (t1, s1) \<Rightarrow>
      if t1 = T_value_separator
      then (case scan F s1 of (t2, s2) \<Rightarrow>
            case t2 of
              T_string key \<Rightarrow>
                (case scan F s2 of (t3, s3) \<Rightarrow>
                   if t3 = T_name_separator
                   then (case scan F s3 of (t4, s4) \<Rightarrow> parse_value F (In_object (obj_insert k v kvs) key # states) t4 s4)
                   else Inl (Unexpected t3 (quoted (CHR '':'')) ''object separator''))
            | _ \<Rightarrow> Inl (Unexpected t2 ''string literal'' ''object key''))
      else if t1 = T_end_object then value_done F states (JObj (obj_insert k v kvs)) s1
      else Inl (Unexpected t1 (quoted (CHR ''}'')) ''object''))"
  by pat_completeness auto
termination
  by (relation "measure (\<lambda>x. case x of
       Inl (F, states, t, s) \<Rightarrow> 3 * length s + (if final_token t then 0 else 2)
     | Inr (F, states, v, s) \<Rightarrow> 3 * length s + 1)")
    (auto dest!: scan_shorter_sym scan_shorter_sym[OF sym] split: if_splits prod.splits)

declare parse_value.simps [simp del] value_done.simps [simp del]

text \<open>The entry point in strict mode: one value, then the end of the input.\<close>

definition parse_text :: "float_io \<Rightarrow> string \<Rightarrow> failure + json" where
  "parse_text F s =
     (case scan_first F s of (t, s1) \<Rightarrow>
      if t = T_end_of_input \<and> take 1 s \<in> {[], [CHR 0x00]} then Inl Empty_input
      else sum_bind (parse_value F [] t s1) (\<lambda>(v, s2).
             case scan F s2 of (t', _) \<Rightarrow>
             if t' = T_end_of_input then Inr v else Inl (Unexpected t' ''end of input'' ''value'')))"

end
