(* ===== verification/JsonRoundtrip.thy ===== *)
theory JsonRoundtrip
  imports JsonParse
begin

text \<open>
  What \<^verbatim>\<open>json::parse\<close> and \<^verbatim>\<open>json::dump\<close> promise together: every value the parser returns is well formed and can be printed,
  and the parser reads a printed value back. The one difference is that a non-negative number of
  the signed type comes back as one of the unsigned type.
\<close>

section \<open>Strings are read back\<close>

lemma hex_nibble_low: "n < 16 \<Longrightarrow> hex_nibble (hex_digit_low n) = Some n"
  by (auto simp: hex_nibble_def hex_digit_low_def Let_def)

lemma get_codepoint_hex4:
  assumes "n < 0x10000"
  shows "get_codepoint (hex4 n @ r) = Some (n, r)"
proof -
  have "n = n div 4096 * 4096 + n mod 4096" by (simp only: div_mult_mod_eq)
  moreover have "n mod 4096 = n div 256 mod 16 * 256 + n mod 256" "n mod 256 = n div 16 mod 16 * 16 + n mod 16"
    by (simp_all add: mod_mult2_eq[of n 16 16, simplified] mod_mult2_eq[of n 256 16, simplified])
  ultimately have "n div 4096 * 4096 + n div 256 mod 16 * 256 + n div 16 mod 16 * 16 + n mod 16 = n" by simp
  moreover have "n div 4096 < 16" using assms by (simp add: less_mult_imp_div_less)
  ultimately show ?thesis by (simp add: get_codepoint_def hex4_def hex_nibble_low)
qed

lemma scan_string_ascii:
  assumes "ord8 c < 0x80"
  shows "scan_string buf (esc_byte c @ r) = scan_string (buf @ [c]) r"
proof -
  let ?n = "ord8 c"
  have u: "unat (of_nat ?n :: u32) = ?n"
    using assms by (simp add: unat_of_nat)
  have w: "(of_nat ?n :: u32) = x \<longleftrightarrow> ?n = unat x" "(of_nat ?n :: u32) \<le> x \<longleftrightarrow> ?n \<le> unat x" for x
    by (simp_all add: word_unat_eq_iff word_le_nat_alt u)
  show ?thesis
  proof (cases "?n \<in> {8, 9, 10, 12, 13, 0x22, 0x5C}")
    case True
    have "c = d" if "ord8 c = ord8 d" for d using that by simp
    from this[of "CHR 0x08"] this[of "CHR 0x09"] this[of "CHR 0x0A"] this[of "CHR 0x0C"] this[of "CHR 0x0D"] this[of "CHR 0x22"] this[of "CHR 0x5C"] True
    have "c = CHR 0x08 \<or> c = CHR 0x09 \<or> c = CHR 0x0A \<or> c = CHR 0x0C \<or> c = CHR 0x0D \<or> c = CHR 0x22 \<or> c = CHR 0x5C" by auto
    then show ?thesis
      by (elim disjE) (simp_all add: esc_byte_def escape_char_def scan_string.simps scan_escape_def simple_escapes_def)
  next
    case False
    show ?thesis
    proof (cases "?n \<le> 0x1F")
      case True
      then have "get_codepoint (hex4 ?n @ r) = Some (?n, r)" by (intro get_codepoint_hex4) simp
      with True False assms show ?thesis
        by (simp add: esc_byte_def escape_char_def w u scan_string.simps scan_escape_def simple_escapes_def scan_unicode_def codepoint_bytes_def Let_def)
    qed (use False assms in \<open>simp add: esc_byte_def escape_char_def w scan_string.simps Let_def\<close>)
  qed
qed

lemma utf8_lead:
  assumes "0x80 \<le> ord8 a"
  shows "utf8 (a # s) \<longleftrightarrow>
    (\<exists>ranges t u. lead_ranges (ord8 a) = Some ranges \<and> next_byte_in_range ranges s = Some (t, u) \<and> utf8 u)"
proof -
  let ?a = "ord8 a"
  consider "?a < 194" | "194 \<le> ?a" "?a \<le> 223" | "?a = 224" | "?a = 237" | "225 \<le> ?a" "?a \<le> 239" "?a \<noteq> 237"
    | "?a = 240" | "241 \<le> ?a" "?a \<le> 243" | "?a = 244" | "244 < ?a" by linarith
  then show ?thesis
    using assms unfolding utf8.simps(2)[of a s]
    by cases (auto simp: lead_ranges_def cont_def neq_Nil_conv split: list.split if_splits simp del: utf8.simps)
qed

lemma next_byte_in_range_append:
  "next_byte_in_range rs s = Some (t, u) \<Longrightarrow> next_byte_in_range rs (t @ r) = Some (t, r)"
  by (induction rs s arbitrary: t rule: next_byte_in_range.induct) (auto split: if_splits)

lemma next_byte_in_range_high:
  "next_byte_in_range rs s = Some (t, u) \<Longrightarrow> \<forall>(lo, hi) \<in> set rs. 0x80 \<le> lo \<Longrightarrow> c \<in> set t \<Longrightarrow> 0x80 \<le> ord8 c"
  by (induction rs s arbitrary: t rule: next_byte_in_range.induct) (auto split: if_splits)

lemma lead_ranges_high: "lead_ranges b = Some rs \<Longrightarrow> \<forall>(lo, hi) \<in> set rs. 0x80 \<le> lo"
  by (auto simp: lead_ranges_def split: if_splits)

lemma escaped_high: "\<forall>c \<in> set t. 0x80 \<le> ord8 c \<Longrightarrow> escaped t = t"
  by (induction t) (auto simp: escaped_def esc_byte_def)

lemma escaped_simps: "escaped [] = []" "escaped (c # s) = esc_byte c @ escaped s" "escaped (s @ t) = escaped s @ escaped t"
  by (simp_all add: escaped_def)

lemma scan_string_lead:
  assumes "lead_ranges (ord8 c) = Some ranges" "0x80 \<le> ord8 c"
  shows "scan_string buf (c # s) = (case next_byte_in_range ranges s of
      None \<Rightarrow> Inl ''invalid string: ill-formed UTF-8 byte'' | Some (a, r) \<Rightarrow> scan_string (buf @ c # a) r)"
  using assms by (simp add: scan_string.simps Let_def)

lemma scan_string_escaped:
  "utf8 s \<Longrightarrow> scan_string buf (escaped s @ CHR 0x22 # r) = Inr (buf @ s, r)"
proof (induction "length s" arbitrary: s buf rule: less_induct)
  case less
  show ?case
  proof (cases s)
    case Nil
    then show ?thesis by (simp add: escaped_simps scan_string.simps)
  next
    case (Cons c u)
    show ?thesis
    proof (cases "ord8 c < 0x80")
      case True
      then have "utf8 u" using less.prems Cons by simp
      with True Cons less.hyps[of u "buf @ [c]"] show ?thesis by (simp add: escaped_simps scan_string_ascii)
    next
      case False
      then obtain ranges t w where l: "lead_ranges (ord8 c) = Some ranges" and n: "next_byte_in_range ranges u = Some (t, w)" and w: "utf8 w"
        using less.prems utf8_lead[of c u] Cons by auto
      have u: "u = t @ w" by (rule next_byte_in_range_shorter[OF n])
      have "escaped t = t" using next_byte_in_range_high[OF n lead_ranges_high[OF l]] by (blast intro: escaped_high)
      then have "escaped s @ CHR 0x22 # r = c # t @ escaped w @ CHR 0x22 # r"
        using False by (simp add: Cons u escaped_simps esc_byte_def)
      then have "scan_string buf (escaped s @ CHR 0x22 # r) = scan_string (buf @ c # t) (escaped w @ CHR 0x22 # r)"
        using False by (simp add: scan_string_lead[OF l] next_byte_in_range_append[OF n])
      with less.hyps[of w] w show ?thesis by (simp add: Cons u)
    qed
  qed
qed

lemma utf8_append: "utf8 s \<Longrightarrow> utf8 (s @ t) \<longleftrightarrow> utf8 t"
proof (induction "length s" arbitrary: s rule: less_induct)
  case less
  show ?case
  proof (cases s)
    case (Cons c u)
    show ?thesis
    proof (cases "ord8 c < 0x80")
      case False
      then obtain ranges v w where l: "lead_ranges (ord8 c) = Some ranges" and n: "next_byte_in_range ranges u = Some (v, w)" and w: "utf8 w"
        using less.prems utf8_lead[of c u] Cons by auto
      have u: "u = v @ w" by (rule next_byte_in_range_shorter[OF n])
      with False l next_byte_in_range_append[OF n] less.hyps[of w] w show ?thesis by (simp add: Cons utf8_lead del: utf8.simps)
    qed (use less Cons in simp)
  qed simp
qed

lemma read_nibbles_bound:
  "read_nibbles fs cp s = Some (x, r) \<Longrightarrow> x \<le> cp + sum_list (map (\<lambda>f. 15 * 2 ^ f) fs)"
proof (induction fs cp s rule: read_nibbles.induct)
  case (3 f fs cp c s)
  then obtain v where v: "hex_nibble c = Some v" by (auto split: option.splits)
  then have "v \<le> 15" by (auto simp: hex_nibble_def Let_def split: if_splits)
  then have "v * 2 ^ f \<le> 15 * 2 ^ f" by (rule mult_le_mono1)
  moreover have "x \<le> cp + v * 2 ^ f + (\<Sum>f\<leftarrow>fs. 15 * 2 ^ f)" using 3 v by simp
  ultimately show ?case by (simp only: list.map sum_list.Cons)
qed simp_all

lemma get_codepoint_less: "get_codepoint s = Some (x, r) \<Longrightarrow> x < 0x10000"
  unfolding get_codepoint_def by (drule read_nibbles_bound) simp

lemma utf8_four:
  assumes "v = 0 \<longrightarrow> 16 \<le> x" "v = 4 \<longrightarrow> x < 16" "v < 5" "z < 64" "y < 64" "x < (64 :: nat)"
  shows "utf8 (map char_of [0xF0 + v, 0x80 + x, 0x80 + y, 0x80 + z])"
proof -
  consider "v = 0" | "1 \<le> v" "v \<le> 3" | "v = 4" using assms(3) by linarith
  then show ?thesis using assms by cases (simp_all add: cont_def)
qed

lemma utf8_codepoint_bytes:
  assumes "cp < 0x110000" "\<not> (0xD800 \<le> cp \<and> cp \<le> 0xDFFF)"
  shows "utf8 (codepoint_bytes cp)"
proof -
  consider "cp < 0x80" | "0x80 \<le> cp" "cp \<le> 0x7FF" | "0x800 \<le> cp" "cp \<le> 0xFFFF" | "0x10000 \<le> cp" by linarith
  then show ?thesis
  proof cases
    case 2
    then have "2 \<le> cp div 64" "cp div 64 \<le> 31" by linarith+
    moreover have "cp mod 64 < 64" by simp
    ultimately show ?thesis using 2 by (simp add: codepoint_bytes_def cont_def)
  next
    case 3
    have "cp div 64 = cp div 4096 * 64 + cp div 64 mod 64" by (simp add: div_mult2_eq[of cp 64 64, simplified])
    then have "cp div 4096 = 0 \<longrightarrow> 32 \<le> cp div 64 mod 64" "cp div 4096 = 13 \<longrightarrow> cp div 64 mod 64 < 32"
      using 3 assms(2) by linarith+
    moreover have "cp div 4096 < 16" using 3 by linarith
    moreover have "cp mod 64 < 64" "cp div 64 mod 64 < 64" by simp_all
    moreover obtain x y z where "cp div 4096 = x" "cp div 64 mod 64 = y" "cp mod 64 = z" by blast
    ultimately show ?thesis using 3 by (simp add: codepoint_bytes_def cont_def) linarith
  next
    case 4
    have "cp div 4096 = cp div 262144 * 64 + cp div 4096 mod 64" by (simp add: div_mult2_eq[of cp 4096 64, simplified])
    then have "cp div 262144 = 0 \<longrightarrow> 16 \<le> cp div 4096 mod 64" "cp div 262144 = 4 \<longrightarrow> cp div 4096 mod 64 < 16"
      using 4 assms(1) by linarith+
    moreover have "cp div 262144 < 5" using assms(1) by linarith
    moreover have "cp mod 64 < 64" "cp div 64 mod 64 < 64" "cp div 4096 mod 64 < 64" by simp_all
    ultimately have "utf8 (map char_of [0xF0 + cp div 262144, 0x80 + cp div 4096 mod 64, 0x80 + cp div 64 mod 64, 0x80 + cp mod 64])"
      by (intro utf8_four)
    with 4 show ?thesis by (simp only: codepoint_bytes_def) simp
  qed (simp add: codepoint_bytes_def)
qed

lemma utf8_scan_escape:
  assumes "scan_escape s = Inr (a, r)"
  shows "utf8 a"
proof -
  have pair: "c1 * 1024 + c2 - 0x35FDC00 < 0x110000 \<and> \<not> (0xD800 \<le> c1 * 1024 + c2 - 0x35FDC00 \<and> c1 * 1024 + c2 - 0x35FDC00 \<le> 0xDFFF)"
    if "0xD800 \<le> c1" "c1 \<le> 0xDBFF" "0xDC00 \<le> c2" "c2 \<le> 0xDFFF" for c1 c2 :: nat
    using that by linarith
  have "utf8 a" if "scan_unicode t = Inr (a, r)" for t
    using that by (auto simp: scan_unicode_def dest!: get_codepoint_less intro!: utf8_codepoint_bytes pair[THEN conjunct1] pair[THEN conjunct2] split: option.splits if_splits)
  moreover have "utf8 [d]" if "map_of simple_escapes c = Some d" for c d
    using that by (auto simp: simple_escapes_def split: if_splits)
  ultimately show ?thesis
    using assms by (auto simp: scan_escape_def simp del: utf8.simps split: list.splits option.splits if_splits)
qed

lemma utf8_scan_string: "scan_string buf s = Inr (t, r) \<Longrightarrow> utf8 buf \<Longrightarrow> utf8 t"
proof (induction buf s rule: scan_string.induct)
  case (2 buf c s)
  have "utf8 (buf @ c # a)" if "lead_ranges (ord8 c) = Some ranges" "next_byte_in_range ranges s = Some (a, u)" "0x80 \<le> ord8 c" for ranges a u
    using that 2(5) utf8_lead[of c a] next_byte_in_range_append[of ranges s a u "[]"] by (simp add: utf8_append del: utf8.simps) auto
  moreover have "utf8 (buf @ a)" if "scan_escape s = Inr (a, u)" for a u
    using that 2(5) by (simp add: utf8_append utf8_scan_escape)
  moreover have "utf8 (buf @ [c])" if "ord8 c < 0x80" using that 2(5) by (simp add: utf8_append)
  ultimately show ?case
    using 2 by (auto simp: scan_string.simps(2)[of buf c] Let_def simp del: utf8.simps split: if_splits sum.splits option.splits prod.splits)
qed (simp add: scan_string.simps)

section \<open>Numbers are read back\<close>

text \<open>What follows a value in printed text: the end, a comma or a closing bracket.\<close>

definition delimited :: "string \<Rightarrow> bool" where
  "delimited r \<longleftrightarrow> (case r of [] \<Rightarrow> True | c # _ \<Rightarrow> c \<in> {CHR '','', CHR '']'', CHR ''}''})"

lemma num_next_delimited: "delimited (c # r) \<Longrightarrow> num_next st None = Inr x \<Longrightarrow> num_next st (Some c) = Inr None"
  by (cases st) (auto simp: delimited_def digit_at_def isdigit_def)

lemma scan_number_from_append:
  "scan_number_from st ty buf s = Inr (ty', buf', []) \<Longrightarrow> delimited r \<Longrightarrow>
   scan_number_from st ty buf (s @ r) = Inr (ty', buf', r)"
proof (induction st ty buf s rule: scan_number_from.induct)
  case (1 st ty buf)
  then show ?case by (cases r) (auto simp: num_next_delimited split: sum.splits)
qed (auto split: sum.splits option.splits)

lemma scan_digits:
  "\<forall>c \<in> set ds. isdigit c \<Longrightarrow> scan_number_from N_any1 ty buf ds = Inr (ty, buf @ ds, [])"
  by (induction ds arbitrary: buf) (auto simp: digit_at_def)

lemma nat_to_string_head:
  "\<exists>c s. nat_to_string n = c # s \<and> isdigit c \<and> (\<forall>d \<in> set s. isdigit d) \<and> (c = CHR ''0'' \<longleftrightarrow> n = 0) \<and> (n = 0 \<longrightarrow> s = [])"
proof (induction n rule: nat_to_string.induct)
  case (1 n)
  have zero: "digit_char d = CHR ''0'' \<longleftrightarrow> d = 0" if "d < 10" for d
    using that of_char_eq_iff[of "digit_char d" "CHR ''0''", where 'a = nat] by simp
  show ?case
  proof (cases "n < 10")
    case True
    then show ?thesis by (simp add: nat_to_string_small zero)
  next
    case False
    with 1 obtain c s where "nat_to_string (n div 10) = c # s" "isdigit c" "\<forall>d \<in> set s. isdigit d" "c \<noteq> CHR ''0''" by auto
    with False show ?thesis by (simp add: nat_to_string.simps[of n])
  qed
qed

lemma scan_nonspace: "c \<notin> {CHR '' '', CHR 0x09, CHR 0x0A, CHR 0x0D} \<Longrightarrow> skip_whitespace (c # r) = c # r"
  by (simp add: skip_whitespace_def)

lemma scan_number_start:
  assumes "c = CHR ''-'' \<or> isdigit c"
  shows "scan F (c # r) = scan_number F c r"
proof -
  have "\<not> isdigit d \<and> d \<noteq> CHR ''-''" if "d \<in> set ('' []{}:,tfn'' @ [CHR 0x09, CHR 0x0A, CHR 0x0D, CHR 0x22, CHR 0x00])" for d
    using that by (auto simp: isdigit_def)
  then have "c \<notin> set ('' []{}:,tfn'' @ [CHR 0x09, CHR 0x0A, CHR 0x0D, CHR 0x22, CHR 0x00])" using assms by blast
  then show ?thesis using assms by (simp add: scan_def scan_nonspace)
qed

lemma scan_unsigned:
  assumes "n < 2 ^ 64" "delimited r"
  shows "scan F (nat_to_string n @ r) = (T_unsigned (of_nat n), r)"
proof -
  obtain c s where n: "nat_to_string n = c # s" "isdigit c" "\<forall>d \<in> set s. isdigit d" "c = CHR ''0'' \<longleftrightarrow> n = 0" "n = 0 \<longrightarrow> s = []"
    using nat_to_string_head[of n] by blast
  have "c \<noteq> CHR ''-''" using n(2) by auto
  moreover have "scan_number_from (if c = CHR ''0'' then N_zero else N_any1) Num_unsigned [c] s = Inr (Num_unsigned, c # s, [])"
    using n(3-5) by (auto simp: scan_digits)
  from scan_number_from_append[OF this assms(2)] have "scan_number_from (if c = CHR ''0'' then N_zero else N_any1) Num_unsigned [c] (s @ r) = Inr (Num_unsigned, c # s, r)" .
  ultimately have "scan_number F c (s @ r) = (number_token F Num_unsigned (nat_to_string n), r)"
    using n(1) by (simp add: scan_number_def)
  moreover have "digits_val (c # s) = n" using n(1) digits_val_to_string[of n] by simp
  ultimately show ?thesis using assms(1) n(1,2) by (simp add: scan_number_start number_token_def)
qed

lemma scan_negative:
  assumes "0 < n" "n \<le> 2 ^ 63" "delimited r"
  shows "scan F (CHR ''-'' # nat_to_string n @ r) = (T_integer (- of_nat n), r)"
proof -
  obtain c s where n: "nat_to_string n = c # s" "isdigit c" "\<forall>d \<in> set s. isdigit d" "c \<noteq> CHR ''0''"
    using nat_to_string_head[of n] assms(1) by blast
  have "scan_number_from N_minus Num_unsigned [CHR ''-''] (c # s) = Inr (Num_integer, CHR ''-'' # c # s, [])"
    using n by (simp add: digit_at_def scan_digits)
  from scan_number_from_append[OF this assms(3)]
  have "scan_number F (CHR ''-'') (nat_to_string n @ r) = (number_token F Num_integer (CHR ''-'' # nat_to_string n), r)"
    using n(1) by (simp add: scan_number_def)
  with assms(2) show ?thesis by (simp add: scan_number_start number_token_def)
qed

lemma scan_integer:
  assumes "delimited r"
  shows "scan F (dump_integer False x @ r) = (T_unsigned x, r)"
    and "scan F (dump_integer True x @ r) = (if sint x < 0 then T_integer x else T_unsigned x, r)"
proof -
  have "unat x < 2 ^ 64" using unsigned_less[of x] by simp
  from scan_unsigned[OF this assms] have u: "scan F (nat_to_string (unat x) @ r) = (T_unsigned x, r)" for F by simp
  then show "scan F (dump_integer False x @ r) = (T_unsigned x, r)" by (simp add: dump_integer_eq)
  show "scan F (dump_integer True x @ r) = (if sint x < 0 then T_integer x else T_unsigned x, r)"
  proof (cases "sint x < 0")
    case True
    have "- (2 ^ 63) \<le> sint x" using sint_ge[of x] by simp
    then have "0 < nat (- sint x)" "nat (- sint x) \<le> 2 ^ 63" using True by simp_all
    moreover have "- of_nat (nat (- sint x)) = x" using True by simp
    ultimately show ?thesis using True scan_negative[OF _ _ assms, of "nat (- sint x)" F] by (simp add: dump_integer_eq to_string_def)
  next
    case False
    then have "nat (sint x) = unat x" using sint_nonneg_uint[of x] by simp
    with False u show ?thesis by (simp add: dump_integer_eq to_string_def)
  qed
qed

text \<open>A text the lexer takes whole as a number with a fraction or an exponent.\<close>

definition float_numeral :: "string \<Rightarrow> bool" where
  "float_numeral t \<longleftrightarrow>
     (case t of
        [] \<Rightarrow> False
      | c # s \<Rightarrow> (c = CHR ''-'' \<or> isdigit c) \<and>
          scan_number_from (if c = CHR ''-'' then N_minus else if c = CHR ''0'' then N_zero else N_any1) Num_unsigned [c] s =
            Inr (Num_float, t, []))"

text \<open>The promise of the printer of doubles: what it prints has a fraction or an exponent and is read back.\<close>

definition float_reads :: "float_io \<Rightarrow> int \<Rightarrow> int \<Rightarrow> bool" where
  "float_reads F m e \<longleftrightarrow> float_numeral (double_text F m e) \<and> str_to_double F (double_text F m e) = Some (m, e)"

lemma scan_float:
  assumes "float_reads F m e" "delimited r"
  shows "scan F (double_text F m e @ r) = (T_float (Some (m, e)), r)"
proof -
  obtain c s where t: "double_text F m e = c # s" "c = CHR ''-'' \<or> isdigit c"
    and "scan_number_from (if c = CHR ''-'' then N_minus else if c = CHR ''0'' then N_zero else N_any1) Num_unsigned [c] s =
            Inr (Num_float, c # s, [])"
    using assms(1) by (auto simp: float_reads_def float_numeral_def split: list.splits)
  from scan_number_from_append[OF this(3) assms(2)]
  have "scan_number F c (s @ r) = (number_token F Num_float (double_text F m e), r)"
    unfolding scan_number_def by (simp add: t(1))
  then show ?thesis using t assms(1) scan_number_start[OF t(2), of F] by (simp add: number_token_def float_reads_def)
qed

section \<open>Values are read back\<close>

text \<open>What can be printed and read back, and what it is read back as.\<close>

fun printable :: "float_io \<Rightarrow> json \<Rightarrow> bool" where
  "printable F (JFloat m e) \<longleftrightarrow> float_reads F m e"
| "printable F (JStr s) \<longleftrightarrow> utf8 s"
| "printable F (JArr js) \<longleftrightarrow> (\<forall>j \<in> set js. printable F j)"
| "printable F (JObj kvs) \<longleftrightarrow> sorted_keys kvs \<and> (\<forall>kv \<in> set kvs. utf8 (fst kv) \<and> printable F (snd kv))"
| "printable F JDiscarded \<longleftrightarrow> False"
| "printable F j \<longleftrightarrow> True"

fun reread :: "json \<Rightarrow> json" where
  "reread (JInt i) = (if sint i < 0 then JInt i else JUint i)"
| "reread (JArr js) = JArr (map reread js)"
| "reread (JObj kvs) = JObj (map (\<lambda>kv. (fst kv, reread (snd kv))) kvs)"
| "reread j = j"

definition parse_next :: "float_io \<Rightarrow> frame list \<Rightarrow> string \<Rightarrow> failure + json \<times> string" where
  "parse_next F fs s = (case scan F s of (t, r) \<Rightarrow> parse_value F fs t r)"

definition reads :: "float_io \<Rightarrow> string \<Rightarrow> json \<Rightarrow> bool" where
  "reads F t v \<longleftrightarrow> (\<forall>fs r. delimited r \<longrightarrow> parse_next F fs (t @ r) = value_done F fs v r)"

lemma reads_not_end:
  assumes "reads F t v" "delimited r"
  shows "fst (scan F (t @ r)) \<noteq> T_end_array"
proof
  assume "fst (scan F (t @ r)) = T_end_array"
  then obtain s where "scan F (t @ r) = (T_end_array, s)" by (metis prod.collapse)
  moreover have "parse_next F [] (t @ r) = Inr (v, r)" using assms by (simp add: reads_def value_done.simps)
  ultimately show False by (simp add: parse_next_def parse_value.simps)
qed

lemma scan_punct:
  "scan F (CHR ''['' # r) = (T_begin_array, r)" "scan F (CHR '']'' # r) = (T_end_array, r)"
  "scan F (CHR ''{'' # r) = (T_begin_object, r)" "scan F (CHR ''}'' # r) = (T_end_object, r)"
  "scan F (CHR '':'' # r) = (T_name_separator, r)" "scan F (CHR '','' # r) = (T_value_separator, r)"
  by (simp_all add: scan_def scan_nonspace)

lemma scan_text: "utf8 s \<Longrightarrow> scan F (CHR 0x22 # escaped s @ CHR 0x22 # r) = (T_string s, r)"
  by (simp add: scan_def scan_nonspace scan_string_escaped)

lemma scan_words: "scan F (''true'' @ r) = (T_true, r)" "scan F (''false'' @ r) = (T_false, r)" "scan F (''null'' @ r) = (T_null, r)"
  by (simp_all add: scan_def scan_nonspace scan_literal_def starts_with_def)

lemma reads_token: "(\<And>r. delimited r \<Longrightarrow> scan F (t @ r) = (tok, r)) \<Longrightarrow> (\<And>fs r. parse_value F fs tok r = value_done F fs v r) \<Longrightarrow> reads F t v"
  by (simp add: reads_def parse_next_def)

lemma delimited_simps [simp]: "delimited []" "delimited (CHR '','' # r)" "delimited (CHR '']'' # r)" "delimited (CHR ''}'' # r)"
  by (simp_all add: delimited_def)

text \<open>From an opening brace or a comma to the value of the next member.\<close>

definition parse_member :: "float_io \<Rightarrow> (string \<times> json) list \<Rightarrow> frame list \<Rightarrow> string \<Rightarrow> failure + json \<times> string" where
  "parse_member F kvs fs s =
     (case scan F s of (t1, s1) \<Rightarrow>
      case t1 of
        T_string key \<Rightarrow>
          (case scan F s1 of (t2, s2) \<Rightarrow>
             if t2 = T_name_separator then parse_next F (In_object kvs key # fs) s2
             else Inl (Unexpected t2 (quoted (CHR '':'')) ''object separator''))
      | _ \<Rightarrow> Inl (Unexpected t1 ''string literal'' ''object key''))"

lemma value_done_next:
  "value_done F (In_array vs # fs) v (CHR '','' # s) = parse_next F (In_array (vs @ [v]) # fs) s"
  "value_done F (In_array vs # fs) v (CHR '']'' # s) = value_done F fs (JArr (vs @ [v])) s"
  "value_done F (In_object kvs k # fs) v (CHR '','' # s) = parse_member F (obj_insert k v kvs) fs s"
  "value_done F (In_object kvs k # fs) v (CHR ''}'' # s) = value_done F fs (JObj (obj_insert k v kvs)) s"
  unfolding value_done.simps scan_punct parse_next_def parse_member_def by simp_all

lemma parse_member_text:
  "utf8 k \<Longrightarrow> parse_member F kvs fs (CHR 0x22 # escaped k @ CHR 0x22 # CHR '':'' # s) = parse_next F (In_object kvs k # fs) s"
  by (simp add: parse_member_def scan_text scan_punct)

lemma obj_insert_last: "sorted_keys (kvs @ [(k, v')]) \<Longrightarrow> obj_insert k v kvs = kvs @ [(k, v)]"
  by (induction kvs) (auto simp: sorted_keys_def)

lemma sorted_keys_move: "sorted_keys (acc @ (k, v) # kvs) \<Longrightarrow> obj_insert k w acc = acc @ [(k, w)] \<and> sorted_keys ((acc @ [(k, w)]) @ kvs)"
  by (rule conjI, rule obj_insert_last[of _ _ v]) (auto simp: sorted_keys_def sorted_wrt_append)

definition rereads :: "float_io \<Rightarrow> json \<Rightarrow> bool" where
  "rereads F j \<longleftrightarrow> (\<exists>t. dump_json F j = Inr t \<and> reads F t (reread j))"

lemma rereads_elements:
  "js \<noteq> [] \<Longrightarrow> \<forall>j \<in> set js. rereads F j \<Longrightarrow>
   \<exists>t. dump_elements F js = Inr t \<and> (\<forall>vs fs r. fst (scan F (t @ CHR '']'' # r)) \<noteq> T_end_array \<and>
     parse_next F (In_array vs # fs) (t @ CHR '']'' # r) = value_done F fs (JArr (vs @ map reread js)) r)"
proof (induction js)
  case (Cons j js)
  then obtain t where t: "dump_json F j = Inr t" "reads F t (reread j)" by (auto simp: rereads_def)
  show ?case
  proof (cases "js = []")
    case True
    with t reads_not_end[OF t(2)] show ?thesis by (simp add: reads_def value_done_next)
  next
    case False
    with Cons obtain u where u: "dump_elements F js = Inr u"
      "\<And>vs fs r. parse_next F (In_array vs # fs) (u @ CHR '']'' # r) = value_done F fs (JArr (vs @ map reread js)) r" by auto
    with False t reads_not_end[OF t(2)] show ?thesis by (simp add: reads_def value_done_next)
  qed
qed simp

lemma rereads_members:
  "kvs \<noteq> [] \<Longrightarrow> \<forall>kv \<in> set kvs. utf8 (fst kv) \<and> rereads F (snd kv) \<Longrightarrow>
   \<exists>t. dump_members F kvs = Inr (CHR 0x22 # t) \<and> (\<forall>acc fs r. sorted_keys (acc @ kvs) \<longrightarrow>
     parse_member F acc fs (CHR 0x22 # t @ CHR ''}'' # r) = value_done F fs (JObj (acc @ map (\<lambda>kv. (fst kv, reread (snd kv))) kvs)) r)"
proof (induction kvs)
  case (Cons kv kvs)
  obtain k j where kv: "kv = (k, j)" by (cases kv)
  with Cons obtain t where t: "dump_json F j = Inr t" "reads F t (reread j)" and k: "utf8 k" by (auto simp: rereads_def)
  show ?case
  proof (cases "kvs = []")
    case True
    have "obj_insert k (reread j) acc = acc @ [(k, reread j)]" if "sorted_keys (acc @ [(k, j)])" for acc
      by (rule obj_insert_last[OF that])
    with True t k show ?thesis by (simp add: kv dump_escaped_eq parse_member_text reads_def value_done_next)
  next
    case False
    with Cons obtain u where u: "dump_members F kvs = Inr (CHR 0x22 # u)"
      "\<And>acc fs r. sorted_keys (acc @ kvs) \<Longrightarrow>
        parse_member F acc fs (CHR 0x22 # u @ CHR ''}'' # r) = value_done F fs (JObj (acc @ map (\<lambda>kv. (fst kv, reread (snd kv))) kvs)) r" by auto
    have "parse_member F acc fs (CHR 0x22 # escaped k @ CHR 0x22 # CHR '':'' # t @ CHR '','' # CHR 0x22 # u @ CHR ''}'' # r) =
        value_done F fs (JObj (acc @ map (\<lambda>kv. (fst kv, reread (snd kv))) ((k, j) # kvs))) r"
      if "sorted_keys (acc @ (k, j) # kvs)" for acc fs r
      using sorted_keys_move[OF that, of "reread j"] u(2)[of "acc @ [(k, reread j)]"] t(2) k
      by (simp add: parse_member_text reads_def value_done_next)
    with False t(1) k u(1) show ?thesis by (simp add: kv dump_escaped_eq)
  qed
qed simp

lemma printable_rereads: "printable F j \<Longrightarrow> rereads F j"
proof (induction j rule: reread.induct)
  case (2 js)
  show ?case
  proof (cases "js = []")
    case True
    then show ?thesis by (simp add: rereads_def reads_def parse_next_def scan_punct parse_value.simps)
  next
    case False
    with 2 rereads_elements[of js F] obtain t where t: "dump_elements F js = Inr t"
      "\<And>vs fs r. fst (scan F (t @ CHR '']'' # r)) \<noteq> T_end_array"
      "\<And>vs fs r. parse_next F (In_array vs # fs) (t @ CHR '']'' # r) = value_done F fs (JArr (vs @ map reread js)) r" by auto
    have "parse_value F fs T_begin_array (t @ CHR '']'' # r) = parse_next F (In_array [] # fs) (t @ CHR '']'' # r)" for fs r
      using t(2)[of r] by (cases "scan F (t @ CHR '']'' # r)") (simp add: parse_value.simps(2) parse_next_def)
    with False t(1,3) show ?thesis by (simp add: rereads_def reads_def parse_next_def[of F _ "CHR ''['' # _"] scan_punct)
  qed
next
  case (3 kvs)
  show ?case
  proof (cases "kvs = []")
    case True
    then show ?thesis by (simp add: rereads_def reads_def parse_next_def scan_punct parse_value.simps)
  next
    case False
    with 3 rereads_members[of kvs F] obtain t where t: "dump_members F kvs = Inr (CHR 0x22 # t)"
      "\<And>acc fs r. sorted_keys (acc @ kvs) \<Longrightarrow>
        parse_member F acc fs (CHR 0x22 # t @ CHR ''}'' # r) = value_done F fs (JObj (acc @ map (\<lambda>kv. (fst kv, reread (snd kv))) kvs)) r"
      by auto
    have "scan F (CHR 0x22 # s) \<noteq> (T_end_object, x)" for s x by (simp add: scan_def scan_nonspace split: sum.splits prod.splits)
    then have "parse_value F fs T_begin_object (CHR 0x22 # s) = parse_member F [] fs (CHR 0x22 # s)" for fs s
      unfolding parse_value.simps(1) parse_member_def parse_next_def by (auto split: prod.splits token.splits)
    with False t(1) t(2)[of "[]"] 3(2) show ?thesis
      by (simp add: rereads_def reads_def parse_next_def[of F _ "CHR ''{'' # _"] scan_punct)
  qed
next
  case (1 i)
  then show ?case using scan_integer(2)[of _ F i]
    by (auto simp: rereads_def intro!: reads_token[of F _ "if sint i < 0 then T_integer i else T_unsigned i"] simp: parse_value.simps)
qed (auto simp: rereads_def dump_escaped_eq scan_integer scan_words[simplified] scan_text scan_float parse_value.simps
      intro!: reads_token)

lemma parse_text_next:
  assumes "parse_next F [] s = Inr (v, [])"
  shows "parse_text F s = Inr v"
proof -
  obtain t r where t: "scan F s = (t, r)" "parse_value F [] t r = Inr (v, [])"
    using assms by (auto simp: parse_next_def split: prod.splits)
  have fin: "\<not> final_token t" using t(2) by (cases t) (auto simp: parse_value.simps)
  have "scan F (CHR 0xEF # u) = (T_error ''invalid literal'', [])" for u
    by (simp add: scan_def scan_nonspace isdigit_def)
  then have "take 1 s \<noteq> [CHR 0xEF]" using fin t(1) by (cases s) auto
  moreover have "scan F [] = (T_end_of_input, [])" by (simp add: scan_def skip_whitespace_def)
  ultimately show ?thesis using t fin by (auto simp: parse_text_def scan_first_def)
qed

section \<open>What the parser returns can be printed\<close>

text \<open>The promise of \<^verbatim>\<open>strtod\<close> and the printer of doubles: a double that was read is printed so that it is read back.\<close>

definition floats_ok :: "float_io \<Rightarrow> bool" where
  "floats_ok F \<longleftrightarrow> (\<forall>x m e. str_to_double F x = Some (m, e) \<longrightarrow> float_reads F m e)"

fun lexeme_ok :: "float_io \<Rightarrow> token \<Rightarrow> bool" where
  "lexeme_ok F (T_string s) \<longleftrightarrow> utf8 s"
| "lexeme_ok F (T_float x) \<longleftrightarrow> (case x of None \<Rightarrow> True | Some (m, e) \<Rightarrow> float_reads F m e)"
| "lexeme_ok F t \<longleftrightarrow> True"

fun frame_ok :: "float_io \<Rightarrow> frame \<Rightarrow> bool" where
  "frame_ok F (In_array vs) \<longleftrightarrow> printable F (JArr vs)"
| "frame_ok F (In_object kvs k) \<longleftrightarrow> printable F (JObj kvs) \<and> utf8 k"

lemma scan_lexeme_ok:
  assumes "floats_ok F" "scan F s = (t, r)"
  shows "lexeme_ok F t"
proof -
  have f: "case str_to_double F x of None \<Rightarrow> True | Some (m, e) \<Rightarrow> float_reads F m e" for x
    using assms(1) by (auto simp: floats_ok_def split: option.splits)
  have n: "lexeme_ok F (number_token F ty x)" for ty x using f[of x] by (simp add: number_token_def split: num_type.splits)
  show ?thesis
    using assms(2) by (auto simp: scan_def scan_literal_def scan_number_def n split: list.splits if_splits sum.splits prod.splits
        dest: utf8_scan_string)
qed

lemma printable_insert:
  "printable F (JObj kvs) \<Longrightarrow> utf8 k \<Longrightarrow> printable F v \<Longrightarrow> printable F (JObj (obj_insert k v kvs))"
  using set_obj_insert[of k v kvs] by (auto simp: sorted_keys_obj_insert)

lemma parse_value_printable:
  assumes F: "floats_ok F"
  shows "parse_value F fs t s = Inr (v, r) \<Longrightarrow> list_all (frame_ok F) fs \<Longrightarrow> lexeme_ok F t \<Longrightarrow> printable F v"
    and "value_done F fs w s = Inr (v, r) \<Longrightarrow> list_all (frame_ok F) fs \<Longrightarrow> printable F w \<Longrightarrow> printable F v"
  using F
proof (induction F fs t s and F fs w s rule: parse_value_value_done.induct)
  case (1 F states s)
  have e: "printable F (JObj [])" by (simp add: sorted_keys_def)
  have "printable F v" if "scan F s = (T_string k, s1)" "scan F s1 = (T_name_separator, s2)" "scan F s2 = (t3, s3)"
      "parse_value F (In_object [] k # states) t3 s3 = Inr (v, r)" for k s1 s2 t3 s3
    using "1.IH"(2)[OF that(1)[symmetric] refl that(2)[symmetric] refl that(3)[symmetric] that(4)] e 1(4,6)
      scan_lexeme_ok[OF 1(6) that(1)] scan_lexeme_ok[OF 1(6) that(3)] by simp
  with e 1(3-) show ?case
    by (auto simp: parse_value.simps split: prod.splits token.splits if_splits dest: "1.IH"(1)[OF sym])
next
  case (2 F states s)
  then show ?case
    by (auto simp: parse_value.simps split: prod.splits if_splits dest: scan_lexeme_ok 2(1)[OF sym] 2(2)[OF sym])
next
  case (3 F states x s)
  then show ?case by (auto simp: parse_value.simps split: option.splits)
next
  case (13 F vs states w s)
  then show ?case
    by (auto simp: value_done.simps split: prod.splits if_splits dest: scan_lexeme_ok "13.IH"(1)[OF sym _ sym] "13.IH"(2)[OF sym])
next
  case (14 F kvs k states w s)
  have i: "printable F (JObj (obj_insert k w kvs))" using 14 by (intro printable_insert) simp_all
  have "printable F v" if "scan F s = (T_value_separator, s1)" "scan F s1 = (T_string key, s2)" "scan F s2 = (T_name_separator, s3)"
      "scan F s3 = (t4, s4)" "parse_value F (In_object (obj_insert k w kvs) key # states) t4 s4 = Inr (v, r)" for key s1 s2 s3 t4 s4
    using "14.IH"(1)[OF that(1)[symmetric] refl that(2)[symmetric] refl that(3)[symmetric] refl that(4)[symmetric] that(5)] i 14
      scan_lexeme_ok[OF 14(6) that(2)] scan_lexeme_ok[OF 14(6) that(4)] by simp
  with i 14(3-) show ?case
    by (auto simp: value_done.simps split: prod.splits token.splits if_splits dest: "14.IH"(2)[OF sym])
qed (auto simp: parse_value.simps value_done.simps)

section \<open>Printed texts\<close>

lemma scan_number_from_no_nul:
  "scan_number_from st ty buf s = Inr (ty', buf', r) \<Longrightarrow> CHR 0x00 \<notin> set buf \<Longrightarrow> CHR 0x00 \<notin> set buf'"
proof (induction st ty buf s rule: scan_number_from.induct)
  case (2 st ty buf c s)
  have "num_next st (Some (CHR 0x00)) \<noteq> Inr (Some st')" for st' by (cases st) (simp_all add: digit_at_def isdigit_def)
  with 2 show ?case by (auto split: sum.splits option.splits)
qed (auto split: sum.splits)

lemma float_reads_no_nul:
  assumes "float_reads F m e"
  shows "CHR 0x00 \<notin> set (double_text F m e)"
proof -
  obtain c s st where t: "double_text F m e = c # s" "c = CHR ''-'' \<or> isdigit c"
    and s: "scan_number_from st Num_unsigned [c] s = Inr (Num_float, double_text F m e, [])"
    using assms by (auto simp: float_reads_def float_numeral_def split: list.splits)
  have "\<not> isdigit (CHR 0x00)" by (simp add: isdigit_def)
  with t(2) scan_number_from_no_nul[OF s] show ?thesis by auto
qed

lemma escaped_no_nul: "CHR 0x00 \<notin> set (escaped s)"
proof -
  have h: "hex_digit_low n \<noteq> CHR 0x00" if "n < 16" for n
    using that of_char_eq_iff[of "hex_digit_low n" "CHR 0x00", where 'a = nat] by (auto simp: hex_digit_low_def split: if_splits)
  have "CHR 0x00 \<notin> set (hex4 n)" for n
    using h[of "n div 4096 mod 16"] h[of "n div 256 mod 16"] h[of "n div 16 mod 16"] h[of "n mod 16"] by (simp add: hex4_def eq_commute)
  then have "CHR 0x00 \<notin> set (esc_byte c)" for c
    by (cases "c = CHR 0x00") (auto simp: esc_byte_def escape_char_def split: if_splits)
  then show ?thesis by (simp add: escaped_def)
qed

lemma dump_integer_no_nul: "CHR 0x00 \<notin> set (dump_integer b x)"
proof -
  have "\<not> isdigit (CHR 0x00)" by (simp add: isdigit_def)
  then have "CHR 0x00 \<notin> set (nat_to_string n)" for n using nat_to_string_digits by blast
  then show ?thesis by (cases b) (auto simp: dump_integer_eq to_string_def)
qed

lemma dump_no_nul:
  "dump_json F j = Inr t \<Longrightarrow> printable F j \<Longrightarrow> CHR 0x00 \<notin> set t"
  "dump_elements F js = Inr t \<Longrightarrow> \<forall>j \<in> set js. printable F j \<Longrightarrow> CHR 0x00 \<notin> set t"
  "dump_members F kvs = Inr t \<Longrightarrow> \<forall>kv \<in> set kvs. utf8 (fst kv) \<and> printable F (snd kv) \<Longrightarrow> CHR 0x00 \<notin> set t"
proof (induction F j and F js and F kvs arbitrary: t and t and t rule: dump_json_dump_elements_dump_members.induct)
qed (auto simp: sum_bind_eq_Inr dump_escaped_eq escaped_no_nul dump_integer_no_nul float_reads_no_nul split: if_splits)

fun texts_utf8 :: "json \<Rightarrow> bool" where
  "texts_utf8 (JStr s) \<longleftrightarrow> utf8 s"
| "texts_utf8 (JArr js) \<longleftrightarrow> (\<forall>j \<in> set js. texts_utf8 j)"
| "texts_utf8 (JObj kvs) \<longleftrightarrow> (\<forall>kv \<in> set kvs. utf8 (fst kv) \<and> texts_utf8 (snd kv))"
| "texts_utf8 j \<longleftrightarrow> True"

lemma utf8_ascii: "\<forall>c \<in> set s. ord8 c < 0x80 \<Longrightarrow> utf8 s"
  by (induction s) auto

lemma dump_succeeds_iff:
  "(\<exists>t. dump_json F j = Inr t) \<longleftrightarrow> texts_utf8 j"
  "(\<exists>t. dump_elements F js = Inr t) \<longleftrightarrow> (\<forall>j \<in> set js. texts_utf8 j)"
  "(\<exists>t. dump_members F kvs = Inr t) \<longleftrightarrow> (\<forall>kv \<in> set kvs. utf8 (fst kv) \<and> texts_utf8 (snd kv))"
proof (induction F j and F js and F kvs rule: dump_json_dump_elements_dump_members.induct)
  case (11 F j js)
  then show ?case by (cases "dump_json F j"; cases "js = []") (auto simp: sum_bind_eq_Inr)
next
  case (13 F kv kvs)
  then show ?case
    using dump_escaped_iff[of "fst kv"] by (cases "dump_escaped (fst kv)"; cases "dump_json F (snd kv)"; cases "kvs = []") (auto simp: sum_bind_eq_Inr)
qed (use dump_escaped_iff in \<open>auto simp: sum_bind_eq_Inr\<close>)

lemma dump_reread:
  "dump_json F (reread j) = dump_json F j"
  "dump_elements F (map reread js) = dump_elements F js"
  "dump_members F (map (\<lambda>kv. (fst kv, reread (snd kv))) kvs) = dump_members F kvs"
proof (induction F j and F js and F kvs rule: dump_json_dump_elements_dump_members.induct)
  case (5 F i)
  have "nat (sint i) = unat i" if "\<not> sint i < 0" using sint_nonneg_uint[of i] that by simp
  then show ?case by (simp add: dump_integer_eq to_string_def)
next
  case (11 F j js)
  then show ?case by (cases "dump_json F j") simp_all
next
  case (13 F kv kvs)
  then show ?case by (cases "dump_escaped (fst kv)"; cases "dump_json F (snd kv)") simp_all
qed simp_all

lemma printable_wf: "printable F j \<Longrightarrow> json_wf j"
  by (induction j rule: json_wf.induct) auto

lemma parse_text_printable:
  assumes "floats_ok F" "parse_text F s = Inr j"
  shows "printable F j"
proof -
  obtain t r where s: "scan_first F s = (t, r)" by fastforce
  then obtain r' where t: "parse_value F [] t r = Inr (j, r')"
    using assms(2) by (auto simp: parse_text_def sum_bind_eq_Inr case_prod_beta split: if_splits)
  have "lexeme_ok F t" using s scan_lexeme_ok[OF assms(1)] by (auto simp: scan_first_def split: if_splits)
  with parse_value_printable(1)[OF assms(1) t] show ?thesis by simp
qed

lemma printed_reread:
  assumes "printable F j"
  shows "\<exists>t. dump_json F j = Inr t \<and> t \<noteq> [] \<and> CHR 0x00 \<notin> set t \<and> parse_text F t = Inr (reread j)"
proof -
  obtain t where t: "dump_json F j = Inr t" "reads F t (reread j)" using printable_rereads[OF assms] by (auto simp: rereads_def)
  then have n: "parse_next F [] t = Inr (reread j, [])" by (auto simp: reads_def value_done.simps dest!: spec[of _ "[]"])
  then have "t \<noteq> []" by (auto simp: parse_next_def scan_def skip_whitespace_def parse_value.simps)
  with t(1) parse_text_next[OF n] dump_no_nul(1)[OF t(1) assms] show ?thesis by blast
qed

section \<open>Reading a value that was read back\<close>

lemma reread_accessors [simp]:
  "is_null (reread j) = is_null j" "is_array (reread j) = is_array j" "json_empty (reread j) = json_empty j"
  "elements (reread j) = map reread (elements j)" "get_string (reread j) = get_string j" "get_bool (reread j) = get_bool j"
  "get_word32 (reread j) = get_word32 j"
  by (cases j; simp add: type_error_def)+

lemma json_find_reread [simp]: "json_find (reread j) k = map_option reread (json_find j k)"
proof (cases j)
  case (JObj kvs)
  have "map_of (map (\<lambda>kv. (fst kv, reread (snd kv))) kvs) k = map_option reread (map_of kvs k)"
    by (induction kvs) auto
  with JObj show ?thesis by simp
qed simp_all

lemma json_contains_reread [simp]: "json_contains (reread j) k = json_contains j k"
  by (simp add: json_contains_def)

section \<open>Properties\<close>

text \<open>
  C17. Round trip: a value with UTF-8 strings, ascending keys and doubles that their printer gives back is printed without an
  error, and the parser reads the text back as the same value, where non-negative signed numbers
  are now unsigned ones; printing that value again gives the same text.
\<close>
theorem json_roundtrip:
  assumes "printable F j"
  shows "\<exists>t. dump_json F j = Inr t \<and> parse_text F t = Inr (reread j) \<and> dump_json F (reread j) = Inr t"
  using printed_reread[OF assms] dump_reread(1)[of F j] by auto

definition one_float :: float_io where
  "one_float = \<lparr>double_text = (\<lambda>m e. ''-1.5e+20''), str_to_double = (\<lambda>x. if x = ''-1.5e+20'' then Some (- 3, 19) else None)\<rparr>"

definition sample_json :: json where
  "sample_json = JObj [(''a'', JArr [JInt (- 5), JInt 7, JUint 18446744073709551615, JFloat (- 3) 19, JNull]),
     (''b'' @ [CHR 0xC3, CHR 0xA9], JStr [CHR 0x22, CHR 0x0A, CHR 0x01, CHR ''x'']), (''c'', JObj [])]"

lemma one_float_reads: "float_reads one_float (- 3) 19"
  by code_simp

theorem json_roundtrip_witness:
  "\<exists>t. dump_json one_float sample_json = Inr t \<and> parse_text one_float t = Inr (reread sample_json) \<and>
     dump_json one_float (reread sample_json) = Inr t"
proof (rule json_roundtrip)
  show "printable one_float sample_json"
    using one_float_reads by (simp add: sample_json_def sorted_keys_def cont_def)
qed

text \<open>
  C18. What the parser returns is well formed at every depth, whatever the input: keys ascend, strings are UTF-8; it can be
  printed, to a text that is not empty and has no NUL, and that text is read back.
\<close>
theorem parsed_rereads:
  assumes "floats_ok F" and "parse_text F s = Inr j"
  shows "json_wf j \<and> texts_utf8 j \<and>
    (\<exists>t. dump_json F j = Inr t \<and> t \<noteq> [] \<and> CHR 0x00 \<notin> set t \<and> parse_text F t = Inr (reread j))"
  using parse_text_printable[OF assms] printed_reread[of F j] printable_wf[of F j] dump_succeeds_iff(1)[of F j] by blast

theorem parsed_rereads_witness:
  "\<exists>j t. parse_text one_float ''[-0,{}]'' = Inr j \<and> dump_json one_float j = Inr t \<and> parse_text one_float t = Inr (reread j)"
proof -
  have "floats_ok one_float" using one_float_reads by (auto simp: floats_ok_def one_float_def split: if_splits)
  moreover have "parse_text one_float ''[-0,{}]'' = Inr (JArr [JInt 0, JObj []])"
    by (simp add: parse_text_def scan_first_def scan_def skip_whitespace_def scan_number_def number_token_def digits_val_def digit_at_def isdigit_def
        parse_value.simps value_done.simps)
  ultimately show ?thesis using parsed_rereads[of one_float "''[-0,{}]''"] by blast
qed

text \<open>C35. Printing fails exactly on a value with a string or key, at any depth, that is not UTF-8.\<close>
theorem dump_json_iff: "(\<exists>t. dump_json F j = Inr t) \<longleftrightarrow> texts_utf8 j"
  by (rule dump_succeeds_iff)

end
