(* ===== verification/World.thy ===== *)
theory World
  imports JsonRoundtrip
begin

text \<open>
  The outside world as the backend sees it: HTTP peers (Supabase, Google), the Redis server, the
  S3 store, libsodium's random bytes, the two clocks; and of \<^verbatim>\<open>json.hpp\<close> the conversion of doubles and
  the wording of parse errors. None of this code is modelled: each service is a field of the record \<open>env\<close>, an
  arbitrary function of \<^emph>\<open>everything the program has asked so far\<close> (the \<open>trace\<close>) and of the
  question, so a service may keep state, change its answers and fail at any time. Theorems
  quantify over \<open>env\<close>; where one needs a documented property of a service it is a hypothesis.

  The state of the program is an extensible record that starts with the trace; the theories of the
  components extend it with their own fields. Every question is logged, the most recent first, so
  a property of what the program does to the world is a property of the trace.
\<close>

section \<open>Messages\<close>

datatype verb = GET | POST | PATCH | DELETE | HEAD

type_synonym headers = "(string \<times> string) list"

text \<open>A request as handed to \<^verbatim>\<open>httplib::Client\<close>: base address, certificate check, verb, path, ...\<close>

record http_req =
  rq_base :: string
  rq_verify :: bool
  rq_verb :: verb
  rq_path :: string
  rq_headers :: headers
  rq_body :: string
  rq_type :: string

record http_res =
  rs_status :: int
  rs_headers :: headers
  rs_body :: string

text \<open>\<^verbatim>\<open>httplib::Result\<close>: no response, a response, or an exception of the client.\<close>

datatype net_result = NetExn string | NoResponse | Response http_res

text \<open>Redis commands and replies as \<^verbatim>\<open>redisxRequest\<close> and \<^verbatim>\<open>redisxScanKeys\<close> take and give them.\<close>

datatype redis_cmd =
    RSetex string string string
  | RSet string string
  | RGet string
  | RDel string
  | RExists string

datatype resp = RespBulk "string option" | RespInt int | RespError string | RespOther

datatype s3_op =
    BucketExists string
  | MakeBucket string
  | PutObject string string string string   \<comment> \<open>bucket, key, content type, data\<close>
  | RemoveObject string string
  | GetObject string string

datatype s3_res = S3Err string | S3Ok | S3Exists bool | S3Data string

datatype event =
    EvHttp http_req
  | EvRedisConnect string
  | EvRedis redis_cmd
  | EvRedisScan string
  | EvS3 s3_op
  | EvRand
  | EvSteady
  | EvSystem
  | EvFork string "string list" string   \<comment> \<open>program, arguments, standard input\<close>

type_synonym history = "event list"

text \<open>
  The outcome of running a child process: the pipe for its input or its output could not be made, it
  could not start, it ended with an exit status, or was killed; with all it wrote to its output.
\<close>

datatype proc_result =
    InPipeFail | OutPipeFail | StartFail | ProcExit int string | ProcKilled string

record env =
  net :: "history \<Rightarrow> http_req \<Rightarrow> net_result"
  redis_connect :: "history \<Rightarrow> string \<Rightarrow> int option"     \<comment> \<open>\<^term>\<open>None\<close>: \<^verbatim>\<open>redisxInit\<close> gave null\<close>
  redis_request :: "history \<Rightarrow> redis_cmd \<Rightarrow> int \<times> resp option"
  redis_scan :: "history \<Rightarrow> string \<Rightarrow> string list option"
  s3_call :: "history \<Rightarrow> s3_op \<Rightarrow> s3_res"
  rand_byte :: "history \<Rightarrow> u8"
  steady_ns :: "history \<Rightarrow> int"
  system_s :: "history \<Rightarrow> int"
  spawn :: "history \<Rightarrow> string \<Rightarrow> string list \<Rightarrow> string \<Rightarrow> proc_result"
  floats :: float_io
  failure_text :: "string \<Rightarrow> failure \<Rightarrow> string"   \<comment> \<open>\<^verbatim>\<open>what()\<close> of a failed parse of a text\<close>

record world =
  trace :: history

section \<open>Asking the world\<close>

definition ask :: "(history \<Rightarrow> 'r) \<Rightarrow> event \<Rightarrow> ('z world_scheme, 'r) act" where
  "ask f ev = (\<lambda>s. (Inr (f (trace s)), s\<lparr>trace := ev # trace s\<rparr>))"

definition http :: "env \<Rightarrow> http_req \<Rightarrow> ('z world_scheme, http_res option) act" where
  "http E q =
     bnd (ask (\<lambda>h. net E h q) (EvHttp q)) (\<lambda>r.
       case r of NetExn w \<Rightarrow> raise (StdError w)
       | NoResponse \<Rightarrow> ret None
       | Response a \<Rightarrow> ret (Some a))"

definition steady :: "env \<Rightarrow> ('z world_scheme, int) act" where
  "steady E = ask (steady_ns E) EvSteady"

definition system_clock :: "env \<Rightarrow> ('z world_scheme, int) act" where
  "system_clock E = ask (system_s E) EvSystem"

definition random_byte :: "env \<Rightarrow> ('z world_scheme, u8) act" where
  "random_byte E = ask (rand_byte E) EvRand"

text \<open>
  \<^verbatim>\<open>json::parse(s)\<close> throws a \<^verbatim>\<open>parse_error\<close>, or an \<^verbatim>\<open>out_of_range\<close> error on a number too large for a double;
  \<^verbatim>\<open>json::parse(s, nullptr, false)\<close> gives a discarded value, and \<^verbatim>\<open>dump()\<close> throws a \<^verbatim>\<open>type_error\<close> on text that is
  not UTF-8.
\<close>

definition json_parse :: "env \<Rightarrow> string \<Rightarrow> failure + json" where
  "json_parse E s = parse_text (floats E) s"

definition json_dump :: "env \<Rightarrow> json \<Rightarrow> string + string" where
  "json_dump E j = dump_json (floats E) j"

definition json_exn :: "env \<Rightarrow> string \<Rightarrow> failure \<Rightarrow> exn" where
  "json_exn E s f = (if f = Number_overflow then OutOfRange (failure_text E s f) else ParseError (failure_text E s f))"

definition parse_json :: "env \<Rightarrow> string \<Rightarrow> exn + json" where
  "parse_json E s = map_sum (json_exn E s) id (json_parse E s)"

definition parse_nothrow :: "env \<Rightarrow> string \<Rightarrow> json" where
  "parse_nothrow E s = (case json_parse E s of Inl w \<Rightarrow> JDiscarded | Inr j \<Rightarrow> j)"

definition dump :: "env \<Rightarrow> json \<Rightarrow> exn + string" where
  "dump E j = map_sum TypeError id (json_dump E j)"

text \<open>\<^verbatim>\<open>s.c_str()\<close> as a C function reads it: up to the first NUL.\<close>

definition c_str :: "string \<Rightarrow> string" where
  "c_str s = takeWhile (\<lambda>c. c \<noteq> CHR 0x00) s"

lemma ask_apply [simp]: "ask f ev s = (Inr (f (trace s)), s\<lparr>trace := ev # trace s\<rparr>)"
  by (simp add: ask_def)

lemma wp_ask [wp]: "wp (ask f ev) Q s = Q (Inr (f (trace s))) (s\<lparr>trace := ev # trace s\<rparr>)"
  by (simp add: wp_def)

lemma wp_http [wp]:
  "wp (http E q) Q s =
     (let s' = s\<lparr>trace := EvHttp q # trace s\<rparr> in
      case net E (trace s) q of
        NetExn w \<Rightarrow> Q (Inl (StdError w)) s'
      | NoResponse \<Rightarrow> Q (Inr None) s'
      | Response a \<Rightarrow> Q (Inr (Some a)) s')"
  by (simp add: http_def wp Let_def split: net_result.splits)

lemma http_apply:
  "http E q s =
     ((case net E (trace s) q of
         NetExn w \<Rightarrow> Inl (StdError w) | NoResponse \<Rightarrow> Inr None | Response a \<Rightarrow> Inr (Some a)),
      s\<lparr>trace := EvHttp q # trace s\<rparr>)"
  by (simp add: http_def bnd_def split: net_result.splits)

lemma steady_apply [simp]:
  "steady E s = (Inr (steady_ns E (trace s)), s\<lparr>trace := EvSteady # trace s\<rparr>)"
  by (simp add: steady_def)

lemma system_clock_apply [simp]:
  "system_clock E s = (Inr (system_s E (trace s)), s\<lparr>trace := EvSystem # trace s\<rparr>)"
  by (simp add: system_clock_def)

lemma random_byte_apply [simp]:
  "random_byte E s = (Inr (rand_byte E (trace s)), s\<lparr>trace := EvRand # trace s\<rparr>)"
  by (simp add: random_byte_def)

section \<open>Properties of traces\<close>

text \<open>
  \<open>emits A m\<close>: whatever happens, the action only extends the trace, and only with events of the
  class \<open>A\<close>. \<open>frames f m\<close>: it leaves the component \<open>f\<close> of the state alone.
\<close>

definition emits :: "(event \<Rightarrow> bool) \<Rightarrow> ('z world_scheme, 'a) act \<Rightarrow> bool" where
  "emits A m \<longleftrightarrow>
     (\<forall>s. \<exists>es. trace (snd (m s)) = es @ trace s \<and> list_all A es)"

definition frames :: "('s \<Rightarrow> 'b) \<Rightarrow> ('s, 'a) act \<Rightarrow> bool" where
  "frames f m \<longleftrightarrow> (\<forall>s. f (snd (m s)) = f s)"

named_theorems emits \<open>which events an action can log\<close>
named_theorems frames \<open>which parts of the state an action leaves alone\<close>

lemma emitsI:
  assumes "\<And>s. \<exists>es. trace (snd (m s)) = es @ trace s \<and> list_all A es"
  shows "emits A m"
  using assms by (simp add: emits_def)

lemma emitsE:
  assumes "emits A m" "m s = (r, t)"
  obtains es where "trace t = es @ trace s" "list_all A es"
  using assms unfolding emits_def by (metis snd_conv)

lemma emits_ret [emits]: "emits A (ret x)"
  and emits_raise [emits]: "emits A (raise e)"
  and emits_of_sum [emits]: "emits A (of_sum r)"
  and emits_gets [emits]: "emits A (gets f)"
  by (simp_all add: emits_def)

lemma emits_modify [emits]: "(\<And>s. trace (f s) = trace s) \<Longrightarrow> emits A (modify f)"
  by (simp add: emits_def)

lemma emits_ask [emits]: "A ev \<Longrightarrow> emits A (ask f ev)"
  by (simp add: emits_def)

lemma emits_bnd [emits]:
  assumes m: "emits A m" and f: "\<And>x. emits A (f x)"
  shows "emits A (bnd m f)"
proof (rule emitsI)
  fix s
  obtain r t where mt: "m s = (r, t)" by (cases "m s")
  then obtain es where es: "trace t = es @ trace s" "list_all A es"
    using m by (blast elim: emitsE)
  show "\<exists>es. trace (snd (bnd m f s)) = es @ trace s \<and> list_all A es"
  proof (cases r)
    case (Inl e)
    with mt es show ?thesis by (auto simp: bnd_def)
  next
    case (Inr x)
    obtain r' u where fu: "f x t = (r', u)" by (cases "f x t")
    then obtain fs where "trace u = fs @ trace t" "list_all A fs"
      using f by (blast elim: emitsE)
    with mt es Inr fu show ?thesis
      by (intro exI[of _ "fs @ es"]) (simp add: bnd_def)
  qed
qed

text \<open>What is known of every value an action returns; the rest of a sequence may rely on it.\<close>

definition yields :: "('a \<Rightarrow> bool) \<Rightarrow> ('s, 'a) act \<Rightarrow> bool" where
  "yields P m \<longleftrightarrow> (\<forall>s x t. m s = (Inr x, t) \<longrightarrow> P x)"

lemma emits_bnd_yields:
  assumes m: "emits A m" and y: "yields P m" and f: "\<And>x. P x \<Longrightarrow> emits A (f x)"
  shows "emits A (bnd m f)"
proof -
  have "bnd m f = bnd m (\<lambda>x. if P x then f x else ret (undefined x))"
    using y by (auto simp: bnd_def yields_def fun_eq_iff split: prod.splits sum.splits)
  moreover have "emits A (bnd m (\<lambda>x. if P x then f x else ret (undefined x)))"
    by (intro emits m) (auto intro: f emits_ret)
  ultimately show ?thesis by simp
qed

lemma emits_try_catch [emits]:
  assumes m: "emits A m" and h: "\<And>e. emits A (h e)"
  shows "emits A (try_catch m p h)"
proof (rule emitsI)
  fix s
  obtain r t where mt: "m s = (r, t)" by (cases "m s")
  then obtain es where es: "trace t = es @ trace s" "list_all A es"
    using m by (blast elim: emitsE)
  show "\<exists>es. trace (snd (try_catch m p h s)) = es @ trace s \<and> list_all A es"
  proof (cases "\<exists>e. r = Inl e \<and> p e")
    case False
    with mt es show ?thesis by (auto simp: try_catch_def split: sum.splits)
  next
    case True
    then obtain e where e: "r = Inl e" "p e" by blast
    obtain r' u where hu: "h e t = (r', u)" by (cases "h e t")
    then obtain fs where "trace u = fs @ trace t" "list_all A fs"
      using h by (blast elim: emitsE)
    with mt es e hu show ?thesis
      by (intro exI[of _ "fs @ es"]) (simp add: try_catch_def)
  qed
qed

lemma emits_mapA [emits]: "(\<And>x. emits A (f x)) \<Longrightarrow> emits A (mapA f xs)"
  by (induction xs) (auto intro!: emits)

lemma emits_mono: "emits A m \<Longrightarrow> (\<And>ev. A ev \<Longrightarrow> B ev) \<Longrightarrow> emits B m"
  by (auto simp: emits_def) (metis list.pred_mono_strong)

lemma emits_http [emits]: "A (EvHttp q) \<Longrightarrow> emits A (http E q)"
  by (auto simp: http_def intro!: emits split: net_result.splits)

lemma emits_steady [emits]: "A EvSteady \<Longrightarrow> emits A (steady E)"
  by (simp add: steady_def emits)

lemma emits_system_clock [emits]: "A EvSystem \<Longrightarrow> emits A (system_clock E)"
  by (simp add: system_clock_def emits)

lemma emits_random_byte [emits]: "A EvRand \<Longrightarrow> emits A (random_byte E)"
  by (simp add: random_byte_def emits)

lemma emits_if [emits]: "(b \<Longrightarrow> emits A m) \<Longrightarrow> (\<not> b \<Longrightarrow> emits A n) \<Longrightarrow> emits A (if b then m else n)"
  by simp

lemma framesI: "(\<And>s. f (snd (m s)) = f s) \<Longrightarrow> frames f m"
  by (simp add: frames_def)

lemma framesD: "frames f m \<Longrightarrow> m s = (r, t) \<Longrightarrow> f t = f s"
  by (metis frames_def snd_conv)

lemma frames_ret [frames]: "frames f (ret x)"
  and frames_raise [frames]: "frames f (raise e)"
  and frames_of_sum [frames]: "frames f (of_sum r)"
  and frames_gets [frames]: "frames f (gets g)"
  by (simp_all add: frames_def)

lemma frames_modify [frames]: "(\<And>s. f (g s) = f s) \<Longrightarrow> frames f (modify g)"
  by (simp add: frames_def)

lemma frames_ask [frames]:
  "(\<And>s h. f (s\<lparr>trace := h\<rparr>) = f s) \<Longrightarrow> frames f (ask g ev)"
  by (simp add: frames_def)

lemma frames_http [frames]:
  "(\<And>s h. f (s\<lparr>trace := h\<rparr>) = f s) \<Longrightarrow> frames f (http E q)"
  by (simp add: frames_def http_apply)

lemma frames_bnd [frames]: "frames f m \<Longrightarrow> (\<And>x. frames f (g x)) \<Longrightarrow> frames f (bnd m g)"
  by (auto simp: frames_def bnd_def split: prod.splits sum.splits) (metis snd_conv)+

lemma frames_try_catch [frames]:
  "frames f m \<Longrightarrow> (\<And>e. frames f (h e)) \<Longrightarrow> frames f (try_catch m p h)"
  by (auto simp: frames_def try_catch_def split: prod.splits sum.splits) (metis snd_conv)+

lemma frames_if [frames]: "(b \<Longrightarrow> frames f m) \<Longrightarrow> (\<not> b \<Longrightarrow> frames f n) \<Longrightarrow> frames f (if b then m else n)"
  by simp

lemma emits_Let [emits]: "(\<And>x. emits A (f x)) \<Longrightarrow> emits A (let x = a in f x)"
  by simp

lemma emits_case_option [emits]:
  "(r = None \<Longrightarrow> emits A n) \<Longrightarrow> (\<And>x. r = Some x \<Longrightarrow> emits A (f x)) \<Longrightarrow>
   emits A (case r of None \<Rightarrow> n | Some x \<Rightarrow> f x)"
  by (cases r) auto

lemma emits_case_sum [emits]:
  "(\<And>x. r = Inl x \<Longrightarrow> emits A (f x)) \<Longrightarrow> (\<And>x. r = Inr x \<Longrightarrow> emits A (g x)) \<Longrightarrow>
   emits A (case r of Inl x \<Rightarrow> f x | Inr x \<Rightarrow> g x)"
  by (cases r) auto

lemma emits_case_prod [emits]:
  "(\<And>x y. r = (x, y) \<Longrightarrow> emits A (f x y)) \<Longrightarrow> emits A (case r of (x, y) \<Rightarrow> f x y)"
  by (cases r) auto

section \<open>Exceptions of the services\<close>

lemma json_exn_classes [simp]: "any_exn (json_exn E s f)" "is_json_exn (json_exn E s f)"
  by (simp_all add: json_exn_def)

lemma dump_ok: "texts_utf8 j \<Longrightarrow> \<exists>t. dump E j = Inr t"
  using dump_succeeds_iff(1)[of "floats E" j] by (auto simp: dump_def json_dump_def)

lemma catchable_ask [catchable]: "catchable (ask f ev)"
  by (simp add: catchable_def)

lemma catchable_http [catchable]: "catchable (http E q)"
  by (auto simp: catchable_def http_apply split: net_result.splits)

lemma dump_catchable: "dump E j = Inl e \<Longrightarrow> any_exn e"
  by (cases "json_dump E j") (auto simp: dump_def)

lemma parse_catchable: "parse_json E t = Inl e \<Longrightarrow> any_exn e"
  by (cases "json_parse E t") (auto simp: parse_json_def)

lemma catchable_dump [catchable]: "catchable (of_sum (dump E j))"
  by (rule catchable_of_sum) (rule dump_catchable)

lemma catchable_parse [catchable]: "catchable (of_sum (parse_json E t))"
  by (rule catchable_of_sum) (rule parse_catchable)

section \<open>A silent world\<close>

text \<open>An environment in which nothing answers and nothing parses, the base of concrete examples.\<close>

definition no_floats :: float_io where
  "no_floats = \<lparr>double_text = (\<lambda>m e. []), str_to_double = (\<lambda>x. None)\<rparr>"

definition silent_env :: env where
  "silent_env =
     \<lparr>net = (\<lambda>h q. NoResponse), redis_connect = (\<lambda>h u. None),
      redis_request = (\<lambda>h c. (-1, None)), redis_scan = (\<lambda>h p. None),
      s3_call = (\<lambda>h c. S3Err []), rand_byte = (\<lambda>h. 0), steady_ns = (\<lambda>h. 0), system_s = (\<lambda>h. 0),
      spawn = (\<lambda>h p a i. StartFail), floats = no_floats, failure_text = (\<lambda>s f. [])\<rparr>"

text \<open>The printed form of a value, as an example of a text that parses.\<close>

definition text_of :: "json \<Rightarrow> string" where
  "text_of j = (case dump_json no_floats j of Inr t \<Rightarrow> t | Inl e \<Rightarrow> [])"

lemma json_parse_text_of:
  assumes "floats E = no_floats" "printable no_floats j" "reread j = j"
  shows "json_parse E (text_of j) = Inr j"
  using printed_reread[OF assms(2)] assms by (auto simp: json_parse_def text_of_def)

lemma silent_simps [simp]:
  "floats silent_env = no_floats" "steady_ns silent_env h = 0" "system_s silent_env h = 0" "net silent_env h q = NoResponse"
  by (simp_all add: silent_env_def)

end
