(* ===== verification/Crypt.thy ===== *)
theory Crypt
  imports World
begin

text \<open>
  \<^verbatim>\<open>backend/src/crypto/cryptbaby.cpp\<close>: the identifiers of posts, random hexadecimal names and
  the Base64 decoder of uploads. The reference for the decoder is the bit stream: six bits per
  alphabet character, cut into bytes. The decoder keeps its bits in a 32-bit accumulator that
  overflows on any input longer than a few characters; the theorems show that no byte is lost.
\<close>

unbundle bit_operations_syntax

section \<open>Identifiers of posts\<close>

definition ALPHABET :: string where
  "ALPHABET = ''0123456789ABCDEFGHIJKLMNOPQRSTUVWXYZabcdefghijklmnopqrstuvwxyz''"

abbreviation ID_LENGTH :: nat where
  "ID_LENGTH \<equiv> 27"

text \<open>
  \<^verbatim>\<open>while (id.size() < LENGTH)\<close>: one random byte per round, rejected from 248 on. The loop ends only
  if the source eventually delivers enough acceptable bytes, so it carries fuel: one unit per byte.
\<close>

fun sec_id_loop :: "env \<Rightarrow> nat \<Rightarrow> string \<Rightarrow> ('z world_scheme, string) act" where
  "sec_id_loop E 0 ident =
     (if length ident < ID_LENGTH then raise OutOfFuel else ret ident)"
| "sec_id_loop E (Suc fuel) ident =
     (if length ident < ID_LENGTH then
        bnd (random_byte E) (\<lambda>b.
          if 248 \<le> b then sec_id_loop E fuel ident
          else sec_id_loop E fuel (ident @ [ALPHABET ! (unat b mod 62)]))
      else ret ident)"

definition generateSecId :: "env \<Rightarrow> nat \<Rightarrow> ('z world_scheme, string) act" where
  "generateSecId E fuel = sec_id_loop E fuel []"

section \<open>Hexadecimal names\<close>

definition hex_digits :: string where
  "hex_digits = ''0123456789abcdef''"

fun GenerateRandomHex :: "env \<Rightarrow> nat \<Rightarrow> ('z world_scheme, string) act" where
  "GenerateRandomHex E 0 = ret []"
| "GenerateRandomHex E (Suc len) =
     bnd (random_byte E) (\<lambda>b.
     bnd (GenerateRandomHex E len) (\<lambda>r.
       ret (hex_digits ! unat (drop_bit 4 b) # hex_digits ! unat (b AND 15) # r)))"

section \<open>Base64 decoding\<close>

definition b64_lookup :: "nat list" where
  "b64_lookup =
     [64, 64, 64, 64, 64, 64, 64, 64, 64, 64, 64, 64, 64, 64, 64, 64, 64, 64,
      64, 64, 64, 64, 64, 64, 64, 64, 64, 64, 64, 64, 64, 64, 64, 64, 64, 64,
      64, 64, 64, 64, 64, 64, 64, 62, 64, 64, 64, 63, 52, 53, 54, 55, 56, 57,
      58, 59, 60, 61, 64, 64, 64, 64, 64, 64, 64, 0,  1,  2,  3,  4,  5,  6,
      7,  8,  9,  10, 11, 12, 13, 14, 15, 16, 17, 18, 19, 20, 21, 22, 23, 24,
      25, 64, 64, 64, 64, 64, 64, 26, 27, 28, 29, 30, 31, 32, 33, 34, 35, 36,
      37, 38, 39, 40, 41, 42, 43, 44, 45, 46, 47, 48, 49, 50, 51, 64, 64, 64,
      64, 64, 64, 64, 64, 64, 64, 64, 64, 64, 64, 64, 64, 64, 64, 64, 64, 64,
      64, 64, 64, 64, 64, 64, 64, 64, 64, 64, 64, 64, 64, 64, 64, 64, 64, 64,
      64, 64, 64, 64, 64, 64, 64, 64, 64, 64, 64, 64, 64, 64, 64, 64, 64, 64,
      64, 64, 64, 64, 64, 64, 64, 64, 64, 64, 64, 64, 64, 64, 64, 64, 64, 64,
      64, 64, 64, 64, 64, 64, 64, 64, 64, 64, 64, 64, 64, 64, 64, 64, 64, 64,
      64, 64, 64, 64, 64, 64, 64, 64, 64, 64, 64, 64, 64, 64, 64, 64, 64, 64,
      64, 64, 64, 64, 64, 64, 64, 64, 64, 64, 64, 64, 64, 64, 64, 64, 64, 64,
      64, 64, 64, 64]"

text \<open>One round of the loop over the input; the state is \<^verbatim>\<open>val\<close>, \<^verbatim>\<open>bits\<close> and \<^verbatim>\<open>output\<close>.\<close>

definition b64_step :: "u32 \<times> int \<times> string \<Rightarrow> char \<Rightarrow> u32 \<times> int \<times> string" where
  "b64_step st c =
     (case st of (val, bits, output) \<Rightarrow>
        if c = CHR ''='' \<or> c = CHR 0x0A \<or> c = CHR 0x0D then st
        else let idx = ord8 c in
          if 256 \<le> idx \<or> b64_lookup ! idx = 64 then st
          else let val' = push_bit 6 val OR of_nat (b64_lookup ! idx);
                   bits' = bits + 6
               in if 0 \<le> bits'
                  then (val', bits' - 8,
                        output @ [char_of (unat (drop_bit (nat bits') val' AND 255))])
                  else (val', bits', output))"

definition Base64Decode :: "string \<Rightarrow> string" where
  "Base64Decode input = (case foldl b64_step (0, - 8, []) input of (val, bits, output) \<Rightarrow> output)"

section \<open>The bit stream of Base64\<close>

text \<open>Bits of a number, most significant first, and back.\<close>

fun nat_bits :: "nat \<Rightarrow> nat \<Rightarrow> bool list" where
  "nat_bits 0 n = []"
| "nat_bits (Suc k) n = nat_bits k (n div 2) @ [odd n]"

definition bits_nat :: "bool list \<Rightarrow> nat" where
  "bits_nat bs = foldl (\<lambda>a b. 2 * a + of_bool b) 0 bs"

text \<open>Whole bytes of a bit stream; a remainder of fewer than eight bits is dropped.\<close>

fun bytes_of_bits :: "bool list \<Rightarrow> string" where
  "bytes_of_bits bs =
     (if length bs < 8 then [] else char_of (bits_nat (take 8 bs)) # bytes_of_bits (drop 8 bs))"

declare bytes_of_bits.simps [simp del]

definition b64_valid :: "char \<Rightarrow> bool" where
  "b64_valid c \<longleftrightarrow> c \<noteq> CHR ''='' \<and> c \<noteq> CHR 0x0A \<and> c \<noteq> CHR 0x0D \<and> b64_lookup ! ord8 c \<noteq> 64"

definition b64_bits :: "string \<Rightarrow> bool list" where
  "b64_bits s = concat (map (\<lambda>c. nat_bits 6 (b64_lookup ! ord8 c)) (filter b64_valid s))"

text \<open>The encoder of RFC 4648, the reference for the round trip.\<close>

definition b64_alphabet :: string where
  "b64_alphabet = ''ABCDEFGHIJKLMNOPQRSTUVWXYZabcdefghijklmnopqrstuvwxyz0123456789+/''"

fun b64_encode :: "string \<Rightarrow> string" where
  "b64_encode (a # b # c # r) =
     (let n = ord8 a * 65536 + ord8 b * 256 + ord8 c in
      b64_alphabet ! (n div 262144) # b64_alphabet ! (n div 4096 mod 64)
      # b64_alphabet ! (n div 64 mod 64) # b64_alphabet ! (n mod 64) # b64_encode r)"
| "b64_encode [a, b] =
     (let n = ord8 a * 65536 + ord8 b * 256 in
      [b64_alphabet ! (n div 262144), b64_alphabet ! (n div 4096 mod 64),
       b64_alphabet ! (n div 64 mod 64), CHR ''=''])"
| "b64_encode [a] =
     (let n = ord8 a * 65536 in
      [b64_alphabet ! (n div 262144), b64_alphabet ! (n div 4096 mod 64), CHR ''='', CHR ''=''])"
| "b64_encode [] = []"

lemma length_nat_bits [simp]: "length (nat_bits k n) = k"
  by (induction k arbitrary: n) auto

lemma bits_nat_snoc: "bits_nat (bs @ [b]) = 2 * bits_nat bs + of_bool b"
  by (simp add: bits_nat_def)

lemma bits_nat_Nil [simp]: "bits_nat [] = 0"
  by (simp add: bits_nat_def)

lemma bits_nat_nat_bits [simp]: "bits_nat (nat_bits k n) = n mod 2 ^ k"
proof (induction k arbitrary: n)
  case (Suc k)
  have "n mod 2 ^ Suc k = 2 * (n div 2 mod 2 ^ k) + n mod 2"
    by (simp add: mod_mult2_eq)
  then show ?case by (simp add: Suc bits_nat_snoc odd_iff_mod_2_eq_one of_bool_def)
qed simp

lemma bits_nat_append: "bits_nat (xs @ ys) = bits_nat xs * 2 ^ length ys + bits_nat ys"
proof (induction ys rule: rev_induct)
  case (snoc y ys)
  then show ?case
    by (simp add: bits_nat_snoc algebra_simps flip: append_assoc)
qed simp

lemma bits_nat_less: "bits_nat bs < 2 ^ length bs"
  by (induction bs rule: rev_induct) (auto simp: bits_nat_snoc of_bool_def)

lemma bits_nat_take_drop:
  assumes "length bs = m + k"
  shows "bits_nat (take m bs) = bits_nat bs div 2 ^ k" "bits_nat (drop m bs) = bits_nat bs mod 2 ^ k"
proof -
  have "bits_nat bs = bits_nat (take m bs) * 2 ^ k + bits_nat (drop m bs)"
    using bits_nat_append[of "take m bs" "drop m bs"] assms by simp
  moreover have "bits_nat (drop m bs) < 2 ^ k"
    using bits_nat_less[of "drop m bs"] assms by simp
  ultimately show "bits_nat (take m bs) = bits_nat bs div 2 ^ k"
    "bits_nat (drop m bs) = bits_nat bs mod 2 ^ k" by simp_all
qed

lemma bits_nat_inject: "length xs = length ys \<Longrightarrow> bits_nat xs = bits_nat ys \<Longrightarrow> xs = ys"
proof (induction xs arbitrary: ys rule: rev_induct)
  case (snoc x xs)
  then obtain y ys' where ys: "ys = ys' @ [y]" by (cases ys rule: rev_cases) auto
  with snoc.prems have "2 * bits_nat xs + of_bool x = 2 * bits_nat ys' + (of_bool y :: nat)"
    by (simp add: bits_nat_snoc)
  then have "bits_nat xs = bits_nat ys' \<and> x = y"
    by (cases x; cases y) (auto, presburger+)
  with snoc ys show ?case by simp
qed simp

text \<open>Appending six bits to the accumulator, as a number.\<close>

text \<open>
  The simulation: between two rounds the accumulator holds, in its low \<open>bits + 8\<close> bits, the part
  of the bit stream that has not been emitted yet. Its upper bits are garbage.
\<close>

definition b64_rel :: "bool list \<Rightarrow> u32 \<Rightarrow> int \<Rightarrow> bool" where
  "b64_rel p v bits \<longleftrightarrow> length p < 8 \<and> bits = int (length p) - 8 \<and> unat v mod 2 ^ length p = bits_nat p"

lemma b64_lookup_length: "length b64_lookup = 256"
  by (simp add: b64_lookup_def)

lemma b64_lookup_le: "\<forall>n \<in> set b64_lookup. n \<le> 64"
  by (simp add: b64_lookup_def)

lemma b64_lookup_less: "b64_lookup ! ord8 c \<noteq> 64 \<Longrightarrow> b64_lookup ! ord8 c < 64"
  using b64_lookup_le b64_lookup_length ord8_less[of c] nth_mem[of "ord8 c" b64_lookup]
  by fastforce

lemma b64_step_skip: "\<not> b64_valid c \<Longrightarrow> b64_step st c = st"
  by (auto simp: b64_step_def b64_valid_def split: prod.splits)

lemma b64_step_valid:
  assumes "b64_valid c"
  shows "b64_step (v, bits, out) c =
    (let v' = push_bit 6 v OR of_nat (b64_lookup ! ord8 c) in
     if 0 \<le> bits + 6
     then (v', bits - 2, out @ [char_of (unat (drop_bit (nat (bits + 6)) v' AND 255))])
     else (v', bits + 6, out))"
  using assms ord8_less[of c] by (simp add: b64_step_def b64_valid_def Let_def linorder_not_le)

lemma unat_drop_and_255: "unat (drop_bit k (v :: u32) AND 255) = unat v div 2 ^ k mod 256"
proof -
  have "(255 :: u32) = mask 8" by (simp add: mask_eq_exp_minus_1)
  then have "drop_bit k v AND 255 = take_bit 8 (drop_bit k v)"
    by (simp only: take_bit_eq_mask)
  moreover have "unat (take_bit 8 (drop_bit k v)) = take_bit 8 (drop_bit k (unat v))"
    by (simp only: unsigned_take_bit_eq unat_drop_bit_eq)
  ultimately show ?thesis
    by (simp only: drop_bit_eq_div take_bit_eq_mod) simp
qed

lemma b64_step_rel:
  assumes rel: "b64_rel p v bits" and c: "b64_valid c"
  defines "q \<equiv> p @ nat_bits 6 (b64_lookup ! ord8 c)"
  shows "\<exists>v' bits'. b64_step (v, bits, out) c = (v', bits', out @ bytes_of_bits q) \<and>
      b64_rel (drop (8 * (length q div 8)) q) v' bits'"
proof -
  let ?x = "b64_lookup ! ord8 c" and ?l = "length p"
  let ?v = "push_bit 6 v OR of_nat ?x"
  have x: "?x < 64" using c b64_lookup_less by (simp add: b64_valid_def)
  have l: "?l < 8" and bits: "bits = int ?l - 8" and pv: "unat v mod 2 ^ ?l = bits_nat p"
    using rel by (auto simp: b64_rel_def)
  have lq: "length q = ?l + 6" by (simp add: q_def)
  have "(2::nat) ^ (?l + 6) dvd 2 ^ 32" using l by (intro le_imp_power_dvd) simp
  then have "unat ?v mod 2 ^ (?l + 6) = (unat v * 64 + ?x) mod 2 ^ (?l + 6)"
    using unat_push6_or[OF x, of v] by (simp add: mod_mod_cancel)
  also have "\<dots> = (unat v mod 2 ^ ?l) * 64 + ?x"
  proof -
    have "(unat v * 64 + ?x) mod (64 * 2 ^ ?l) = 64 * ((unat v * 64 + ?x) div 64 mod 2 ^ ?l) + (unat v * 64 + ?x) mod 64"
      by (rule mod_mult2_eq)
    then show ?thesis using x by (simp add: power_add mult.commute)
  qed
  also have "\<dots> = bits_nat q"
    using x by (simp add: pv q_def bits_nat_append)
  finally have qv: "unat ?v mod 2 ^ length q = bits_nat q" by (simp add: lq)
  show ?thesis
  proof (cases "0 \<le> bits + 6")
    case False
    then have "length q < 8" using bits lq by linarith
    with False qv c show ?thesis
      by (auto simp: b64_step_valid Let_def b64_rel_def bytes_of_bits.simps bits lq)
  next
    case True
    then have l2: "2 \<le> ?l" using bits by linarith
    define k where "k = ?l - 2"
    have lq8: "length q = 8 + k" "k < 6" using lq l2 l by (auto simp: k_def)
    then have k: "nat (bits + 6) = k" using bits l2 by (simp add: k_def)
    have "unat ?v div 2 ^ k mod 256 = bits_nat (take 8 q)"
    proof -
      have "bits_nat (take 8 q) = unat ?v mod (2 ^ k * 2 ^ 8) div 2 ^ k"
        using bits_nat_take_drop(1)[OF lq8(1)] qv lq8(1) by (simp add: power_add mult.commute)
      also have "\<dots> = unat ?v div 2 ^ k mod 2 ^ 8"
        by (simp add: mod_mult2_eq)
      finally show ?thesis by simp
    qed
    moreover have "bytes_of_bits q = [char_of (bits_nat (take 8 q))]"
      using lq8 by (subst bytes_of_bits.simps) (simp add: bytes_of_bits.simps)
    moreover have "unat ?v mod 2 ^ k = bits_nat (drop 8 q)"
    proof -
      have "unat ?v mod 2 ^ k = (unat ?v mod 2 ^ length q) mod 2 ^ k"
        using lq8(1) by (simp add: mod_mod_cancel le_imp_power_dvd)
      then show ?thesis using qv bits_nat_take_drop(2)[OF lq8(1)] by simp
    qed
    moreover have "length q div 8 = 1" using lq8 by simp
    ultimately show ?thesis
      using True c lq8 k bits l2
      by (auto simp: b64_step_valid Let_def unat_drop_and_255 b64_rel_def k_def)
  qed
qed

text \<open>The loop over the whole input: it emits exactly the whole bytes of the bit stream.\<close>

lemma bytes_of_bits_append:
  "bytes_of_bits (p @ r) = bytes_of_bits p @ bytes_of_bits (drop (8 * (length p div 8)) p @ r)"
proof (induction p rule: bytes_of_bits.induct)
  case (1 p)
  show ?case
  proof (cases "length p < 8")
    case True
    then show ?thesis by (simp add: bytes_of_bits.simps[of p])
  next
    case False
    then have 8: "8 \<le> length p" by simp
    have len: "length p div 8 = Suc (length (drop 8 p) div 8)"
      using 8 by (simp add: div_if)
    have "bytes_of_bits (p @ r) = char_of (bits_nat (take 8 p)) # bytes_of_bits (drop 8 p @ r)"
      using 8 by (simp add: bytes_of_bits.simps[of "p @ r"])
    with 1[OF False] len False show ?thesis
      by (simp add: bytes_of_bits.simps[of p] add.commute)
  qed
qed

lemma foldl_b64_step:
  "b64_rel p v bits \<Longrightarrow>
   \<exists>v' bits'. foldl b64_step (v, bits, out) s = (v', bits', out @ bytes_of_bits (p @ b64_bits s))"
proof (induction s arbitrary: p v bits out)
  case Nil
  then show ?case by (simp add: b64_bits_def b64_rel_def bytes_of_bits.simps)
next
  case (Cons c s)
  show ?case
  proof (cases "b64_valid c")
    case False
    with Cons show ?thesis by (simp add: b64_step_skip b64_bits_def)
  next
    case True
    let ?q = "p @ nat_bits 6 (b64_lookup ! ord8 c)"
    let ?r = "drop (8 * (length ?q div 8)) ?q"
    obtain v' bits' where st: "b64_step (v, bits, out) c = (v', bits', out @ bytes_of_bits ?q)"
      and "b64_rel ?r v' bits'"
      using b64_step_rel[OF Cons.prems True, of out] by blast
    from Cons.IH[OF this(2), of "out @ bytes_of_bits ?q"] st True show ?thesis
      using bytes_of_bits_append[of ?q "b64_bits s"] by (simp add: b64_bits_def)
  qed
qed

lemma Base64Decode_bits: "Base64Decode s = bytes_of_bits (b64_bits s)"
proof -
  have "b64_rel [] 0 (- 8)" by (simp add: b64_rel_def)
  from foldl_b64_step[OF this, of "[]" s] show ?thesis
    by (auto simp: Base64Decode_def)
qed

section \<open>Round trip with the standard encoder\<close>

lemma b64_alphabet_inverse:
  "\<forall>n \<in> set [0..<64]. b64_valid (b64_alphabet ! n) \<and> b64_lookup ! ord8 (b64_alphabet ! n) = n"
  by code_simp

lemma b64_alphabet_valid [simp]:
  "n < 64 \<Longrightarrow> b64_valid (b64_alphabet ! n)" "n < 64 \<Longrightarrow> b64_lookup ! ord8 (b64_alphabet ! n) = n"
  using b64_alphabet_inverse by simp_all

lemma b64_pad_invalid [simp]: "\<not> b64_valid (CHR ''='')"
  by (simp add: b64_valid_def)

lemma b64_bits_Cons: "b64_bits (c # s) = (if b64_valid c then nat_bits 6 (b64_lookup ! ord8 c) else []) @ b64_bits s"
  by (simp add: b64_bits_def)

lemma b64_bits_Nil: "b64_bits [] = []"
  by (simp add: b64_bits_def)

lemma four_sextets:
  assumes "n < 2 ^ 24"
  shows "nat_bits 6 (n div 262144) @ nat_bits 6 (n div 4096 mod 64) @
    nat_bits 6 (n div 64 mod 64) @ nat_bits 6 (n mod 64) = nat_bits 24 n"
proof (rule bits_nat_inject)
  have "n div 4096 = n div 64 div 64" "n div 262144 = n div 4096 div 64"
    by (simp_all add: div_mult2_eq [symmetric])
  then have "n div 262144 * 262144 + (n div 4096 mod 64 * 4096 + (n div 64 mod 64 * 64 + n mod 64)) = n"
    using div_mult_mod_eq[of n 64] div_mult_mod_eq[of "n div 64" 64] div_mult_mod_eq[of "n div 4096" 64]
    by linarith
  with assms show "bits_nat (nat_bits 6 (n div 262144) @ nat_bits 6 (n div 4096 mod 64) @
      nat_bits 6 (n div 64 mod 64) @ nat_bits 6 (n mod 64)) = bits_nat (nat_bits 24 n)"
    by (simp add: bits_nat_append)
qed simp

lemma bytes_of_bits_byte: "bytes_of_bits (nat_bits 8 (ord8 a) @ r) = a # bytes_of_bits r"
  by (subst bytes_of_bits.simps) simp

lemma three_bytes_less: "ord8 a * 65536 + ord8 b * 256 + ord8 c < 2 ^ 24"
proof -
  have "ord8 a < 256" "ord8 b < 256" "ord8 c < 256" by (fact ord8_less)+
  then have "ord8 a * 65536 + ord8 b * 256 + ord8 c < 16777216" by linarith
  then show ?thesis by simp
qed

lemma three_bytes:
  "nat_bits 24 (ord8 a * 65536 + ord8 b * 256 + ord8 c) =
   nat_bits 8 (ord8 a) @ nat_bits 8 (ord8 b) @ nat_bits 8 (ord8 c)"
  using three_bytes_less[of a b c]
  by (intro bits_nat_inject) (simp_all add: bits_nat_append)

lemma Base64Decode_encode: "Base64Decode (b64_encode s) = s"
  unfolding Base64Decode_bits
proof (induction s rule: b64_encode.induct)
  case (1 a b c r)
  define n where "n = ord8 a * 65536 + ord8 b * 256 + ord8 c"
  have n: "n < 2 ^ 24" unfolding n_def by (rule three_bytes_less)
  have "b64_bits (b64_encode (a # b # c # r)) = nat_bits 24 n @ b64_bits (b64_encode r)"
    using n by (simp add: b64_bits_Cons four_sextets[OF n, symmetric] flip: n_def)
  then show ?case
    using 1 by (simp add: n_def three_bytes bytes_of_bits_byte)
next
  case (2 a b)
  define n where "n = ord8 a * 65536 + ord8 b * 256"
  have n: "n < 2 ^ 24" using three_bytes_less[of a b "CHR 0x00"] by (simp add: n_def)
  have "nat_bits 24 n = nat_bits 8 (ord8 a) @ nat_bits 8 (ord8 b) @ nat_bits 8 0"
    using three_bytes[of a b "CHR 0x00"] by (simp add: n_def)
  moreover have "b64_bits (b64_encode [a, b]) = take 18 (nat_bits 24 n)"
    using n by (simp add: b64_bits_Cons b64_bits_Nil four_sextets[OF n, symmetric] flip: n_def)
  ultimately show ?case by (simp add: bytes_of_bits_byte bytes_of_bits.simps)
next
  case (3 a)
  define n where "n = ord8 a * 65536"
  have n: "n < 2 ^ 24" using three_bytes_less[of a "CHR 0x00" "CHR 0x00"] by (simp add: n_def)
  have "nat_bits 24 n = nat_bits 8 (ord8 a) @ nat_bits 8 0 @ nat_bits 8 0"
    using three_bytes[of a "CHR 0x00" "CHR 0x00"] by (simp add: n_def)
  moreover have "b64_bits (b64_encode [a]) = take 12 (nat_bits 24 n)"
    using n by (simp add: b64_bits_Cons b64_bits_Nil four_sextets[OF n, symmetric] flip: n_def)
  ultimately show ?case by (simp add: bytes_of_bits_byte bytes_of_bits.simps)
next
  case 4
  then show ?case by (simp add: b64_bits_def bytes_of_bits.simps)
qed

section \<open>Codecs\<close>

interpretation b64: text_codec b64_encode Base64Decode
  by unfold_locales (rule Base64Decode_encode)

text \<open>
  The characters \<open>GenerateRandomHex\<close> writes for a list of bytes, and the decoder that reads
  them back.
\<close>

definition hex_encode :: "u8 list \<Rightarrow> string" where
  "hex_encode bs = concat (map (\<lambda>b. [hex_digits ! unat (drop_bit 4 b), hex_digits ! unat (b AND 15)]) bs)"

fun hex_decode :: "string \<Rightarrow> u8 list" where
  "hex_decode (a # b # r) = of_nat (hex_val a * 16 + hex_val b) # hex_decode r"
| "hex_decode r = []"

lemma hex_digits_inverse:
  "\<forall>n \<in> set [0..<16]. hex_val (hex_digits ! n) = n \<and> isxdigit (hex_digits ! n)"
  by code_simp

lemma hex_digit_val [simp]: "n < 16 \<Longrightarrow> hex_val (hex_digits ! n) = n"
  using hex_digits_inverse by simp

lemma nibbles:
  fixes b :: u8
  shows "unat (drop_bit 4 b) = unat b div 16" "unat (b AND 15) = unat b mod 16"
proof -
  show "unat (drop_bit 4 b) = unat b div 16"
    by (simp only: unat_drop_bit_eq) (simp add: drop_bit_eq_div)
  have "(15 :: u8) = mask 4" by (simp add: mask_eq_exp_minus_1)
  then have "unat (b AND 15) = take_bit 4 (unat b)"
    by (simp only: take_bit_eq_mask [symmetric] unsigned_take_bit_eq)
  then show "unat (b AND 15) = unat b mod 16" by (simp add: take_bit_eq_mod)
qed

lemma unat_u8_less: "unat (b :: u8) < 256"
  using unsigned_less[of b] by simp

lemma nibble_less: "unat (drop_bit 4 (b :: u8)) < 16" "unat ((b :: u8) AND 15) < 16"
  using unat_u8_less[of b] by (simp_all add: nibbles less_mult_imp_div_less)

lemma hex_decode_encode: "hex_decode (hex_encode bs) = bs"
proof (induction bs)
  case (Cons b bs)
  have "of_nat (unat (drop_bit 4 b) * 16 + unat (b AND 15)) = b"
    by (simp only: nibbles div_mult_mod_eq) simp
  with Cons show ?case by (simp add: hex_encode_def nibble_less del: of_nat_add of_nat_mult)
qed (simp add: hex_encode_def)

interpretation hex: text_codec hex_encode hex_decode
  by unfold_locales (rule hex_decode_encode)

text \<open>The random bytes the source delivers next, and the state after reading them.\<close>

fun rand_bytes :: "env \<Rightarrow> history \<Rightarrow> nat \<Rightarrow> u8 list" where
  "rand_bytes E h 0 = []"
| "rand_bytes E h (Suc n) = rand_byte E h # rand_bytes E (EvRand # h) n"

lemma length_rand_bytes [simp]: "length (rand_bytes E h n) = n"
  by (induction n arbitrary: h) auto

lemma GenerateRandomHex_run:
  "GenerateRandomHex E len s =
     (Inr (hex_encode (rand_bytes E (trace s) len)), s\<lparr>trace := replicate len EvRand @ trace s\<rparr>)"
proof (induction len arbitrary: s)
  case (Suc len)
  have "replicate len EvRand @ EvRand # h = EvRand # replicate len EvRand @ h" for h
    by (simp add: replicate_app_Cons_same)
  then show ?case by (simp add: bnd_def Suc hex_encode_def)
qed (simp add: hex_encode_def)

lemma length_hex_encode [simp]: "length (hex_encode bs) = 2 * length bs"
  by (induction bs) (auto simp: hex_encode_def)

lemma hex_encode_xdigits: "\<forall>c \<in> set (hex_encode bs). isxdigit c"
  using hex_digits_inverse nibble_less by (auto simp: hex_encode_def)

section \<open>Identifiers: length, alphabet, no bias, termination\<close>

definition accepted :: "u8 list \<Rightarrow> string" where
  "accepted bs = map (\<lambda>b. ALPHABET ! (unat b mod 62)) (filter (\<lambda>b. b < 248) bs)"

lemma accepted_Cons:
  "accepted (b # bs) = (if 248 \<le> b then [] else [ALPHABET ! (unat b mod 62)]) @ accepted bs"
  by (simp add: accepted_def linorder_not_le)

lemma length_ALPHABET [simp]: "length ALPHABET = 62"
  by (simp add: ALPHABET_def)

lemma distinct_ALPHABET: "distinct ALPHABET"
  by (simp add: ALPHABET_def)

lemma set_accepted: "set (accepted bs) \<subseteq> set ALPHABET"
  by (auto simp: accepted_def intro!: nth_mem)

lemma sec_id_loop_run:
  assumes "length ident \<le> ID_LENGTH"
  shows "fst (sec_id_loop E fuel ident s) =
    (let a = ident @ accepted (rand_bytes E (trace s) fuel) in
     if ID_LENGTH \<le> length a then Inr (take ID_LENGTH a) else Inl OutOfFuel)"
  using assms
proof (induction fuel arbitrary: ident s)
  case 0
  then show ?case by (simp add: accepted_def)
next
  case (Suc fuel)
  show ?case
  proof (cases "length ident < ID_LENGTH")
    case False
    with Suc.prems show ?thesis by simp
  next
    case True
    let ?b = "rand_byte E (trace s)"
    show ?thesis
      using True Suc.IH[of ident "s\<lparr>trace := EvRand # trace s\<rparr>"]
        Suc.IH[of "ident @ [ALPHABET ! (unat ?b mod 62)]" "s\<lparr>trace := EvRand # trace s\<rparr>"]
      by (cases "248 \<le> ?b") (simp_all add: bnd_def accepted_Cons Let_def)
  qed
qed

lemma byte_residue_class:
  assumes "k < 62"
  shows "card {b :: u8. b < 248 \<and> unat b mod 62 = k} = 4"
proof -
  have "{b :: u8. b < 248 \<and> unat b mod 62 = k} = of_nat ` {k, k + 62, k + 124, k + 186}"
  proof (intro equalityI subsetI)
    fix b :: u8
    assume "b \<in> {b. b < 248 \<and> unat b mod 62 = k}"
    then have "unat b < 248" "unat b mod 62 = k" by (auto simp: word_less_nat_alt)
    moreover from this have "unat b div 62 \<in> {0, 1, 2, 3}" by auto
    ultimately have "unat b \<in> {k, k + 62, k + 124, k + 186}"
      using div_mult_mod_eq[of "unat b" 62] by auto
    then show "b \<in> of_nat ` {k, k + 62, k + 124, k + 186}" by (metis image_eqI of_nat_unat ucast_id)
  next
    fix b :: u8
    assume "b \<in> of_nat ` {k, k + 62, k + 124, k + 186}"
    then obtain n where n: "n \<in> {k, k + 62, k + 124, k + 186}" "b = of_nat n" by blast
    moreover from n assms have "n < 256" by auto
    ultimately have "unat b \<in> {k, k + 62, k + 124, k + 186}" by (simp add: unat_of_nat)
    moreover have "(k + 124) mod 62 = k" "(k + 186) mod 62 = k"
      using mod_mult_self1[of k 2 62] mod_mult_self1[of k 3 62] assms by simp_all
    ultimately show "b \<in> {b. b < 248 \<and> unat b mod 62 = k}"
      using assms by (auto simp: word_less_nat_alt)
  qed
  moreover have "inj_on (of_nat :: nat \<Rightarrow> u8) {k, k + 62, k + 124, k + 186}"
    using assms by (intro inj_onI) (auto simp: word_of_nat_eq_iff take_bit_eq_mod simp del: of_nat_add)
  ultimately show ?thesis by (simp add: card_image)
qed

lemma ALPHABET_nth_eq: "k < 62 \<Longrightarrow> j < 62 \<Longrightarrow> ALPHABET ! j = ALPHABET ! k \<longleftrightarrow> j = k"
  using distinct_ALPHABET nth_eq_iff_index_eq by fastforce

section \<open>Properties\<close>

text \<open>
  C29. The Base64 decoder of uploads inverts the standard encoder (RFC 4648) on every byte string,
  also when the text has been folded into lines, has lost its padding or holds characters outside
  the alphabet, and although its 32-bit accumulator overflows.
\<close>
theorem base64_roundtrip:
  assumes "filter b64_valid t = filter b64_valid (b64_encode s)"
  shows "Base64Decode t = s"
proof -
  have "Base64Decode t = Base64Decode (b64_encode s)"
    using assms by (simp add: Base64Decode_bits b64_bits_def)
  then show ?thesis by (simp add: b64.decode_encode)
qed

theorem base64_roundtrip_witness:
  "filter b64_valid [CHR ''Z'', CHR ''m'', CHR 0x0A, CHR ''9'', CHR ''v''] = filter b64_valid (b64_encode ''foo'')
   \<and> Base64Decode [CHR ''Z'', CHR ''m'', CHR 0x0A, CHR ''9'', CHR ''v''] = ''foo''"
proof -
  have "filter b64_valid [CHR ''Z'', CHR ''m'', CHR 0x0A, CHR ''9'', CHR ''v''] = filter b64_valid (b64_encode ''foo'')"
    by (simp add: b64_valid_def b64_lookup_def b64_alphabet_def)
  then show ?thesis using base64_roundtrip by blast
qed

text \<open>
  C32. Whenever the random source delivers 27 acceptable bytes within the fuel, the identifier of a
  post is generated, has 27 characters, all of the alphabet, and is determined by the first 27
  acceptable bytes.
\<close>
theorem generateSecId_returns:
  assumes "ID_LENGTH \<le> length (accepted (rand_bytes E (trace s) fuel))"
  shows "\<exists>ident t. generateSecId E fuel s = (Inr ident, t) \<and> length ident = ID_LENGTH \<and>
    set ident \<subseteq> set ALPHABET \<and> ident = take ID_LENGTH (accepted (rand_bytes E (trace s) fuel))"
proof -
  let ?a = "accepted (rand_bytes E (trace s) fuel)"
  have "fst (generateSecId E fuel s) = Inr (take ID_LENGTH ?a)"
    using assms sec_id_loop_run[of "[]" E fuel s] by (simp add: generateSecId_def)
  moreover have "set (take ID_LENGTH ?a) \<subseteq> set ALPHABET"
    using set_accepted set_take_subset by fast
  ultimately show ?thesis
    using assms by (metis length_take min.absorb2 prod.collapse)
qed

theorem generateSecId_returns_witness:
  "\<exists>ident t. generateSecId silent_env 30 \<lparr>trace = []\<rparr> = (Inr ident, t) \<and> length ident = ID_LENGTH \<and>
    set ident \<subseteq> set ALPHABET"
proof -
  have "rand_bytes silent_env h n = replicate n 0" for h n
    by (induction n arbitrary: h) (auto simp: silent_env_def)
  then have "ID_LENGTH \<le> length (accepted (rand_bytes silent_env (trace \<lparr>trace = []\<rparr>) 30))"
    by (simp add: accepted_def)
  from generateSecId_returns[OF this] show ?thesis by blast
qed

text \<open>
  No symbol of an identifier is favoured: for every character of the alphabet exactly four of
  the 256 byte values make the loop append it.
\<close>
theorem generateSecId_unbiased:
  assumes "c \<in> set ALPHABET" and "length ident = 26"
  shows "card {b. fst (sec_id_loop (E\<lparr>rand_byte := (\<lambda>h. b)\<rparr>) 1 ident s) = Inr (ident @ [c])} = 4"
proof -
  obtain k where k: "k < 62" "c = ALPHABET ! k"
    using assms(1) by (metis in_set_conv_nth length_ALPHABET)
  have "fst (sec_id_loop (E\<lparr>rand_byte := (\<lambda>h. b)\<rparr>) 1 ident s) = Inr (ident @ [c]) \<longleftrightarrow>
      b < 248 \<and> unat b mod 62 = k" for b
    using assms(2) k sec_id_loop_run[of ident "E\<lparr>rand_byte := (\<lambda>h. b)\<rparr>" "Suc 0" s]
    by (auto simp: accepted_Cons accepted_def ALPHABET_nth_eq linorder_not_le)
  then show ?thesis using byte_residue_class[OF k(1)] by simp
qed

theorem generateSecId_unbiased_witness:
  "card {b. fst (sec_id_loop (silent_env\<lparr>rand_byte := (\<lambda>h. b)\<rparr>) 1 (replicate 26 CHR ''0'') \<lparr>trace = []\<rparr>)
      = Inr (replicate 26 CHR ''0'' @ ''z'')} = 4"
  using generateSecId_unbiased[of "CHR ''z''" "replicate 26 CHR ''0''" silent_env "\<lparr>trace = []\<rparr>"]
  by (simp add: ALPHABET_def)

text \<open>
  Hexadecimal names: \<open>len\<close> random bytes give \<open>2 * len\<close> hexadecimal digits from which the
  bytes can be read back, so distinct byte sequences give distinct names.
\<close>
theorem GenerateRandomHex_correct:
  "\<exists>r t. GenerateRandomHex E len s = (Inr r, t) \<and> length r = 2 * len \<and>
     list_all isxdigit r \<and> hex_decode r = rand_bytes E (trace s) len"
  by (simp add: GenerateRandomHex_run hex_encode_xdigits hex.decode_encode list_all_iff)

end
