(* ===== verification/Sanitize.thy ===== *)
theory Sanitize
  imports Crypt "HOL-Library.Sublist"
begin

text \<open>
  \<^verbatim>\<open>backend/src/utils/sanitize.cpp\<close>: the filter for user-supplied HTML and URLs. The HTML parser, the
  serialiser and the tree surgery of libxml2 are parameters (record \<open>libxml\<close>); the filter over the
  parsed tree is the code's own.
\<close>

section \<open>Documents\<close>

datatype xnode =
    Element string "(string \<times> string) list" "xnode list"
  | Text string
  | Other string

datatype html_result = NoDoc | NoRoot | Doc xnode "xnode list"   \<comment> \<open>root, later siblings\<close>

text \<open>
  \<open>html_read\<close>: \<^verbatim>\<open>htmlReadMemory\<close> followed by \<^verbatim>\<open>xmlDocGetRootElement\<close>. \<open>add_prev acc n\<close>: the
  siblings in front of a node after \<^verbatim>\<open>xmlAddPrevSibling\<close> has put \<open>n\<close> in front of it, where \<open>acc\<close>
  are those there before (libxml2 may merge adjacent text nodes). \<open>node_dump\<close>: \<^verbatim>\<open>xmlNodeDump\<close>.
\<close>

record libxml =
  html_read :: "string \<Rightarrow> html_result"
  add_prev :: "xnode list \<Rightarrow> xnode \<Rightarrow> xnode list"
  node_dump :: "xnode \<Rightarrow> string"

section \<open>Tags, attributes, URLs\<close>

definition kAllowedTags :: "string list" where
  "kAllowedTags =
     [''html'', ''head'', ''body'', ''p'', ''br'', ''b'', ''i'',
      ''u'', ''strong'', ''em'', ''s'', ''del'', ''ins'', ''sub'',
      ''sup'', ''span'', ''a'', ''img'', ''h1'', ''h2'', ''h3'',
      ''h4'', ''h5'', ''h6'', ''ul'', ''ol'', ''li'', ''blockquote'',
      ''pre'', ''code'', ''div'', ''table'', ''thead'', ''tbody'', ''tr'',
      ''th'', ''td'']"

definition kAllowedAttributes :: "string list" where
  "kAllowedAttributes = [''href'', ''src'', ''alt'', ''title'', ''width'', ''height'', ''class'']"

definition StartsWithCaseInsensitive :: "string \<Rightarrow> string \<Rightarrow> bool" where
  "StartsWithCaseInsensitive str pre \<longleftrightarrow>
     length pre \<le> length str \<and> (\<forall>i < length pre. tolower (str ! i) = tolower (pre ! i))"

definition IsValidUrl :: "string \<Rightarrow> bool" where
  "IsValidUrl url =
     (let l = lower url in
      if starts_with l ''javascript:'' then False
      else if starts_with l ''vbscript:'' then False
      else if starts_with l ''data:'' then False
      else if starts_with l ''file:'' then False
      else True)"

section \<open>The tree filter\<close>

text \<open>
  The body of the attribute loop: drop the attribute, or keep it, with the value of a link cleared
  when the URL is refused. libxml2 keeps the attribute names of an element distinct, so reading and
  writing by name acts on the attribute at hand.
\<close>

definition sanitize_attr :: "string \<times> string \<Rightarrow> (string \<times> string) list" where
  "sanitize_attr a =
     (case a of (name, v) \<Rightarrow>
        let lower_attr = lower name;
            should_remove =
              (if StartsWithCaseInsensitive lower_attr ''on'' then True
               else if lower_attr = ''style'' then True
               else lower_attr \<notin> set kAllowedAttributes)
        in if should_remove then []
           else if lower_attr = ''href'' \<or> lower_attr = ''src''
                then if \<not> IsValidUrl v then [(name, '''')] else [(name, v)]
                else [(name, v)])"

text \<open>
  \<^verbatim>\<open>SanitizeNode\<close> walks a list of siblings; \<open>acc\<close> are those it has passed. An element whose tag is
  not allowed is replaced by its children, which are put \<^emph>\<open>in front\<close> of the cursor: the walk goes on
  with the sibling \<^verbatim>\<open>next\<close> read before, so it never visits them.
\<close>

fun SanitizeNode :: "libxml \<Rightarrow> xnode list \<Rightarrow> xnode list \<Rightarrow> xnode list" where
  "SanitizeNode L acc [] = acc"
| "SanitizeNode L acc (Element name attrs kids # ns) =
     (if lower name \<notin> set kAllowedTags
      then SanitizeNode L (foldl (add_prev L) acc kids) ns
      else SanitizeNode L
        (acc @ [Element name (concat (map sanitize_attr attrs)) (SanitizeNode L [] kids)]) ns)"
| "SanitizeNode L acc (Text t # ns) = SanitizeNode L (acc @ [Text t]) ns"
| "SanitizeNode L acc (Other t # ns) = SanitizeNode L (acc @ [Other t]) ns"

fun node_tag :: "xnode \<Rightarrow> string" where
  "node_tag (Element name attrs kids) = name"
| "node_tag n = []"

fun node_kids :: "xnode \<Rightarrow> xnode list" where
  "node_kids (Element name attrs kids) = kids"
| "node_kids n = []"

fun is_element :: "xnode \<Rightarrow> bool" where
  "is_element (Element name attrs kids) = True"
| "is_element n = False"

text \<open>The trimming at the end of \<^verbatim>\<open>SanitizeString\<close> and at the start of \<^verbatim>\<open>SanitizeUrl\<close>.\<close>

definition trim_result :: "string \<Rightarrow> string" where
  "trim_result result =
     (case find_first_not_of result ws_chars of
        None \<Rightarrow> []
      | Some start \<Rightarrow>
          (case find_last_not_of result ws_chars of
             None \<Rightarrow> drop start result
           | Some end' \<Rightarrow> take (end' - start + 1) (drop start result)))"

text \<open>
  \<^verbatim>\<open>SanitizeString\<close>. The pointer \<^verbatim>\<open>root\<close> is used again after the walk; had the walk freed it (its tag
  not allowed), that use is undefined behaviour.
\<close>

definition find_body :: "xnode \<Rightarrow> xnode" where
  "find_body root =
     (case find (\<lambda>c. is_element c \<and> lower (node_tag c) = ''body'') (node_kids root) of
        Some b \<Rightarrow> b | None \<Rightarrow> root)"

definition SanitizeString :: "libxml \<Rightarrow> string \<Rightarrow> exn + string" where
  "SanitizeString L input =
     (if input = [] then Inr []
      else case html_read L input of
        NoDoc \<Rightarrow> Inr []
      | NoRoot \<Rightarrow> Inr []
      | Doc root sibs \<Rightarrow>
          if lower (node_tag root) \<notin> set kAllowedTags then Inl Undefined
          else
            let root' = hd (SanitizeNode L [] (root # sibs));
                result = concat (map (\<lambda>c. c_str (node_dump L c)) (node_kids (find_body root')))
            in Inr (trim_result result))"

section \<open>URLs on their own\<close>

definition kBlockedSchemes :: "string list" where
  "kBlockedSchemes = [''javascript:'', ''vbscript:'', ''data:'', ''file:'', ''blob:'']"

definition SanitizeUrl :: "string \<Rightarrow> string" where
  "SanitizeUrl input =
     (case find_first_not_of input ws_chars of
        None \<Rightarrow> []
      | Some start \<Rightarrow>
          (let trimmed = (case find_last_not_of input ws_chars of
                            None \<Rightarrow> drop start input
                          | Some end' \<Rightarrow> take (end' - start + 1) (drop start input));
               l = lower trimmed
           in if \<exists>scheme \<in> set kBlockedSchemes. starts_with l scheme then [] else trimmed))"

section \<open>Unicode escapes\<close>

fun DecodeUnicodeEscapes :: "string \<Rightarrow> string" where
  "DecodeUnicodeEscapes [] = []"
| "DecodeUnicodeEscapes (c # s) =
     (if (c = CHR 0x5C \<or> c = CHR ''/'') \<and> 5 \<le> length s \<and> s ! 0 = CHR ''u'' \<and>
         isxdigit (s ! 1) \<and> isxdigit (s ! 2) \<and> isxdigit (s ! 3) \<and> isxdigit (s ! 4)
      then char_of (stoul_hex (take 4 (drop 1 s))) # DecodeUnicodeEscapes (drop 5 s)
      else if c = CHR ''u'' \<and> 4 \<le> length s \<and>
         isxdigit (s ! 0) \<and> isxdigit (s ! 1) \<and> isxdigit (s ! 2) \<and> isxdigit (s ! 3)
      then char_of (stoul_hex (take 4 s)) # DecodeUnicodeEscapes (drop 4 s)
      else c # DecodeUnicodeEscapes s)"

section \<open>What the filters guarantee\<close>

lemma trim_result_strip: "trim_result s = strip_both ws_chars s"
proof (cases "find_first_not_of s ws_chars")
  case None
  then show ?thesis
    using find_first_not_of_None[of s ws_chars] by (simp add: trim_result_def strip_both_empty)
next
  case (Some a)
  then have "find_last_not_of s ws_chars \<noteq> None"
    by (metis find_first_not_of_None find_last_not_of_None option.distinct(1))
  then obtain b where "find_last_not_of s ws_chars = Some b" by blast
  with Some show ?thesis using trim_indices(1)[OF Some] by (simp add: trim_result_def)
qed

definition scheme_blocked :: "string \<Rightarrow> bool" where
  "scheme_blocked u \<longleftrightarrow> (\<exists>scheme \<in> set kBlockedSchemes. starts_with (lower u) scheme)"

definition url_safe :: "string \<Rightarrow> bool" where
  "url_safe u \<longleftrightarrow> strip_both ws_chars u = u \<and> \<not> scheme_blocked u"

lemma SanitizeUrl_strip:
  "SanitizeUrl u = (let t = strip_both ws_chars u in if scheme_blocked t then [] else t)"
proof -
  have "SanitizeUrl u =
      (if find_first_not_of u ws_chars = None \<or> scheme_blocked (trim_result u) then [] else trim_result u)"
    by (simp add: SanitizeUrl_def trim_result_def scheme_blocked_def Let_def split: option.splits)
  moreover have "find_first_not_of u ws_chars = None \<Longrightarrow> trim_result u = []"
    by (simp add: trim_result_def)
  ultimately show ?thesis by (auto simp: trim_result_strip Let_def)
qed

lemma url_safe_Nil [simp]: "url_safe []"
  by (simp add: url_safe_def scheme_blocked_def kBlockedSchemes_def strip_both_def)

lemma SanitizeUrl_url_safe: "url_safe (SanitizeUrl u)"
  by (simp add: SanitizeUrl_strip Let_def) (simp add: url_safe_def strip_both_idem)

lemma SanitizeUrl_id: "url_safe u \<Longrightarrow> SanitizeUrl u = u"
  by (simp add: SanitizeUrl_strip url_safe_def)

interpretation url: safe_filter SanitizeUrl url_safe
  by unfold_locales (fact SanitizeUrl_url_safe, fact SanitizeUrl_id)

interpretation trim: safe_filter trim_result "\<lambda>s. strip_both ws_chars s = s"
  by unfold_locales (simp_all add: trim_result_strip strip_both_idem)

text \<open>A clean node: its tag, its attributes and, recursively, its children pass the filter.\<close>

definition clean_attr :: "string \<times> string \<Rightarrow> bool" where
  "clean_attr a \<longleftrightarrow> lower (fst a) \<in> set kAllowedAttributes \<and>
     (lower (fst a) = ''href'' \<or> lower (fst a) = ''src'' \<longrightarrow> IsValidUrl (snd a))"

fun clean :: "xnode \<Rightarrow> bool" where
  "clean (Element name attrs kids) =
     (lower name \<in> set kAllowedTags \<and> list_all clean_attr attrs \<and> list_all clean kids)"
| "clean n = True"

fun tags_allowed :: "xnode \<Rightarrow> bool" where
  "tags_allowed (Element name attrs kids) =
     (lower name \<in> set kAllowedTags \<and> list_all tags_allowed kids)"
| "tags_allowed n = True"

lemma not_on_attribute:
  "n \<in> set kAllowedAttributes \<Longrightarrow> \<not> StartsWithCaseInsensitive n ''on'' \<and> n \<noteq> ''style''"
  by (auto simp: kAllowedAttributes_def StartsWithCaseInsensitive_def tolower_def)

lemma IsValidUrl_Nil [simp]: "IsValidUrl []"
  by (simp add: IsValidUrl_def)

lemma sanitize_attr_clean: "list_all clean_attr (sanitize_attr a)"
  by (cases a) (auto simp: sanitize_attr_def clean_attr_def Let_def)

lemma sanitize_attr_id: "clean_attr a \<Longrightarrow> sanitize_attr a = [a]"
  using not_on_attribute by (cases a) (auto simp: sanitize_attr_def clean_attr_def Let_def)

lemma sanitize_attrs_id: "list_all clean_attr as \<Longrightarrow> concat (map sanitize_attr as) = as"
  by (induction as) (auto simp: sanitize_attr_id)

lemma SanitizeNode_clean:
  "list_all tags_allowed ns \<Longrightarrow> list_all clean acc \<Longrightarrow> list_all clean (SanitizeNode L acc ns)"
proof (induction L acc ns rule: SanitizeNode.induct)
  case (2 L acc name attrs kids ns)
  have "list_all clean_attr (concat (map sanitize_attr attrs))"
    using sanitize_attr_clean by (induction attrs) auto
  with 2 show ?case by simp
qed auto

lemma SanitizeNode_id: "list_all clean ns \<Longrightarrow> SanitizeNode L acc ns = acc @ ns"
  by (induction L acc ns rule: SanitizeNode.induct) (auto simp: sanitize_attrs_id)

lemma SanitizeNode_acc:
  "list_all tags_allowed ns \<Longrightarrow> SanitizeNode L (a # acc) ns = a # SanitizeNode L acc ns"
  by (induction L acc ns rule: SanitizeNode.induct) auto

lemma SanitizeNode_hd:
  assumes "list_all tags_allowed (n # ns)"
  shows "\<exists>r. SanitizeNode L [] (n # ns) = r # SanitizeNode L [] ns \<and> clean r"
proof -
  obtain r where r: "SanitizeNode L [] (n # ns) = SanitizeNode L [r] ns" "SanitizeNode L [] [n] = [r]"
    using assms by (cases n) auto
  moreover have "clean r"
    using SanitizeNode_clean[of "[n]" "[]" L] assms r(2) by simp
  ultimately show ?thesis using assms SanitizeNode_acc[of ns L r "[]"] by auto
qed

lemma clean_kids: "clean n \<Longrightarrow> list_all clean (node_kids n)"
  by (cases n) auto

lemma clean_find_body: "clean n \<Longrightarrow> clean (find_body n)"
  using clean_kids[of n] by (auto simp: find_body_def list_all_iff find_Some_iff split: option.splits)

text \<open>The escapes that \<^verbatim>\<open>DecodeUnicodeEscapes\<close> reads, for the bytes it can represent.\<close>

definition escape_byte :: "char \<Rightarrow> string" where
  "escape_byte c = [CHR 0x5C, CHR ''u'', CHR ''0'', CHR ''0'',
     hex_digits ! (ord8 c div 16), hex_digits ! (ord8 c mod 16)]"

definition escape_all :: "string \<Rightarrow> string" where
  "escape_all s = concat (map escape_byte s)"

lemma ord8_div_16: "ord8 c div 16 < 16"
  using ord8_less[of c] by (intro less_mult_imp_div_less) simp

lemma hex_digit_xdigit: "n < 16 \<Longrightarrow> isxdigit (hex_digits ! n)"
  using hex_digits_inverse by simp

lemma DecodeUnicodeEscapes_escape:
  "DecodeUnicodeEscapes (escape_byte c @ s) = c # DecodeUnicodeEscapes s"
proof -
  let ?a = "hex_digits ! (ord8 c div 16)" and ?b = "hex_digits ! (ord8 c mod 16)"
  have "isxdigit ?a" "isxdigit ?b" by (simp_all add: hex_digit_xdigit ord8_div_16)
  moreover have "char_of (stoul_hex [CHR ''0'', CHR ''0'', ?a, ?b]) = c"
  proof -
    have "hex_val (CHR ''0'') = 0" by (simp add: hex_val_def isdigit_def)
    then show ?thesis by (simp add: stoul_hex_def ord8_div_16)
  qed
  ultimately show ?thesis
    by (simp add: escape_byte_def isxdigit_def isdigit_def)
qed

lemma DecodeUnicodeEscapes_escape_all: "DecodeUnicodeEscapes (escape_all s) = s"
proof (induction s)
  case (Cons c s)
  then show ?case
    using DecodeUnicodeEscapes_escape[of c "escape_all s"] by (simp add: escape_all_def)
qed (simp add: escape_all_def)

interpretation unicode: text_codec escape_all DecodeUnicodeEscapes
  by unfold_locales (rule DecodeUnicodeEscapes_escape_all)

lemma length_DecodeUnicodeEscapes: "length (DecodeUnicodeEscapes s) \<le> length s"
proof (induction s rule: length_induct)
  case (1 s)
  have IH: "length (DecodeUnicodeEscapes (drop k t)) \<le> length (drop k t)" if "s = c # t" for k c t
    using 1[rule_format, of "drop k t"] that by (metis diff_le_self le_imp_less_Suc length_Cons length_drop)
  show ?case
  proof (cases s)
    case (Cons c t)
    with IH[OF Cons, of 5] IH[OF Cons, of 4] IH[OF Cons, of 0] show ?thesis by auto
  qed simp
qed

lemma DecodeUnicodeEscapes_plain: "CHR ''u'' \<notin> set s \<Longrightarrow> DecodeUnicodeEscapes s = s"
proof (induction s rule: DecodeUnicodeEscapes.induct)
  case (2 c s)
  have "\<not> (5 \<le> length s \<and> s ! 0 = CHR ''u'')" using "2.prems" by (cases s) auto
  with 2 show ?case by auto
qed simp

text \<open>
  What libxml2 may do besides adding a child in front of the cursor: merge a text node into the text node before
  it. It never touches an element already passed, so elements that leave a refused parent stay as they are.
\<close>

definition text_merging :: "libxml \<Rightarrow> bool" where
  "text_merging L \<longleftrightarrow>
     (\<forall>acc n. add_prev L acc n = acc @ [n] \<or>
        (\<exists>a t u. acc = a @ [Text t] \<and> n = Text u \<and> add_prev L acc n = a @ [Text (t @ u)]))"

lemma add_prev_element: "text_merging L \<Longrightarrow> is_element n \<Longrightarrow> add_prev L acc n = acc @ [n]"
  unfolding text_merging_def by (metis is_element.simps(2))

lemma add_prev_prefix:
  assumes "text_merging L" "prefix p acc" "p \<noteq> []" "is_element (last p)"
  shows "prefix p (add_prev L acc n)"
proof (cases "add_prev L acc n = acc @ [n]")
  case False
  then obtain a t u where a: "acc = a @ [Text t]" "add_prev L acc n = a @ [Text (t @ u)]"
    using assms(1) unfolding text_merging_def by metis
  have "p \<noteq> acc" using assms(4) a(1) by auto
  with assms(2) a show ?thesis by simp
qed (use assms(2) in simp)

lemma SanitizeNode_append: "SanitizeNode L acc (xs @ ys) = SanitizeNode L (SanitizeNode L acc xs) ys"
  by (induction L acc xs rule: SanitizeNode.induct) simp_all

lemma SanitizeNode_prefix:
  "text_merging L \<Longrightarrow> p \<noteq> [] \<Longrightarrow> is_element (last p) \<Longrightarrow> prefix p acc \<Longrightarrow> prefix p (SanitizeNode L acc ns)"
proof (induction L acc ns rule: SanitizeNode.induct)
  case (2 L acc name attrs kids ns)
  have "prefix p (foldl (add_prev L) acc kids)"
    using "2.prems"(4) by (induction kids arbitrary: acc) (auto intro: add_prev_prefix[OF "2.prems"(1) _ "2.prems"(2,3)])
  with 2 show ?case by simp
qed simp_all

lemma SanitizeNode_block:
  assumes "text_merging L" "lower name \<notin> set kAllowedTags" "kids \<noteq> []" "list_all is_element kids"
  shows "\<exists>rest. SanitizeNode L [] (pre @ Element name attrs kids # post) = SanitizeNode L [] pre @ kids @ rest"
proof -
  have "foldl (add_prev L) acc kids = acc @ kids" for acc
    using assms(4) by (induction kids arbitrary: acc) (simp_all add: add_prev_element[OF assms(1)])
  then have "SanitizeNode L [] (pre @ Element name attrs kids # post) = SanitizeNode L (SanitizeNode L [] pre @ kids) post"
    using assms(2) by (simp add: SanitizeNode_append)
  moreover have "prefix (SanitizeNode L [] pre @ kids) (SanitizeNode L (SanitizeNode L [] pre @ kids) post)"
    by (rule SanitizeNode_prefix[OF assms(1)]) (use assms(3,4) in \<open>simp_all add: list_all_iff\<close>)
  ultimately show ?thesis by (auto simp: prefix_def)
qed

lemma html_body_allowed: "''html'' \<in> set kAllowedTags" "''body'' \<in> set kAllowedTags"
    "lower ''html'' = ''html''" "lower ''body'' = ''body''"
  by code_simp+

text \<open>A libxml2 that merges no text nodes, for concrete examples.\<close>

definition plain_xml :: libxml where
  "plain_xml =
     \<lparr>html_read = (\<lambda>s. Doc (Element ''html'' [] [Element ''body'' [] [Text s]]) []),
      add_prev = (\<lambda>acc n. acc @ [n]),
      node_dump = (\<lambda>n. case n of Text t \<Rightarrow> t | _ \<Rightarrow> [])\<rparr>"

text \<open>A document with a script inside a refused tag.\<close>

definition script_node :: xnode where
  "script_node = Element ''script'' [] [Text ''alert(1)'']"

definition script_xml :: libxml where
  "script_xml = plain_xml\<lparr>
     html_read := (\<lambda>s. Doc (Element ''html'' [] [Element ''body'' [] [Text ''hi '', Element ''font'' [] [script_node]]]) []),
     node_dump := (\<lambda>n. case n of Text t \<Rightarrow> t | Element t as ks \<Rightarrow> ''<'' @ t @ ''>'' @ concat (map (\<lambda>k. case k of Text u \<Rightarrow> u | _ \<Rightarrow> []) ks) @ ''</'' @ t @ ''>'' | _ \<Rightarrow> [])\<rparr>"

section \<open>Properties\<close>

text \<open>
  C25. The image URL stored with a post: whatever the input, the result has no white space around it
  and does not start with a blocked scheme in any case mix; the filter is idempotent and changes
  nothing that is safe already.
\<close>
theorem SanitizeUrl_correct:
  "url_safe (SanitizeUrl u) \<and> SanitizeUrl (SanitizeUrl u) = SanitizeUrl u \<and>
   (SanitizeUrl u = u \<longleftrightarrow> url_safe u)"
  using url.filt_safe url.filt_idem url.filt_fixpoint by simp

text \<open>
  C21. The HTML filter on a document all of whose tags are allowed: every element that remains has
  an allowed tag and only allowed attributes, with no refused URL in a link, at any depth; and a
  document that is clean already is left as it is.
\<close>
theorem SanitizeNode_correct:
  assumes "list_all tags_allowed ns"
  shows "list_all clean (SanitizeNode L [] ns) \<and>
    SanitizeNode L [] (SanitizeNode L [] ns) = SanitizeNode L [] ns \<and>
    (list_all clean ns \<longrightarrow> SanitizeNode L [] ns = ns)"
  using assms SanitizeNode_clean[of ns "[]" L] SanitizeNode_id[of _ L "[]"] by simp

theorem SanitizeNode_correct_witness:
  "list_all clean (SanitizeNode plain_xml [] [Element ''A'' [(''onclick'', ''x''), (''HREF'', ''JavaScript:1'')] [Text ''t'']])
   \<and> SanitizeNode plain_xml [] [Element ''A'' [(''onclick'', ''x''), (''HREF'', ''JavaScript:1'')] [Text ''t'']]
     = [Element ''A'' [(''HREF'', '''')] [Text ''t'']]"
proof -
  have low: "lower ''A'' = ''a''" "lower ''HREF'' = ''href''" "lower ''onclick'' = ''onclick''"
    "lower ''JavaScript:1'' = ''javascript:1''"
    by code_simp+
  have "list_all tags_allowed [Element ''A'' [(''onclick'', ''x''), (''HREF'', ''JavaScript:1'')] [Text ''t'']]"
    using low by (simp add: kAllowedTags_def)
  note r = SanitizeNode_correct[OF this, of plain_xml]
  have "sanitize_attr (''onclick'', ''x'') = []" "sanitize_attr (''HREF'', ''JavaScript:1'') = [(''HREF'', '''')]"
    by code_simp+
  with r low show ?thesis by (simp add: kAllowedTags_def)
qed

text \<open>
  C24. The HTML filter does not look into what it unwraps, for every libxml2 that at most merges neighbouring text. An
  element with a refused tag, after any siblings and before any others, leaves its child elements in the final result
  of the filter exactly as they were, with every element, event handler and script URL in them; and when it stands in
  the body of a document, \<^verbatim>\<open>SanitizeString\<close> returns text that holds their serialisation untouched.
\<close>
theorem SanitizeNode_unwrapped_unchecked:
  assumes "text_merging L" and "lower name \<notin> set kAllowedTags" and "kids \<noteq> []" and "list_all is_element kids"
  shows "\<exists>rest. SanitizeNode L [] (pre @ Element name attrs kids # post) = SanitizeNode L [] pre @ kids @ rest \<and>
    (input \<noteq> [] \<and>
     html_read L input = Doc (Element ''html'' ha [Element ''body'' ba (pre @ Element name attrs kids # post)]) [] \<longrightarrow>
     SanitizeString L input = Inr (strip_both ws_chars
       (concat (map (\<lambda>n. c_str (node_dump L n)) (SanitizeNode L [] pre @ kids @ rest)))))"
proof -
  obtain rest where rest: "SanitizeNode L [] (pre @ Element name attrs kids # post) = SanitizeNode L [] pre @ kids @ rest"
    using SanitizeNode_block[OF assms] by blast
  then show ?thesis
    using html_body_allowed by (intro exI[of _ rest]) (simp add: SanitizeString_def find_body_def trim_result_strip Let_def)
qed

theorem SanitizeNode_unwrapped_unchecked_witness:
  "(\<exists>rest. SanitizeString script_xml ''x'' = Inr (strip_both ws_chars (''hi '' @ ''<script>alert(1)</script>'' @ rest))) \<and>
   \<not> list_all clean (SanitizeNode script_xml [] [Text ''hi '', Element ''font'' [] [script_node]])"
proof -
  have tags: "lower ''font'' \<notin> set kAllowedTags" "lower ''script'' \<notin> set kAllowedTags"
    by code_simp+
  have "text_merging script_xml" by (simp add: script_xml_def plain_xml_def text_merging_def)
  note r = SanitizeNode_unwrapped_unchecked[OF this tags(1), of "[script_node]" "[Text ''hi '']" "[]"]
  have el: "list_all is_element [script_node]" by (simp add: script_node_def)
  have doc: "html_read script_xml ''x'' =
      Doc (Element ''html'' [] [Element ''body'' [] ([Text ''hi ''] @ Element ''font'' [] [script_node] # [])]) []"
    by (simp add: script_xml_def)
  have dumps: "c_str (node_dump script_xml (Text ''hi '')) = ''hi ''" "c_str (node_dump script_xml script_node) = ''<script>alert(1)</script>''"
    by (simp_all add: script_xml_def script_node_def c_str_def)
  from r[OF _ el, of "[]" "''x''" "[]" "[]"] doc
  obtain rest where "SanitizeString script_xml ''x'' = Inr (strip_both ws_chars
       (concat (map (\<lambda>n. c_str (node_dump script_xml n)) ([Text ''hi ''] @ [script_node] @ rest))))" by auto
  moreover have "\<exists>rest. SanitizeNode script_xml [] [Text ''hi '', Element ''font'' [] [script_node]] = [Text ''hi ''] @ [script_node] @ rest"
    using r[OF _ el, of "[]" "''x''" "[]" "[]"] by auto
  moreover have "\<not> clean script_node" using tags(2) by (simp add: script_node_def)
  ultimately show ?thesis by (auto simp: dumps simp del: SanitizeNode.simps)
qed

text \<open>
  \<^verbatim>\<open>SanitizeString\<close> on a document all of whose tags are allowed: the result is the trimmed
  serialisation of what is left of the body by the filter, and everything in it is clean.
\<close>
theorem SanitizeString_correct:
  assumes "input \<noteq> []" and "html_read L input = Doc rt sibs" and "list_all tags_allowed (rt # sibs)"
    and "is_element rt"
  shows "SanitizeString L input =
      Inr (strip_both ws_chars (concat (map (\<lambda>n. c_str (node_dump L n))
        (node_kids (find_body (hd (SanitizeNode L [] (rt # sibs))))))))
    \<and> list_all clean (node_kids (find_body (hd (SanitizeNode L [] (rt # sibs)))))"
proof -
  obtain r' where r': "SanitizeNode L [] (rt # sibs) = r' # SanitizeNode L [] sibs" "clean r'"
    using SanitizeNode_hd[OF assms(3)] by blast
  then have "clean (find_body (hd (SanitizeNode L [] (rt # sibs))))"
    by (simp add: clean_find_body)
  moreover have "lower (node_tag rt) \<in> set kAllowedTags"
    using assms(3,4) by (cases rt) auto
  ultimately show ?thesis
    using assms(1,2) clean_kids by (simp add: SanitizeString_def trim_result_strip)
qed

theorem SanitizeString_correct_witness:
  "SanitizeString plain_xml '' hi '' = Inr ''hi''"
proof -
  have "html_read plain_xml '' hi '' = Doc (Element ''html'' [] [Element ''body'' [] [Text '' hi '']]) []"
    by (simp add: plain_xml_def)
  moreover have "list_all tags_allowed [Element ''html'' [] [Element ''body'' [] [Text '' hi '']]]"
    by code_simp
  moreover have "strip_both ws_chars (concat (map (\<lambda>n. c_str (node_dump plain_xml n)) (node_kids (find_body (hd
     (SanitizeNode plain_xml [] [Element ''html'' [] [Element ''body'' [] [Text '' hi '']]])))))) = ''hi''"
    by code_simp
  ultimately show ?thesis
    using SanitizeString_correct[of "'' hi ''" plain_xml] by simp
qed

text \<open>
  C26. \<^verbatim>\<open>DecodeUnicodeEscapes\<close> reads back every byte written as an escape, leaves text without the
  letter that introduces escapes alone, and never makes a text longer.
\<close>
theorem DecodeUnicodeEscapes_correct:
  "DecodeUnicodeEscapes (escape_all s) = s \<and> length (DecodeUnicodeEscapes t) \<le> length t \<and>
   (CHR ''u'' \<notin> set t \<longrightarrow> DecodeUnicodeEscapes t = t)"
  by (simp add: unicode.decode_encode length_DecodeUnicodeEscapes DecodeUnicodeEscapes_plain)

theorem DecodeUnicodeEscapes_correct_witness:
  "CHR ''u'' \<notin> set ''a/b'' \<and> DecodeUnicodeEscapes ''a/b'' = ''a/b'' \<and>
   DecodeUnicodeEscapes (escape_all ''<'') = ''<''"
  using DecodeUnicodeEscapes_correct[of "''<''" "''a/b''"] by simp

end
