(* ===== verification/Config.thy ===== *)
theory Config
  imports World
begin

text \<open>
  \<^verbatim>\<open>backend/src/utils/dotenv.h\<close> (\<open>GetEnv\<close>, \<open>LoadEnv\<close>) and the configuration of \<^verbatim>\<open>backend/src/app.h\<close>
  (\<open>AppConfig\<close>, \<open>FromEnv\<close>). The process environment is a finite map; the file is the text the stream
  delivers, or nothing when it cannot be opened.
\<close>

section \<open>The process environment\<close>

datatype os = Windows | Posix

text \<open>Names are compared without case on Windows.\<close>

definition env_name :: "os \<Rightarrow> string \<Rightarrow> string" where
  "env_name os k = (if os = Windows then lower (c_str k) else c_str k)"

type_synonym environ = "string \<rightharpoonup> string"

definition getenv :: "os \<Rightarrow> environ \<Rightarrow> string \<Rightarrow> string option" where
  "getenv os m key = m (env_name os key)"

text \<open>
  \<^verbatim>\<open>SET_ENV\<close>: \<^verbatim>\<open>_putenv_s\<close> removes the variable when the value is empty, \<^verbatim>\<open>setenv(.., 1)\<close> stores the
  empty text; both refuse an empty name.
\<close>

definition SET_ENV :: "os \<Rightarrow> string \<Rightarrow> string \<Rightarrow> environ \<Rightarrow> environ" where
  "SET_ENV os key val m =
     (if c_str key = [] then m
      else if os = Windows \<and> c_str val = [] then m(env_name os key := None)
      else m(env_name os key \<mapsto> c_str val))"

definition GetEnv :: "os \<Rightarrow> environ \<Rightarrow> string \<Rightarrow> string \<Rightarrow> string" where
  "GetEnv os m key fallback = (case getenv os m key of Some v \<Rightarrow> v | None \<Rightarrow> fallback)"

section \<open>Loading a file\<close>

text \<open>The two quote characters; a value of at least two characters loses a matching pair.\<close>

definition strip_quotes :: "string \<Rightarrow> string" where
  "strip_quotes value =
     (if 2 \<le> length value \<and>
         ((hd value = CHR 0x22 \<and> last value = CHR 0x22) \<or> (hd value = CHR 0x27 \<and> last value = CHR 0x27))
      then take (length value - 2) (drop 1 value) else value)"

text \<open>The head of the loop body: comments, blank lines and lines without \<open>=\<close> define nothing.\<close>

definition parse_line :: "string \<Rightarrow> (string \<times> string) option" where
  "parse_line line =
     (if line = [] \<or> hd line = CHR ''#'' then None
      else case str_find line [CHR ''=''] of
        None \<Rightarrow> None
      | Some eq \<Rightarrow> Some (take eq line, strip_quotes (drop (eq + 1) line)))"

definition load_line :: "os \<Rightarrow> environ \<times> nat \<Rightarrow> string \<Rightarrow> environ \<times> nat" where
  "load_line os st line =
     (case st of (m, loaded) \<Rightarrow>
        case parse_line line of
          None \<Rightarrow> (m, loaded)
        | Some (key, value) \<Rightarrow>
            if getenv os m key = None then (SET_ENV os key value m, loaded + 1) else (m, loaded))"

definition LoadEnv :: "os \<Rightarrow> string option \<Rightarrow> environ \<Rightarrow> environ \<times> nat" where
  "LoadEnv os file m =
     (case file of None \<Rightarrow> (m, 0) | Some text \<Rightarrow> foldl (load_line os) (m, 0) (getlines text))"

section \<open>The configuration\<close>

definition ID_ACCESS_TOKEN_EXPIRES_SECONDS :: int where
  "ID_ACCESS_TOKEN_EXPIRES_SECONDS = 3600"

definition ID_REFRESH_TOKEN_EXPIRES_SECONDS :: int where
  "ID_REFRESH_TOKEN_EXPIRES_SECONDS = 604800"

record app_config =
  supabaseHost :: string
  supabaseKey :: string
  corsOrigin :: string
  redisUrl :: string
  redisToken :: string
  cdnBaseUrl :: string
  cdnBucket :: string
  cdnAccessKey :: string
  cdnSecretKey :: string
  serverPrefix :: string
  limitImageBytes :: nat
  limitVideoBytes :: nat

text \<open>The default member initialisers, i.e. \<^verbatim>\<open>AppConfig cfg;\<close>.\<close>

definition default_config :: app_config where
  "default_config =
     \<lparr>supabaseHost = [], supabaseKey = [], corsOrigin = [], redisUrl = [], redisToken = [],
      cdnBaseUrl = [], cdnBucket = [], cdnAccessKey = [], cdnSecretKey = [], serverPrefix = ''/'',
      limitImageBytes = 10 * 1024 * 1024, limitVideoBytes = 25 * 1024 * 1024\<rparr>"

definition FromEnv :: "os \<Rightarrow> environ \<Rightarrow> app_config" where
  "FromEnv os m = default_config
     \<lparr>supabaseHost := GetEnv os m ''DATABASE_HOST'' [],
      supabaseKey := GetEnv os m ''DATABASE_ANON_KEY'' [],
      corsOrigin := GetEnv os m ''CORS_ORIGIN'' ''http://localhost:8080'',
      redisUrl := GetEnv os m ''UPSTASH_REDIS_REST_URL'' [],
      redisToken := GetEnv os m ''UPSTASH_REDIS_REST_TOKEN'' [],
      cdnBaseUrl := GetEnv os m ''CDN_BASE_URL'' [],
      cdnBucket := GetEnv os m ''CDN_BUCKET'' [],
      cdnAccessKey := GetEnv os m ''CDN_ACCESS_KEY'' [],
      cdnSecretKey := GetEnv os m ''CDN_SECRET_KEY'' []\<rparr>"

section \<open>What loading does\<close>

text \<open>
  The assignment a line makes, if any, and the first one a list of lines makes to a name: the
  specification of the loop.
\<close>

definition assigns :: "os \<Rightarrow> string \<Rightarrow> (string \<times> string) option" where
  "assigns os line =
     (case parse_line line of
        Some (key, value) \<Rightarrow>
          if c_str key = [] \<or> (os = Windows \<and> c_str value = []) then None
          else Some (env_name os key, c_str value)
      | None \<Rightarrow> None)"

fun first_def :: "os \<Rightarrow> string list \<Rightarrow> string \<rightharpoonup> string" where
  "first_def os [] k = None"
| "first_def os (l # ls) k =
     (case assigns os l of
        Some (k', v) \<Rightarrow> if k' = k then Some v else first_def os ls k
      | None \<Rightarrow> first_def os ls k)"

lemma load_line_lookup:
  "fst (load_line os (m, n) l) =
     (case assigns os l of Some (k, v) \<Rightarrow> if m k = None then m(k \<mapsto> v) else m | None \<Rightarrow> m)"
  by (auto simp: load_line_def assigns_def getenv_def SET_ENV_def fun_eq_iff split: option.splits)

lemma load_lines_lookup: "fst (foldl (load_line os) (m, n) ls) = first_def os ls ++ m"
proof (induction ls arbitrary: m n)
  case Nil
  then show ?case by (auto simp: map_add_def)
next
  case (Cons l ls)
  obtain m' n' where s: "load_line os (m, n) l = (m', n')" by (cases "load_line os (m, n) l")
  have m': "m' = (case assigns os l of Some (k, v) \<Rightarrow> if m k = None then m(k \<mapsto> v) else m | None \<Rightarrow> m)"
    using load_line_lookup[of os m n l] s by simp
  show ?case
    by (auto simp: Cons s m' map_add_def fun_eq_iff split: option.splits)
qed

lemma LoadEnv_lookup: "fst (LoadEnv os (Some t) m) = first_def os (getlines t) ++ m"
  by (simp add: LoadEnv_def load_lines_lookup)

lemma strip_quotes_quoted: "strip_quotes (CHR 0x22 # v @ [CHR 0x22]) = v"
  by (simp add: strip_quotes_def)

text \<open>A line \<open>KEY="value"\<close>.\<close>

definition env_line :: "string \<times> string \<Rightarrow> string" where
  "env_line kv = fst kv @ CHR ''='' # CHR 0x22 # snd kv @ [CHR 0x22]"

definition plain_key :: "string \<Rightarrow> bool" where
  "plain_key k \<longleftrightarrow> k \<noteq> [] \<and> hd k \<noteq> CHR ''#'' \<and> CHR ''='' \<notin> set k \<and> CHR 0x00 \<notin> set k \<and> CHR 0x0A \<notin> set k"

definition plain_value :: "string \<Rightarrow> bool" where
  "plain_value v \<longleftrightarrow> CHR 0x00 \<notin> set v \<and> CHR 0x0A \<notin> set v"

lemma c_str_id: "CHR 0x00 \<notin> set s \<Longrightarrow> c_str s = s"
  by (induction s) (auto simp: c_str_def)

lemma parse_env_line: "plain_key k \<Longrightarrow> parse_line (env_line (k, v)) = Some (k, v)"
proof -
  assume k: "plain_key k"
  then have "str_find (env_line (k, v)) [CHR ''=''] = Some (length k)"
    by (simp add: env_line_def plain_key_def str_find_char)
  with k show ?thesis
    using strip_quotes_quoted[of v] by (auto simp: parse_line_def env_line_def plain_key_def)
qed





lemma assigns_env_line:
  assumes "plain_key k" "plain_value v"
  shows "assigns Posix (env_line (k, v)) = Some (k, v)"
  using assms by (simp add: assigns_def parse_env_line env_name_def c_str_id)
    (simp add: plain_key_def plain_value_def c_str_id)

lemma first_def_env_lines:
  "\<forall>(k, v) \<in> set kvs. plain_key k \<and> plain_value v \<Longrightarrow> first_def Posix (map env_line kvs) = map_of kvs"
  by (induction kvs) (auto simp: assigns_env_line fun_eq_iff)

lemma getlines_env_lines:
  assumes "\<forall>(k, v) \<in> set kvs. plain_key k \<and> plain_value v"
  shows "getlines (concat (map (\<lambda>kv. env_line kv @ [CHR 0x0A]) kvs)) = map env_line kvs"
  using getlines_concat[of "map env_line kvs"] assms
  by (force simp: env_line_def plain_key_def plain_value_def comp_def)

section \<open>Properties\<close>



text \<open>
  Round trip through the file: after loading a file of lines \<open>KEY="value"\<close> into an environment
  that has none of the keys, \<^verbatim>\<open>GetEnv\<close> reads back for each key the value of its first line.
\<close>
theorem LoadEnv_roundtrip:
  assumes "\<forall>(k, v) \<in> set kvs. plain_key k \<and> plain_value v" and "dom m \<inter> fst ` set kvs = {}"
    and "map_of kvs k = Some v"
  shows "GetEnv Posix (fst (LoadEnv Posix (Some (concat (map (\<lambda>kv. env_line kv @ [CHR 0x0A]) kvs))) m)) k d = v"
proof -
  have "k \<in> fst ` set kvs" using assms(3) by (metis map_of_eq_None_iff option.distinct(1))
  moreover from this have "plain_key k" using assms(1) by force
  ultimately show ?thesis
    using assms
    by (auto simp: GetEnv_def getenv_def env_name_def LoadEnv_lookup getlines_env_lines
        first_def_env_lines map_add_def plain_key_def c_str_id split: option.splits)
qed

theorem LoadEnv_roundtrip_witness:
  "GetEnv Posix (fst (LoadEnv Posix (Some (concat (map (\<lambda>kv. env_line kv @ [CHR 0x0A])
     [(''A'', ''x=1''), (''B'', '''')]))) Map.empty)) ''A'' ''d'' = ''x=1''"
proof (rule LoadEnv_roundtrip)
  show "\<forall>(k, v) \<in> set [(''A'', ''x=1''), (''B'', '''')]. plain_key k \<and> plain_value v"
    by code_simp
qed simp_all

end
