(* ===== verification/Worker.thy ===== *)
theory Worker
  imports Prelude "HOL-Library.Multiset"
begin

text \<open>
  \<^verbatim>\<open>backend/src/worker/worker.h\<close>: the bounded task queue and the pool of threads that empties it.
  The bodies that run under the mutex are atomic functions on the queue; the threads, which wait on
  the two condition variables in between, are a step relation over the whole pool.
\<close>

section \<open>The queue\<close>

record 'a task_queue =
  tq_queue :: "'a list"
  running :: bool
  max_size :: nat

definition new_queue :: "nat \<Rightarrow> 'a task_queue" where
  "new_queue n = \<lparr>tq_queue = [], running = True, max_size = n\<rparr>"

text \<open>
  \<open>None\<close>: the predicate of the \<^verbatim>\<open>wait\<close> is false and the caller blocks. A caller that passes runs the
  rest of the function before it gives the mutex back.
\<close>

definition push :: "'a \<Rightarrow> 'a task_queue \<Rightarrow> (bool \<times> 'a task_queue) option" where
  "push fn q =
     (if length (tq_queue q) < max_size q \<or> \<not> running q
      then if \<not> running q then Some (False, q)
           else Some (True, q\<lparr>tq_queue := tq_queue q @ [fn]\<rparr>)
      else None)"

definition pop :: "'a task_queue \<Rightarrow> ('a option \<times> 'a task_queue) option" where
  "pop q =
     (if tq_queue q \<noteq> [] \<or> \<not> running q
      then (case tq_queue q of
              [] \<Rightarrow> Some (None, q)
            | task # rest \<Rightarrow> Some (Some task, q\<lparr>tq_queue := rest\<rparr>))
      else None)"

section \<open>The interface: a bounded first-in first-out queue\<close>

datatype 'a qop = Push 'a | Pop

text \<open>A sequence of calls; a call that would block is given up. The values accepted and taken.\<close>

fun run_ops ::
  "('a \<Rightarrow> 'q \<Rightarrow> (bool \<times> 'q) option) \<Rightarrow> ('q \<Rightarrow> ('a option \<times> 'q) option) \<Rightarrow> 'a qop list \<Rightarrow> 'q
     \<Rightarrow> 'a list \<times> 'a list \<times> 'q" where
  "run_ops ps pp [] q = ([], [], q)"
| "run_ops ps pp (Push x # ops) q =
     (case ps x q of
        Some (True, q') \<Rightarrow> (case run_ops ps pp ops q' of (ins, outs, r) \<Rightarrow> (x # ins, outs, r))
      | Some (False, q') \<Rightarrow> run_ops ps pp ops q'
      | None \<Rightarrow> run_ops ps pp ops q)"
| "run_ops ps pp (Pop # ops) q =
     (case pp q of
        Some (Some x, q') \<Rightarrow> (case run_ops ps pp ops q' of (ins, outs, r) \<Rightarrow> (ins, x # outs, r))
      | Some (None, q') \<Rightarrow> run_ops ps pp ops q'
      | None \<Rightarrow> run_ops ps pp ops q)"

locale bounded_fifo =
  fixes ps :: "'a \<Rightarrow> 'q \<Rightarrow> (bool \<times> 'q) option" and pp :: "'q \<Rightarrow> ('a option \<times> 'q) option"
    and content :: "'q \<Rightarrow> 'a list" and cap :: "'q \<Rightarrow> nat" and live :: "'q \<Rightarrow> bool"
  assumes ps_blocks: "live q \<Longrightarrow> ps x q = None \<longleftrightarrow> cap q \<le> length (content q)"
    and ps_adds: "live q \<Longrightarrow> ps x q = Some (b, q') \<Longrightarrow>
      b \<and> content q' = content q @ [x] \<and> cap q' = cap q \<and> live q'"
    and pp_blocks: "live q \<Longrightarrow> pp q = None \<longleftrightarrow> content q = []"
    and pp_takes: "live q \<Longrightarrow> pp q = Some (r, q') \<Longrightarrow>
      \<exists>x. r = Some x \<and> content q = x # content q' \<and> cap q' = cap q \<and> live q'"
begin

lemma run_fifo:
  "live q \<Longrightarrow> length (content q) \<le> cap q \<Longrightarrow> run_ops ps pp ops q = (ins, outs, r) \<Longrightarrow>
   content q @ ins = outs @ content r \<and> length (content r) \<le> cap q \<and> cap r = cap q \<and> live r"
proof (induction ops arbitrary: q ins outs)
  case (Cons op ops)
  show ?case
  proof (cases op)
    case (Push x)
    show ?thesis
    proof (cases "ps x q")
      case None
      with Cons Push show ?thesis by auto
    next
      case (Some bq)
      obtain b q' where bq: "bq = (b, q')" by (cases bq)
      have *: "b" "content q' = content q @ [x]" "cap q' = cap q" "live q'"
        using ps_adds[OF Cons.prems(1)] Some bq by auto
      have "length (content q) < cap q"
        using ps_blocks[OF Cons.prems(1), of x] Some by simp
      with * Cons.IH[of q'] Cons.prems Push Some bq show ?thesis
        by (auto split: prod.splits)
    qed
  next
    case Pop
    show ?thesis
    proof (cases "pp q")
      case None
      with Cons Pop show ?thesis by auto
    next
      case (Some rq)
      obtain x q' where rq: "rq = (Some x, q')" "content q = x # content q'" "cap q' = cap q" "live q'"
        using pp_takes[OF Cons.prems(1)] Some by (cases rq) blast
      with Cons.IH[of q'] Cons.prems Pop Some show ?thesis
        by (auto split: prod.splits)
    qed
  qed
qed auto

end

interpretation tq: bounded_fifo push pop tq_queue max_size running
  by unfold_locales (auto simp: push_def pop_def split: if_splits list.splits)

section \<open>The pool\<close>

text \<open>A worker thread is about to call \<open>pop\<close>, waits in it, runs a task, or has left its loop.\<close>

datatype 'a wstate = Popping | PopWaiting | Working 'a | Exited

text \<open>A call of \<open>submit\<close> is in \<open>push\<close>, waits in it, or has returned.\<close>

datatype 'a cstate = Pushing 'a | PushWaiting 'a | Pushed bool

text \<open>The destructor has not begun, has joined so many threads, or has returned.\<close>

datatype dstate = Alive | Joining nat | Destroyed

record 'a pool =
  tasks :: "'a task_queue"
  threads :: "'a wstate list"
  callers :: "'a cstate list"
  dtor :: dstate
  accepted :: "'a list"      \<comment> \<open>ghost: tasks for which \<open>push\<close> was true, in order\<close>
  started :: "'a list"       \<comment> \<open>ghost: tasks a worker has begun, in order\<close>

definition new_pool :: "nat \<Rightarrow> nat \<Rightarrow> 'a pool" where
  "new_pool maxSize n =
     \<lparr>tasks = new_queue maxSize, threads = replicate n Popping, callers = [], dtor = Alive,
      accepted = [], started = []\<rparr>"

fun wake_worker :: "'a wstate \<Rightarrow> 'a wstate" where
  "wake_worker PopWaiting = Popping" | "wake_worker w = w"

fun wake_caller :: "'a cstate \<Rightarrow> 'a cstate" where
  "wake_caller (PushWaiting x) = Pushing x" | "wake_caller c = c"

fun is_pushing :: "'a cstate \<Rightarrow> bool" where
  "is_pushing (Pushing x) = True" | "is_pushing c = False"

fun is_push_waiting :: "'a cstate \<Rightarrow> bool" where
  "is_push_waiting (PushWaiting x) = True" | "is_push_waiting c = False"

text \<open>\<^verbatim>\<open>notify_one\<close>: one waiting thread, any of them, continues; nothing happens when none waits.\<close>

definition notify_one :: "('t \<Rightarrow> bool) \<Rightarrow> ('t \<Rightarrow> 't) \<Rightarrow> 't list \<Rightarrow> 't list \<Rightarrow> bool" where
  "notify_one waiting wake ts ts' \<longleftrightarrow>
     (if \<exists>t \<in> set ts. waiting t
      then \<exists>i < length ts. waiting (ts ! i) \<and> ts' = ts[i := wake (ts ! i)]
      else ts' = ts)"

inductive pool_step :: "'a pool \<Rightarrow> 'a pool \<Rightarrow> bool" where
  submit: "pool_step p (p\<lparr>callers := callers p @ [Pushing fn]\<rparr>)"
| push_block: "j < length (callers p) \<Longrightarrow> callers p ! j = Pushing fn \<Longrightarrow> push fn (tasks p) = None \<Longrightarrow>
    pool_step p (p\<lparr>callers := (callers p)[j := PushWaiting fn]\<rparr>)"
| push_true: "j < length (callers p) \<Longrightarrow> callers p ! j = Pushing fn \<Longrightarrow>
    push fn (tasks p) = Some (True, q) \<Longrightarrow>
    notify_one (\<lambda>w. w = PopWaiting) wake_worker (threads p) ts \<Longrightarrow>
    pool_step p (p\<lparr>tasks := q, threads := ts, callers := (callers p)[j := Pushed True],
                   accepted := accepted p @ [fn]\<rparr>)"
| push_false: "j < length (callers p) \<Longrightarrow> callers p ! j = Pushing fn \<Longrightarrow>
    push fn (tasks p) = Some (False, q) \<Longrightarrow>
    pool_step p (p\<lparr>tasks := q, callers := (callers p)[j := Pushed False]\<rparr>)"
| pop_block: "i < length (threads p) \<Longrightarrow> threads p ! i = Popping \<Longrightarrow> pop (tasks p) = None \<Longrightarrow>
    pool_step p (p\<lparr>threads := (threads p)[i := PopWaiting]\<rparr>)"
| pop_task: "i < length (threads p) \<Longrightarrow> threads p ! i = Popping \<Longrightarrow>
    pop (tasks p) = Some (Some fn, q) \<Longrightarrow>
    notify_one is_push_waiting wake_caller (callers p) cs \<Longrightarrow>
    pool_step p (p\<lparr>tasks := q, threads := (threads p)[i := Working fn], callers := cs,
                   started := started p @ [fn]\<rparr>)"
| pop_null: "i < length (threads p) \<Longrightarrow> threads p ! i = Popping \<Longrightarrow>
    pop (tasks p) = Some (None, q) \<Longrightarrow>
    pool_step p (p\<lparr>tasks := q, threads := (threads p)[i := Exited]\<rparr>)"
| task_done: "i < length (threads p) \<Longrightarrow> threads p ! i = Working fn \<Longrightarrow>
    pool_step p (p\<lparr>threads := (threads p)[i := Popping]\<rparr>)"
| spurious_worker: "i < length (threads p) \<Longrightarrow>
    pool_step p (p\<lparr>threads := (threads p)[i := wake_worker (threads p ! i)]\<rparr>)"
| spurious_caller: "j < length (callers p) \<Longrightarrow>
    pool_step p (p\<lparr>callers := (callers p)[j := wake_caller (callers p ! j)]\<rparr>)"
| shutdown: "dtor p = Alive \<Longrightarrow>
    pool_step p (p\<lparr>threads := map wake_worker (threads p), callers := map wake_caller (callers p),
                   dtor := Joining 0\<rparr>)"
| join: "dtor p = Joining n \<Longrightarrow> n < length (threads p) \<Longrightarrow> threads p ! n = Exited \<Longrightarrow>
    pool_step p (p\<lparr>dtor := Joining (Suc n)\<rparr>)"
| destroyed: "dtor p = Joining n \<Longrightarrow> n = length (threads p) \<Longrightarrow> pool_step p (p\<lparr>dtor := Destroyed\<rparr>)"

inductive_cases pool_stepE: "pool_step p p'"

abbreviation pool_steps :: "'a pool \<Rightarrow> 'a pool \<Rightarrow> bool" where
  "pool_steps \<equiv> pool_step\<^sup>*\<^sup>*"

section \<open>Invariants of the pool\<close>

abbreviation count_if :: "('t \<Rightarrow> bool) \<Rightarrow> 't list \<Rightarrow> nat" where
  "count_if P ts \<equiv> length (filter P ts)"

abbreviation popping :: "'a wstate \<Rightarrow> bool" where
  "popping w \<equiv> w = Popping"

definition push_waiters :: "'a cstate list \<Rightarrow> bool" where
  "push_waiters cs \<longleftrightarrow> (\<exists>c \<in> set cs. is_push_waiting c)"

text \<open>
  The tasks that are queued are those accepted and not started, in order; the queue is within its
  bound; a waiting worker means that every queued task has a worker on its way to it, and a waiting
  caller that every free slot has a caller on its way to it.
\<close>

definition pool_inv :: "nat \<Rightarrow> nat \<Rightarrow> 'a pool \<Rightarrow> bool" where
  "pool_inv m n p \<longleftrightarrow>
     running (tasks p) \<and> max_size (tasks p) = m \<and> length (threads p) = n \<and>
     Exited \<notin> set (threads p) \<and> (0 < n \<longrightarrow> dtor p = Alive \<or> dtor p = Joining 0) \<and>
     accepted p = started p @ tq_queue (tasks p) \<and>
     length (tq_queue (tasks p)) \<le> m \<and>
     (PopWaiting \<in> set (threads p) \<longrightarrow> length (tq_queue (tasks p)) \<le> count_if popping (threads p)) \<and>
     (push_waiters (callers p) \<longrightarrow>
        m - length (tq_queue (tasks p)) \<le> count_if is_pushing (callers p))"

lemma count_update:
  "i < length ts \<Longrightarrow>
   count_if P (ts[i := t]) + of_bool (P (ts ! i)) = count_if P ts + of_bool (P t)"
proof (induction ts arbitrary: i)
  case (Cons a ts)
  then show ?case by (cases i) auto
qed simp

lemma count_map_le: "(\<And>t. P t \<Longrightarrow> P (f t)) \<Longrightarrow> count_if P ts \<le> count_if P (map f ts)"
  by (induction ts) auto

lemma wake_worker_simps [simp]:
  "wake_worker w = PopWaiting \<longleftrightarrow> False" "wake_worker w = Exited \<longleftrightarrow> w = Exited"
  "PopWaiting \<noteq> wake_worker w" "Exited = wake_worker w \<longleftrightarrow> w = Exited"
  "w = Popping \<Longrightarrow> wake_worker w = Popping"
  by (cases w; simp)+

lemma wake_caller_simps [simp]:
  "\<not> is_push_waiting (wake_caller c)" "is_pushing c \<Longrightarrow> is_pushing (wake_caller c)"
  "is_push_waiting c \<Longrightarrow> is_pushing (wake_caller c)" "is_push_waiting c \<Longrightarrow> \<not> is_pushing c"
  by (cases c; simp)+

text \<open>\<^verbatim>\<open>notify_one\<close> adds an awake thread when one was waiting, and makes none wait or leave.\<close>

lemma notify_one_length: "notify_one wt wk ts ts' \<Longrightarrow> length ts' = length ts"
  by (auto simp: notify_one_def split: if_splits)

lemma notify_one_set:
  "notify_one wt wk ts ts' \<Longrightarrow> set ts' \<subseteq> set ts \<union> {wk t |t. t \<in> set ts \<and> wt t}"
  unfolding notify_one_def
  by (auto split: if_splits dest!: set_update_subset_insert[THEN subsetD])

lemma notify_one_count:
  assumes "notify_one wt wk ts ts'" "\<And>t. wt t \<Longrightarrow> \<not> P t \<and> P (wk t)"
  shows "count_if P ts' = count_if P ts + of_bool (Bex (set ts) wt)"
proof (cases "Bex (set ts) wt")
  case True
  with assms(1) obtain i where "i < length ts" "wt (ts ! i)" "ts' = ts[i := wk (ts ! i)]"
    by (auto simp: notify_one_def)
  with assms(2)[of "ts ! i"] count_update[of i ts P "wk (ts ! i)"] True show ?thesis by simp
next
  case False
  with assms(1) show ?thesis by (auto simp: notify_one_def)
qed

lemma notify_worker:
  assumes "notify_one (\<lambda>w. w = PopWaiting) wake_worker ts ts'" "Exited \<notin> set ts"
  shows "length ts' = length ts" "Exited \<notin> set ts'" "PopWaiting \<in> set ts' \<Longrightarrow> PopWaiting \<in> set ts"
    "PopWaiting \<in> set ts \<Longrightarrow> count_if popping ts' = Suc (count_if popping ts)"
  using notify_one_length[OF assms(1)] notify_one_set[OF assms(1)]
    notify_one_count[OF assms(1), of popping] assms(2)
  by auto

lemma notify_caller:
  assumes "notify_one is_push_waiting wake_caller cs cs'"
  shows "push_waiters cs' \<Longrightarrow> push_waiters cs"
    "push_waiters cs \<Longrightarrow> count_if is_pushing cs' = Suc (count_if is_pushing cs)"
  using notify_one_set[OF assms] notify_one_count[OF assms, of is_pushing]
  by (auto simp: push_waiters_def)

lemma set_update_mem: "x \<in> set (xs[i := y]) \<Longrightarrow> x = y \<or> x \<in> set xs"
  using set_update_subset_insert by fastforce

lemma push_waiters_simps [simp]:
  "\<not> push_waiters []" "\<not> push_waiters (map wake_caller cs)"
  "push_waiters (cs @ [Pushing fn]) = push_waiters cs"
  by (auto simp: push_waiters_def)

lemma pool_inv_new: "pool_inv m n (new_pool m n)"
  by (auto simp: pool_inv_def new_pool_def new_queue_def)

lemma pool_invD:
  assumes "pool_inv m n p"
  shows "running (tasks p)" "max_size (tasks p) = m" "length (threads p) = n" "Exited \<notin> set (threads p)"
    "accepted p = started p @ tq_queue (tasks p)" "length (tq_queue (tasks p)) \<le> m"
    "PopWaiting \<in> set (threads p) \<Longrightarrow> length (tq_queue (tasks p)) \<le> count_if popping (threads p)"
    "push_waiters (callers p) \<Longrightarrow>
       m - length (tq_queue (tasks p)) \<le> count_if is_pushing (callers p)"
    "0 < n \<Longrightarrow> dtor p = Alive \<or> dtor p = Joining 0"
  using assms by (auto simp: pool_inv_def)

lemma pool_inv_push:
  assumes inv: "pool_inv m n p" and j: "j < length (callers p)" "callers p ! j = Pushing fn"
    and q: "push fn (tasks p) = Some (True, q)"
    and ts: "notify_one (\<lambda>w. w = PopWaiting) wake_worker (threads p) ts"
  shows "pool_inv m n (p\<lparr>tasks := q, threads := ts, callers := (callers p)[j := Pushed True],
                         accepted := accepted p @ [fn]\<rparr>)"
proof -
  note d = pool_invD[OF inv]
  have q': "tq_queue q = tq_queue (tasks p) @ [fn]" "max_size q = m" "running q"
    using tq.ps_adds[OF d(1) q] d(2) by auto
  have "length (tq_queue (tasks p)) < m"
    using tq.ps_blocks[OF d(1), of fn] q d(2) by simp
  moreover have "push_waiters ((callers p)[j := Pushed True]) \<Longrightarrow> push_waiters (callers p)"
    by (auto simp: push_waiters_def dest: set_update_mem)
  ultimately show ?thesis
    using q' d notify_worker[OF ts d(4)] count_update[OF j(1), of is_pushing "Pushed True"] j(2)
    by (auto simp: pool_inv_def)
qed

lemma pool_inv_pop:
  assumes inv: "pool_inv m n p" and i: "i < length (threads p)" "threads p ! i = Popping"
    and q: "pop (tasks p) = Some (Some fn, q)"
    and cs: "notify_one is_push_waiting wake_caller (callers p) cs"
  shows "pool_inv m n (p\<lparr>tasks := q, threads := (threads p)[i := Working fn], callers := cs,
                         started := started p @ [fn]\<rparr>)"
proof -
  note d = pool_invD[OF inv]
  have q': "tq_queue (tasks p) = fn # tq_queue q" "max_size q = m" "running q"
    using tq.pp_takes[OF d(1) q] d(2) by auto
  have "PopWaiting \<in> set ((threads p)[i := Working fn]) \<Longrightarrow> PopWaiting \<in> set (threads p)"
    "Exited \<notin> set ((threads p)[i := Working fn])"
    using d(4) by (auto dest: set_update_mem)
  then show ?thesis
    using q' d notify_caller[OF cs] count_update[OF i(1), of popping "Working fn"] i(2)
    by (auto simp: pool_inv_def)
qed

lemma pool_inv_thread:
  assumes inv: "pool_inv m n p" and i: "i < length (threads p)" and w: "w \<noteq> Exited"
    and "w \<noteq> PopWaiting \<or> tq_queue (tasks p) = []" and "threads p ! i = Popping \<longrightarrow> w = Popping \<or> tq_queue (tasks p) = []"
  shows "pool_inv m n (p\<lparr>threads := (threads p)[i := w]\<rparr>)"
proof -
  note d = pool_invD[OF inv]
  have "Exited \<notin> set ((threads p)[i := w])" using d(4) w by (auto dest: set_update_mem)
  moreover have "PopWaiting \<in> set ((threads p)[i := w]) \<Longrightarrow> w = PopWaiting \<or> PopWaiting \<in> set (threads p)"
    by (auto dest: set_update_mem)
  ultimately show ?thesis
    using assms d count_update[OF i, of popping w] by (auto simp: pool_inv_def of_bool_def split: if_splits)
qed

lemma pool_inv_caller:
  assumes inv: "pool_inv m n p" and j: "j < length (callers p)"
    and "\<not> is_push_waiting c \<or> length (tq_queue (tasks p)) = m"
    and "is_pushing (callers p ! j) \<longrightarrow> is_pushing c \<or> length (tq_queue (tasks p)) = m"
  shows "pool_inv m n (p\<lparr>callers := (callers p)[j := c]\<rparr>)"
proof -
  note d = pool_invD[OF inv]
  have "push_waiters ((callers p)[j := c]) \<Longrightarrow> is_push_waiting c \<or> push_waiters (callers p)"
    by (auto simp: push_waiters_def dest: set_update_mem)
  then show ?thesis
    using assms d count_update[OF j, of is_pushing c] by (auto simp: pool_inv_def of_bool_def split: if_splits)
qed

lemma pool_inv_step: "pool_step p p' \<Longrightarrow> pool_inv m n p \<Longrightarrow> pool_inv m n p'"
proof (induction rule: pool_step.induct)
  case (push_block j p fn)
  have "length (tq_queue (tasks p)) = m"
    using push_block pool_invD[OF push_block.prems] tq.ps_blocks[of "tasks p" fn] by simp
  with push_block show ?case by (auto intro: pool_inv_caller)
next
  case (push_false j p fn q)
  then show ?case using tq.ps_adds[OF pool_invD(1)[OF push_false.prems]] by blast
next
  case (pop_block i p)
  have "tq_queue (tasks p) = []"
    using pop_block pool_invD[OF pop_block.prems] tq.pp_blocks[of "tasks p"] by simp
  with pop_block show ?case by (auto intro: pool_inv_thread)
next
  case (pop_null i p q)
  then show ?case using tq.pp_takes[OF pool_invD(1)[OF pop_null.prems]] by blast
next
  case (spurious_worker i p)
  then show ?case using pool_invD(4)[OF spurious_worker(2)] by (intro pool_inv_thread) (auto simp: in_set_conv_nth)
next
  case (spurious_caller j p)
  then show ?case by (intro pool_inv_caller) auto
next
  case (shutdown p)
  then show ?case by (auto simp: pool_inv_def)
next
  case (join p k)
  then show ?case using pool_invD(4)[OF join(4)] by (auto simp: in_set_conv_nth)
next
  case (destroyed p k)
  then show ?case by (auto simp: pool_inv_def)
next
  case (submit p fn)
  then show ?case by (auto simp: pool_inv_def)
next
  case (task_done i p fn)
  then show ?case by (auto intro: pool_inv_thread)
qed (auto intro: pool_inv_push pool_inv_pop)

lemma pool_inv_steps: "pool_steps p p' \<Longrightarrow> pool_inv m n p \<Longrightarrow> pool_inv m n p'"
  by (induction rule: rtranclp_induct) (auto intro: pool_inv_step)

lemma pool_inv_reachable: "pool_steps (new_pool m n) p \<Longrightarrow> pool_inv m n p"
  using pool_inv_steps pool_inv_new by blast

section \<open>Progress\<close>

text \<open>The tasks of calls of \<open>submit\<close> that have not returned.\<close>

fun pend :: "'a cstate \<Rightarrow> 'a list" where
  "pend (Pushing fn) = [fn]" | "pend (PushWaiting fn) = [fn]" | "pend (Pushed b) = []"

definition pending :: "'a cstate list \<Rightarrow> 'a list" where
  "pending cs = concat (map pend cs)"

lemma pend_wake [simp]: "pend (wake_caller c) = pend c"
  by (cases c) auto

lemma pending_notify: "notify_one wt wake_caller cs cs' \<Longrightarrow> pending cs' = pending cs"
  by (auto simp: notify_one_def pending_def map_update split: if_splits)
    (metis list_update_id map_update nth_map pend_wake)

lemma pending_update:
  "j < length cs \<Longrightarrow> mset (pending (cs[j := c])) + mset (pend (cs ! j)) = mset (pending cs) + mset (pend c)"
  unfolding pending_def
proof (induction cs arbitrary: j)
  case (Cons a cs)
  then show ?case by (cases j) auto
qed simp

lemma notify_one_ex: "\<exists>ts'. notify_one wt wk ts ts'"
proof (cases "\<exists>t \<in> set ts. wt t")
  case True
  then obtain i where "i < length ts" "wt (ts ! i)" by (auto simp: in_set_conv_nth)
  with True show ?thesis unfolding notify_one_def by auto
qed (simp add: notify_one_def)

lemma ready_worker:
  assumes inv: "pool_inv m n p" and n: "0 < n" and q: "tq_queue (tasks p) \<noteq> []"
  shows "\<exists>ts i. pool_steps p (p\<lparr>threads := ts\<rparr>) \<and> i < length ts \<and> ts ! i = Popping"
proof (cases "Popping \<in> set (threads p)")
  case True
  then obtain i where "i < length (threads p)" "threads p ! i = Popping" by (auto simp: in_set_conv_nth)
  then show ?thesis by (intro exI[of _ "threads p"]) auto
next
  case False
  then have "count_if popping (threads p) = 0" by (auto simp: filter_empty_conv)
  then have "PopWaiting \<notin> set (threads p)" using pool_invD(7)[OF inv] q by auto
  moreover have z: "0 < length (threads p)" using pool_invD(3)[OF inv] n by simp
  moreover have "threads p ! 0 \<in> set (threads p)" using z by simp
  ultimately obtain fn where "threads p ! 0 = Working fn"
    using False pool_invD(4)[OF inv] by (metis wstate.exhaust)
  with z have "pool_step p (p\<lparr>threads := (threads p)[0 := Popping]\<rparr>)" by (rule task_done)
  with z show ?thesis by (intro exI[of _ "(threads p)[0 := Popping]"] exI[of _ 0]) auto
qed

lemma pop_one:
  assumes inv: "pool_inv m n p" and n: "0 < n" and q: "tq_queue (tasks p) = fn # r"
  shows "\<exists>p'. pool_steps p p' \<and> tq_queue (tasks p') = r \<and> accepted p' = accepted p \<and>
    pending (callers p') = pending (callers p)"
proof -
  from ready_worker[OF inv n] q obtain ts i where
    ts: "pool_steps p (p\<lparr>threads := ts\<rparr>)" "i < length ts" "ts ! i = Popping" by auto
  let ?p = "p\<lparr>threads := ts\<rparr>" and ?q = "(tasks p)\<lparr>tq_queue := r\<rparr>"
  obtain cs where cs: "notify_one is_push_waiting wake_caller (callers ?p) cs" using notify_one_ex by blast
  have "pop (tasks ?p) = Some (Some fn, ?q)" using q by (simp add: pop_def)
  from pop_task[OF _ _ this cs, of i] ts
  have "pool_step ?p (?p\<lparr>tasks := ?q, threads := ts[i := Working fn], callers := cs,
                         started := started p @ [fn]\<rparr>)" by simp
  with ts(1) have "pool_steps p (?p\<lparr>tasks := ?q, threads := ts[i := Working fn], callers := cs,
                         started := started p @ [fn]\<rparr>)" by (rule rtranclp.rtrancl_into_rtrancl)
  then show ?thesis using pending_notify[OF cs]
    by (intro exI[of _ "?p\<lparr>tasks := ?q, threads := ts[i := Working fn], callers := cs,
                         started := started p @ [fn]\<rparr>"]) auto
qed

lemma drain:
  assumes "pool_inv m n p" "0 < n"
  shows "\<exists>p'. pool_steps p p' \<and> tq_queue (tasks p') = [] \<and> accepted p' = accepted p \<and>
    pending (callers p') = pending (callers p)"
  using assms(1)
proof (induction "tq_queue (tasks p)" arbitrary: p)
  case (Cons fn r)
  then obtain p' where p': "pool_steps p p'" "tq_queue (tasks p') = r" "accepted p' = accepted p"
    "pending (callers p') = pending (callers p)"
    using pop_one[OF _ assms(2), of m p fn r] by metis
  with Cons.hyps(1)[of p'] Cons.prems pool_inv_steps
  show ?case by (metis rtranclp_trans)
qed (metis rtranclp.rtrancl_refl)

lemma push_one:
  assumes inv: "pool_inv m n p" and m: "0 < m" and q: "tq_queue (tasks p) = []" and c: "pending (callers p) \<noteq> []"
  shows "\<exists>p' fn. pool_step p p' \<and> accepted p' = accepted p @ [fn] \<and>
    mset (pending (callers p)) = add_mset fn (mset (pending (callers p')))"
proof -
  have "Bex (set (callers p)) is_pushing"
  proof (rule ccontr)
    assume no: "\<not> ?thesis"
    then have "count_if is_pushing (callers p) = 0" by (auto simp: filter_empty_conv)
    then have "\<not> push_waiters (callers p)" using pool_invD(8)[OF inv] q m by auto
    with no have "\<forall>c \<in> set (callers p). pend c = []"
      unfolding push_waiters_def by (metis is_push_waiting.simps(1) is_pushing.simps(1) pend.elims)
    with c show False by (simp add: pending_def)
  qed
  then obtain j fn where j: "j < length (callers p)" "callers p ! j = Pushing fn"
    by (metis in_set_conv_nth is_pushing.elims(2))
  obtain ts where ts: "notify_one (\<lambda>w. w = PopWaiting) wake_worker (threads p) ts" using notify_one_ex by blast
  have "push fn (tasks p) = Some (True, (tasks p)\<lparr>tq_queue := [fn]\<rparr>)"
    using q m pool_invD(1,2)[OF inv] by (simp add: push_def)
  from push_true[OF j this ts] show ?thesis
    using pending_update[OF j(1), of "Pushed True"] j(2) by fastforce
qed

lemma finish_all:
  assumes "pool_inv m n p" "0 < n" "0 < m"
  shows "\<exists>p'. pool_steps p p' \<and> tq_queue (tasks p') = [] \<and> pending (callers p') = [] \<and>
    mset (accepted p') = mset (accepted p) + mset (pending (callers p))"
  using assms(1)
proof (induction "length (pending (callers p))" arbitrary: p rule: less_induct)
  case less
  obtain p1 where p1: "pool_steps p p1" "tq_queue (tasks p1) = []" "accepted p1 = accepted p"
    "pending (callers p1) = pending (callers p)"
    using drain[OF less.prems assms(2)] by blast
  have inv1: "pool_inv m n p1" using pool_inv_steps p1(1) less.prems by blast
  show ?case
  proof (cases "pending (callers p) = []")
    case True
    with p1 show ?thesis by (intro exI[of _ p1]) auto
  next
    case False
    then obtain p2 fn where p2: "pool_step p1 p2" "accepted p2 = accepted p @ [fn]"
      "mset (pending (callers p)) = add_mset fn (mset (pending (callers p2)))"
      using push_one[OF inv1 assms(3) p1(2)] p1(3,4) by metis
    have "length (pending (callers p2)) < length (pending (callers p))"
      using arg_cong[OF p2(3), of size] by simp
    from less.hyps[OF this pool_inv_step[OF p2(1) inv1]] obtain p3 where p3: "pool_steps p2 p3"
      "tq_queue (tasks p3) = []" "pending (callers p3) = []"
      "mset (accepted p3) = mset (accepted p2) + mset (pending (callers p2))" by blast
    have "pool_steps p p3" using p1(1) p2(1) p3(1) by (metis converse_rtranclp_into_rtranclp rtranclp_trans)
    with p3 p2(2,3) show ?thesis by (intro exI[of _ p3]) simp
  qed
qed

section \<open>Properties\<close>

text \<open>
  C15. The task queue is first-in first-out and bounded: over any sequence of calls on a running
  queue, what was taken, followed by what is left, is what was there, followed by what was accepted;
  and no more than the maximum is ever held.
\<close>
theorem task_queue_fifo:
  assumes "running q" and "length (tq_queue q) \<le> max_size q" and "run_ops push pop ops q = (ins, outs, r)"
  shows "tq_queue q @ ins = outs @ tq_queue r \<and> length (tq_queue r) \<le> max_size q"
  using tq.run_fifo[OF assms] by simp

theorem task_queue_fifo_witness:
  "run_ops push pop [Push 1, Push 2, Pop, Push (3 :: nat)] (new_queue 1) =
     ([1, 3], [1], \<lparr>tq_queue = [3], running = True, max_size = 1\<rparr>) \<and>
   tq_queue (new_queue 1) @ [1, 3 :: nat] = [1] @ [3]"
proof -
  have "run_ops push pop [Push 1, Push 2, Pop, Push (3 :: nat)] (new_queue 1) =
     ([1, 3], [1], \<lparr>tq_queue = [3], running = True, max_size = 1\<rparr>)"
    by (simp add: push_def pop_def new_queue_def)
  moreover have "running (new_queue 1 :: nat task_queue)" "length (tq_queue (new_queue 1 :: nat task_queue)) \<le> max_size (new_queue 1 :: nat task_queue)"
    by (simp_all add: new_queue_def)
  ultimately show ?thesis using task_queue_fifo[of "new_queue 1" "[Push 1, Push 2, Pop, Push (3 :: nat)]"] by simp
qed

text \<open>
  C10. Safety of the worker pool in every interleaving: the tasks begun are, in order, an initial part
  of the tasks accepted, the rest is exactly the queue, the queue never exceeds its bound; and no
  wake-up is lost: while a task is queued some worker is not asleep, and while there is room, a
  sleeping caller implies one that is awake.
\<close>
theorem pool_safe:
  assumes "pool_steps (new_pool m n) p"
  shows "accepted p = started p @ tq_queue (tasks p) \<and> length (tq_queue (tasks p)) \<le> m \<and>
    (0 < n \<and> tq_queue (tasks p) \<noteq> [] \<longrightarrow> (\<exists>w \<in> set (threads p). w \<noteq> PopWaiting)) \<and>
    (length (tq_queue (tasks p)) < m \<and> push_waiters (callers p) \<longrightarrow> (\<exists>c \<in> set (callers p). is_pushing c))"
proof -
  note d = pool_invD[OF pool_inv_reachable[OF assms]]
  have "\<exists>w \<in> set (threads p). w \<noteq> PopWaiting" if "0 < n" "tq_queue (tasks p) \<noteq> []"
  proof (rule ccontr)
    assume all: "\<not> ?thesis"
    then have "count_if popping (threads p) = 0" by (auto simp: filter_empty_conv)
    moreover have "PopWaiting \<in> set (threads p)" using all that(1) d(3) by (metis length_greater_0_conv list.set_sel(1))
    ultimately show False using d(7) that(2) by simp
  qed
  moreover have "\<exists>c \<in> set (callers p). is_pushing c" if "length (tq_queue (tasks p)) < m" "push_waiters (callers p)"
  proof -
    have "0 < count_if is_pushing (callers p)" using d(8)[OF that(2)] that(1) by linarith
    then show ?thesis by (auto simp: filter_empty_conv)
  qed
  ultimately show ?thesis using d(5,6) by blast
qed

theorem pool_safe_witness:
  "length (tq_queue (tasks (new_pool 4 1 :: nat pool))) \<le> 4"
  using pool_safe[of 4 1 "new_pool 4 1 :: nat pool"] by simp

text \<open>
  C11. Progress of the worker pool: whatever has happened, with at least one worker and room for one
  task, the pool can go on to a state in which every call of \<open>submit\<close> has returned and every task
  accepted before or still being submitted has been started exactly once.
\<close>
theorem pool_can_finish:
  assumes "pool_steps (new_pool m n) p" and "0 < n" and "0 < m"
  shows "\<exists>p'. pool_steps p p' \<and> pending (callers p') = [] \<and>
    mset (started p') = mset (accepted p) + mset (pending (callers p))"
proof -
  have inv: "pool_inv m n p" by (rule pool_inv_reachable[OF assms(1)])
  from finish_all[OF inv assms(2,3)] obtain p' where p': "pool_steps p p'" "tq_queue (tasks p') = []"
    "pending (callers p') = []" "mset (accepted p') = mset (accepted p) + mset (pending (callers p))" by blast
  moreover have "accepted p' = started p'"
    using pool_invD(5)[OF pool_inv_steps[OF p'(1) inv]] p'(2) by simp
  ultimately show ?thesis by metis
qed

theorem pool_can_finish_witness:
  "\<exists>p'. pool_steps ((new_pool 4 1)\<lparr>callers := [Pushing (7 :: nat)]\<rparr>) p' \<and> pending (callers p') = [] \<and>
    mset (started p') = {#7#}"
proof -
  have "pool_step (new_pool 4 1) ((new_pool 4 1)\<lparr>callers := [Pushing (7 :: nat)]\<rparr>)"
    using submit[of "new_pool 4 1" "7 :: nat"] by (simp add: new_pool_def)
  then have "pool_steps (new_pool 4 1) ((new_pool 4 1)\<lparr>callers := [Pushing (7 :: nat)]\<rparr>)" by blast
  from pool_can_finish[OF this] show ?thesis by (simp add: new_pool_def pending_def)
qed

text \<open>
  C16. The destructor of a pool with at least one thread never returns: \<open>shutdown\<close> wakes the workers but
  leaves \<open>running\<close> set, so \<open>pop\<close> never gives a null task, no thread leaves its loop, and the first
  \<open>join\<close> waits for ever.
\<close>
theorem pool_never_destroyed:
  assumes "pool_steps (new_pool m n) p" and "0 < n"
  shows "dtor p \<noteq> Destroyed \<and> dtor p \<noteq> Joining 1 \<and> Exited \<notin> set (threads p)"
  using pool_invD(4,9)[OF pool_inv_reachable[OF assms(1)]] assms(2) by auto

theorem pool_never_destroyed_witness:
  "Exited \<notin> set (threads ((new_pool 4 1 :: nat pool)\<lparr>dtor := Joining 0\<rparr>))"
proof -
  have "pool_step (new_pool 4 1 :: nat pool) ((new_pool 4 1)\<lparr>dtor := Joining 0\<rparr>)"
    using shutdown[of "new_pool 4 1 :: nat pool"] by (simp add: new_pool_def)
  then have "pool_steps (new_pool 4 1 :: nat pool) ((new_pool 4 1)\<lparr>dtor := Joining 0\<rparr>)" by blast
  from pool_never_destroyed[OF this] show ?thesis by simp
qed

end
