(* ===== verification/Codec.thy ===== *)
theory Codec
  imports World
begin

text \<open>
  \<^verbatim>\<open>backend/src/codec/codec.cpp\<close>: recompression of images (libvips) and videos (an \<^verbatim>\<open>ffmpeg\<close> child
  process behind two pipes). The image library is a parameter (record \<open>vips\<close>), the child process is
  the \<open>spawn\<close> field of the environment; the choice of encoder options, the plumbing of the pipes and
  the decision which data to keep are the code's own.
\<close>

record codec_result =
  ok :: bool
  data :: string
  error :: string

definition no_result :: codec_result where
  "no_result = \<lparr>ok = False, data = [], error = []\<rparr>"

section \<open>Images\<close>

text \<open>Each call of the library gives a value or the text of a \<^verbatim>\<open>vips::VError\<close>; a scale is a quotient.\<close>

record 'i vips =
  new_from_buffer :: "string \<Rightarrow> string + 'i"
  width :: "'i \<Rightarrow> int"
  height :: "'i \<Rightarrow> int"
  resize :: "'i \<Rightarrow> int \<times> int \<Rightarrow> string + 'i"
  write_to_buffer :: "'i \<Rightarrow> string \<Rightarrow> string + string"

definition JPG_QUALITY :: int where "JPG_QUALITY = 60"
definition WEBP_QUALITY :: int where "WEBP_QUALITY = 70"
definition GIF_QUALITY :: int where "GIF_QUALITY = 65"

definition q_suffix :: "string \<Rightarrow> int \<Rightarrow> int \<Rightarrow> string" where
  "q_suffix fmt dflt q = fmt @ ''[Q='' @ to_string (if q > 0 then q else dflt) @ '',strip]''"

definition kSuffixBuilders :: "(string \<times> (int \<Rightarrow> string)) list" where
  "kSuffixBuilders =
     [(''png'', \<lambda>q. ''.png[compression=9,strip]''),
      (''webp'', q_suffix ''.webp'' WEBP_QUALITY),
      (''jpg'', q_suffix ''.jpg'' JPG_QUALITY),
      (''jpeg'', q_suffix ''.jpg'' JPG_QUALITY),
      (''gif'', q_suffix ''.webp'' GIF_QUALITY),
      (''avif'', q_suffix ''.avif'' WEBP_QUALITY),
      (''heic'', q_suffix ''.jpg'' JPG_QUALITY),
      (''bmp'', q_suffix ''.jpg'' JPG_QUALITY),
      (''tiff'', q_suffix ''.jpg'' JPG_QUALITY)]"

definition image_suffix :: "string \<Rightarrow> int \<Rightarrow> string" where
  "image_suffix ext quality =
     (case map_of kSuffixBuilders ext of
        Some f \<Rightarrow> f quality
      | None \<Rightarrow> ''.jpg[Q='' @ to_string JPG_QUALITY @ '',strip]'')"

definition compressImage :: "'i vips \<Rightarrow> string \<Rightarrow> string \<Rightarrow> int \<Rightarrow> int \<Rightarrow> codec_result" where
  "compressImage V input ext quality maxDimension =
     (case
        sum_bind (new_from_buffer V input) (\<lambda>img.
        sum_bind
          (if width V img > maxDimension \<or> height V img > maxDimension
           then resize V img (maxDimension, max (width V img) (height V img))
           else Inr img) (\<lambda>img'.
        write_to_buffer V img' (c_str (image_suffix ext quality))))
      of
        Inl e \<Rightarrow> no_result\<lparr>error := e\<rparr>
      | Inr buf \<Rightarrow>
          if length buf < length input then no_result\<lparr>ok := True, data := buf\<rparr>
          else no_result\<lparr>ok := True, data := input\<rparr>)"

section \<open>Videos, the Windows variant\<close>

text \<open>
  (When the exit code cannot be read it stays 1, its initial value.)

  The four handles of the two pipes. Both pipes are made inheritable and the two write ends are
  then taken out of inheritance; the child is given the read ends as its standard input and output.
\<close>

datatype handle = ChildStdinRead | ChildStdinWrite | ChildStdoutRead | ChildStdoutWrite

fun inheritable :: "handle \<Rightarrow> bool" where
  "inheritable ChildStdinRead = True"
| "inheritable ChildStdinWrite = False"
| "inheritable ChildStdoutRead = True"
| "inheritable ChildStdoutWrite = False"

record startup_info =
  hStdInput :: handle
  hStdOutput :: handle

definition win_startup :: startup_info where
  "win_startup = \<lparr>hStdInput = ChildStdinRead, hStdOutput = ChildStdoutRead\<rparr>"

text \<open>
  What the parent reads from \<^verbatim>\<open>childStdoutRead\<close> after it has closed its own write end: the bytes the
  child writes, if the child's output is an inherited write end of this pipe; otherwise the pipe has
  no writer left and the first \<^verbatim>\<open>ReadFile\<close> fails.
\<close>

definition parent_reads :: "startup_info \<Rightarrow> string \<Rightarrow> string" where
  "parent_reads si written =
     (if hStdOutput si = ChildStdoutWrite \<and> inheritable ChildStdoutWrite then written else [])"

definition quote_arg :: "string \<Rightarrow> string" where
  "quote_arg a = (if CHR '' '' \<in> set a then CHR 0x22 # a @ [CHR 0x22] else a)"

definition win_cmdline :: "string list \<Rightarrow> string" where
  "win_cmdline args = foldl (\<lambda>acc a. acc @ '' '' @ quote_arg a) ''ffmpeg.exe'' args"

definition runffmpegpipe_win :: "env \<Rightarrow> string \<Rightarrow> string list \<Rightarrow> ('z world_scheme, codec_result) act" where
  "runffmpegpipe_win E input args =
     bnd (ask (\<lambda>h. spawn E h (win_cmdline args) [] input) (EvFork (win_cmdline args) [] input)) (\<lambda>r.
       ret (case r of
         InPipeFail \<Rightarrow> no_result\<lparr>error := ''Falha ao criar pipe stdin''\<rparr>
       | OutPipeFail \<Rightarrow> no_result\<lparr>error := ''Falha ao criar pipe stdout''\<rparr>
       | StartFail \<Rightarrow> no_result\<lparr>error := ''Falha ao iniciar o ffmpeg.exe''\<rparr>
       | ProcKilled out \<Rightarrow> no_result\<lparr>error := ''ffmpeg falhou (exit 1).''\<rparr>
       | ProcExit code out \<Rightarrow>
           (let exitCode = (word_of_int code :: u32); output = parent_reads win_startup out in
            if exitCode = 0 \<and> output \<noteq> []
            then no_result\<lparr>ok := True, data := (if length output > length input then input else output)\<rparr>
            else no_result\<lparr>error := ''ffmpeg falhou (exit '' @ to_string (uint exitCode) @ '').''\<rparr>)))"

section \<open>Videos, the POSIX variant\<close>

definition runffmpegpipe_posix :: "env \<Rightarrow> string \<Rightarrow> string list \<Rightarrow> ('z world_scheme, codec_result) act" where
  "runffmpegpipe_posix E input args =
     bnd (ask (\<lambda>h. spawn E h ''ffmpeg'' (map c_str args) input) (EvFork ''ffmpeg'' (map c_str args) input)) (\<lambda>r.
       ret (case r of
         InPipeFail \<Rightarrow> no_result\<lparr>error := ''Falha ao criar pipes.''\<rparr>
       | OutPipeFail \<Rightarrow> no_result\<lparr>error := ''Falha ao criar pipes.''\<rparr>
       | StartFail \<Rightarrow> no_result\<lparr>error := ''Falha ao criar processo ffmpeg.''\<rparr>
       | ProcKilled out \<Rightarrow> no_result\<lparr>error := ''ffmpeg falhou (exit '' @ to_string (-1) @ '').''\<rparr>
       | ProcExit code output \<Rightarrow>
           (if code = 0 \<and> output \<noteq> [] then no_result\<lparr>ok := True, data := output\<rparr>
            else no_result\<lparr>error := ''ffmpeg falhou (exit '' @ to_string code @ '').''\<rparr>)))"

definition video_args :: "int \<Rightarrow> int \<Rightarrow> string list" where
  "video_args crf maxHeight =
     [''-y'', ''-i'', ''pipe:0'', ''-vf'',
      ''scale=-2:'' @ [CHR 0x27] @ ''min('' @ to_string maxHeight @ '',ih)'' @ [CHR 0x27],
      ''-c:v'', ''libx264'', ''-crf'', to_string crf, ''-preset'', ''veryfast'',
      ''-c:a'', ''aac'', ''-b:a'', ''96k'', ''-movflags'',
      ''frag_keyframe+empty_moov+default_base_moof'', ''-f'', ''mp4'', ''pipe:1'']"

text \<open>The build is for Windows: the file includes \<^verbatim>\<open>handleapi.h\<close> on every platform.\<close>

definition compressVideo :: "env \<Rightarrow> string \<Rightarrow> int \<Rightarrow> int \<Rightarrow> ('z world_scheme, codec_result) act" where
  "compressVideo E input crf maxHeight = runffmpegpipe_win E input (video_args crf maxHeight)"

section \<open>Lemmas\<close>

lemma to_string_no_space: "CHR '' '' \<notin> set (to_string i)"
proof -
  have "CHR '' '' \<notin> set (nat_to_string n)" for n
    using nat_to_string_digits[of n] by (auto simp: isdigit_def)
  then show ?thesis by (simp add: to_string_def)
qed

lemma win_cmdline_plain:
  "\<forall>a \<in> set args. CHR '' '' \<notin> set a \<Longrightarrow> win_cmdline args = ''ffmpeg.exe'' @ concat (map (\<lambda>a. CHR '' '' # a) args)"
proof -
  have "foldl (\<lambda>acc a. acc @ '' '' @ quote_arg a) s args = s @ concat (map (\<lambda>a. CHR '' '' # a) args)"
    if "\<forall>a \<in> set args. CHR '' '' \<notin> set a" for s
    using that by (induction args arbitrary: s) (auto simp: quote_arg_def)
  then show "\<forall>a \<in> set args. CHR '' '' \<notin> set a \<Longrightarrow> ?thesis" by (simp add: win_cmdline_def)
qed

lemma video_args_plain: "\<forall>a \<in> set (video_args crf h). CHR '' '' \<notin> set a"
  by (simp add: video_args_def to_string_no_space)

lemma emits_runffmpegpipe_win [emits]:
  "(\<And>c. A (EvFork c [] input)) \<Longrightarrow> emits A (runffmpegpipe_win E input args)"
  unfolding runffmpegpipe_win_def by (intro emits) auto

lemma emits_compressVideo [emits]:
  "(\<And>c. A (EvFork c [] input)) \<Longrightarrow> emits A (compressVideo E input crf h)"
  unfolding compressVideo_def by (intro emits) auto

lemma compressImage_cases:
  "(ok (compressImage V input ext q d) \<and> length (data (compressImage V input ext q d)) \<le> length input) \<or>
   (\<not> ok (compressImage V input ext q d) \<and> data (compressImage V input ext q d) = [])"
  by (auto simp: compressImage_def no_result_def split: sum.splits)

lemma runffmpegpipe_win_fails:
  "\<exists>r. runffmpegpipe_win E input args s =
     (Inr r, s\<lparr>trace := EvFork (win_cmdline args) [] input # trace s\<rparr>) \<and> \<not> ok r \<and> data r = []"
  by (auto simp: runffmpegpipe_win_def bnd_def parent_reads_def win_startup_def no_result_def Let_def
      split: proc_result.splits)

text \<open>An image library that halves its input, for concrete examples.\<close>

definition halving_vips :: "string vips" where
  "halving_vips = \<lparr>new_from_buffer = Inr, width = int \<circ> length, height = (\<lambda>i. 1),
     resize = (\<lambda>i sc. Inr (take (nat (fst sc)) i)),
     write_to_buffer = (\<lambda>i suffix. Inr (take (length i div 2) i))\<rparr>"

section \<open>Properties\<close>

text \<open>
  Image compression never makes data larger: a result is either good and no longer than the
  input, or an error of the image library and no data; when the encoder's output is not smaller, the
  input itself is returned.
\<close>
theorem compressImage_never_larger:
  "let r = compressImage V input ext quality maxDimension in
     (if ok r then length (data r) \<le> length input \<and> error r = [] \<and>
        (length (data r) = length input \<longrightarrow> data r = input)
      else data r = [])"
  by (auto simp: compressImage_def no_result_def Let_def split: sum.splits)

theorem compressImage_never_larger_witness:
  "length (data (compressImage halving_vips ''abcd'' ''png'' 0 1920)) \<le> length ''abcd'' \<and>
   data (compressImage halving_vips ''abcd'' ''png'' 0 1920) = ''ab''"
proof -
  have "ok (compressImage halving_vips ''abcd'' ''png'' 0 1920)"
    "data (compressImage halving_vips ''abcd'' ''png'' 0 1920) = ''ab''"
    by (simp_all add: compressImage_def sum_bind_def halving_vips_def no_result_def)
  then show ?thesis
    using compressImage_never_larger[of halving_vips "''abcd''" "''png''" 0 1920] by (simp add: Let_def)
qed

text \<open>
  C36. Video compression as built for Windows never succeeds, whatever \<^verbatim>\<open>ffmpeg\<close> does: the child is
  handed the \<^emph>\<open>read\<close> end of the output pipe, so the parent reads nothing and reports a failure. One
  process is started all the same.
\<close>
theorem compressVideo_never_ok:
  "\<exists>r. compressVideo E input crf maxHeight s =
     (Inr r, s\<lparr>trace := EvFork (win_cmdline (video_args crf maxHeight)) [] input # trace s\<rparr>)
   \<and> \<not> ok r \<and> data r = [] \<and> error r \<noteq> []"
  by (auto simp: compressVideo_def runffmpegpipe_win_def bnd_def parent_reads_def win_startup_def
      no_result_def Let_def split: proc_result.splits)

end
