(* ===== verification/Cache.thy ===== *)
theory Cache
  imports World
begin

text \<open>
  \<^verbatim>\<open>backend/src/cache/cache.h\<close>: the Redis-backed cache. Redis is part of the environment; the commands
  sent, the reading of replies, the key scheme and the invalidation helpers are the code's own.
\<close>

section \<open>State and commands\<close>

definition CACHE_TTL_POST :: int where "CACHE_TTL_POST = 300"
definition CACHE_TTL_USER :: int where "CACHE_TTL_USER = 600"
definition CACHE_TTL_FEED :: int where "CACHE_TTL_FEED = 30"
definition CACHE_TTL_LIKE :: int where "CACHE_TTL_LIKE = 300"
definition CACHE_TTL_POST_COUNT :: int where "CACHE_TTL_POST_COUNT = 300"

record cache_world = world +
  redis_ptr :: bool       \<comment> \<open>\<^verbatim>\<open>redis_\<close> is not null\<close>
  connected :: bool

definition redis :: "env \<Rightarrow> redis_cmd \<Rightarrow> ('z world_scheme, int \<times> resp option) act" where
  "redis E c = ask (\<lambda>h. redis_request E h c) (EvRedis c)"

definition cache_init :: "env \<Rightarrow> string \<Rightarrow> ('z cache_world_scheme, bool) act" where
  "cache_init E url =
     bnd (ask (\<lambda>h. redis_connect E h (c_str url)) (EvRedisConnect (c_str url))) (\<lambda>r.
       case r of
         None \<Rightarrow> bnd (modify (\<lambda>s. s\<lparr>redis_ptr := False\<rparr>)) (\<lambda>_. ret False)
       | Some status \<Rightarrow>
           bnd (modify (\<lambda>s. s\<lparr>redis_ptr := True, connected := (status = 0)\<rparr>)) (\<lambda>_. ret (status = 0)))"

definition is_connected :: "('z cache_world_scheme, bool) act" where
  "is_connected = gets connected"

text \<open>The early return of every operation.\<close>

definition if_connected :: "'a \<Rightarrow> ('z cache_world_scheme, 'a) act \<Rightarrow> ('z cache_world_scheme, 'a) act" where
  "if_connected d m = bnd is_connected (\<lambda>c. if \<not> c then ret d else m)"

definition cache_set :: "env \<Rightarrow> string \<Rightarrow> string \<Rightarrow> int \<Rightarrow> ('z cache_world_scheme, bool) act" where
  "cache_set E key value ttl_seconds =
     if_connected False
       (if ttl_seconds > 0
        then bnd (redis E (RSetex (c_str key) (to_string ttl_seconds) (c_str value))) (\<lambda>(status, resp). ret (status = 0))
        else bnd (redis E (RSet (c_str key) (c_str value))) (\<lambda>(status, resp). ret (status = 0)))"

definition cache_set_int :: "env \<Rightarrow> string \<Rightarrow> int \<Rightarrow> int \<Rightarrow> ('z cache_world_scheme, bool) act" where
  "cache_set_int E key value ttl_seconds = cache_set E key (to_string value) ttl_seconds"

definition set_json :: "env \<Rightarrow> string \<Rightarrow> json \<Rightarrow> int \<Rightarrow> ('z cache_world_scheme, bool) act" where
  "set_json E key value ttl_seconds =
     bnd (of_sum (dump E value)) (\<lambda>t. cache_set E key t ttl_seconds)"

definition cache_get :: "env \<Rightarrow> string \<Rightarrow> ('z cache_world_scheme, string) act" where
  "cache_get E key =
     if_connected []
       (bnd (redis E (RGet (c_str key))) (\<lambda>(status, resp).
          ret (if status \<noteq> 0 then []
               else case resp of
                 Some (RespBulk v) \<Rightarrow> (case v of Some t \<Rightarrow> c_str t | None \<Rightarrow> [])
               | _ \<Rightarrow> [])))"

definition cache_get_int :: "env \<Rightarrow> string \<Rightarrow> int \<Rightarrow> ('z cache_world_scheme, int) act" where
  "cache_get_int E key default_value =
     bnd (cache_get E key) (\<lambda>val.
       if val = [] then ret default_value
       else try_catch (of_sum (map_sum StdError id (stoi val))) any_exn (\<lambda>e. ret default_value))"

definition get_json :: "env \<Rightarrow> string \<Rightarrow> ('z cache_world_scheme, json) act" where
  "get_json E key =
     bnd (cache_get E key) (\<lambda>val.
       if val = [] then ret JNull
       else try_catch (of_sum (parse_json E val)) any_exn (\<lambda>e. ret JNull))"

definition del :: "env \<Rightarrow> string \<Rightarrow> ('z cache_world_scheme, bool) act" where
  "del E key =
     if_connected False (bnd (redis E (RDel (c_str key))) (\<lambda>(status, resp). ret (status = 0)))"

definition del_pattern :: "env \<Rightarrow> string \<Rightarrow> ('z cache_world_scheme, bool) act" where
  "del_pattern E pattern =
     if_connected False
       (bnd (ask (\<lambda>h. redis_scan E h (c_str pattern)) (EvRedisScan (c_str pattern))) (\<lambda>keys.
          case keys of
            None \<Rightarrow> ret True
          | Some ks \<Rightarrow> bnd (mapA (\<lambda>k. redis E (RDel k)) ks) (\<lambda>_. ret True)))"

definition exists :: "env \<Rightarrow> string \<Rightarrow> ('z cache_world_scheme, bool) act" where
  "exists E key =
     if_connected False
       (bnd (redis E (RExists (c_str key))) (\<lambda>(status, resp).
          ret (status = 0 \<and> (case resp of Some (RespInt n) \<Rightarrow> n > 0 | _ \<Rightarrow> False))))"

section \<open>Keys\<close>

definition post_key :: "string \<Rightarrow> string" where
  "post_key i = ''post:'' @ i"

definition user_key :: "string \<Rightarrow> string" where
  "user_key i = ''user:'' @ i"

definition handle_key :: "string \<Rightarrow> string" where
  "handle_key handle = ''handleuser:'' @ handle"

definition feed_key :: "int \<Rightarrow> int \<Rightarrow> string" where
  "feed_key page limit = ''feed:'' @ to_string page @ '':'' @ to_string limit"

definition user_posts_key :: "string \<Rightarrow> int \<Rightarrow> int \<Rightarrow> string" where
  "user_posts_key user_id page limit =
     ''uposts:'' @ user_id @ '':'' @ to_string page @ '':'' @ to_string limit"

definition like_key :: "string \<Rightarrow> string \<Rightarrow> string" where
  "like_key user_id post_id = ''like:'' @ user_id @ '':'' @ post_id"

definition post_count_key :: "string \<Rightarrow> string" where
  "post_count_key user_id = ''pcount:'' @ user_id"

definition invalidate_post :: "env \<Rightarrow> string \<Rightarrow> ('z cache_world_scheme, bool) act" where
  "invalidate_post E i = del E (post_key i)"

definition invalidate_user :: "env \<Rightarrow> string \<Rightarrow> ('z cache_world_scheme, bool) act" where
  "invalidate_user E i = del E (user_key i)"

definition invalidate_feed :: "env \<Rightarrow> ('z cache_world_scheme, bool) act" where
  "invalidate_feed E = del_pattern E ''feed:*''"

definition invalidate_user_posts :: "env \<Rightarrow> string \<Rightarrow> ('z cache_world_scheme, bool) act" where
  "invalidate_user_posts E user_id = del_pattern E (''uposts:'' @ user_id @ '':*'')"

definition invalidate_like :: "env \<Rightarrow> string \<Rightarrow> string \<Rightarrow> ('z cache_world_scheme, bool) act" where
  "invalidate_like E user_id post_id = del E (like_key user_id post_id)"

definition invalidate_post_count :: "env \<Rightarrow> string \<Rightarrow> ('z cache_world_scheme, bool) act" where
  "invalidate_post_count E user_id = del E (post_count_key user_id)"

section \<open>The interface of a key space\<close>

text \<open>
  A family of keys under one name: the name is followed by a colon and an unambiguous rendering of
  the argument. Keys of one space are distinct, and spaces with different names do not meet.
\<close>

locale key_space =
  fixes ns :: string and key :: "'a \<Rightarrow> string" and dom_ok :: "'a \<Rightarrow> bool"
  assumes ns_plain: "CHR '':'' \<notin> set ns"
    and key_prefix: "starts_with (key x) (ns @ '':'')"
    and key_inj: "dom_ok x \<Longrightarrow> dom_ok y \<Longrightarrow> key x = key y \<Longrightarrow> x = y"
begin

lemma key_ns: "takeWhile (\<lambda>c. c \<noteq> CHR '':'') (key x) = ns"
proof -
  obtain r where r: "key x = ns @ CHR '':'' # r"
    using key_prefix[of x] by (auto simp: starts_with_iff)
  have "\<forall>c \<in> set ns. c \<noteq> CHR '':''" using ns_plain by auto
  then show ?thesis by (simp add: r takeWhile_append2 del: takeWhile_append1)
qed

lemma key_not_empty: "key x \<noteq> []"
  using key_prefix[of x] by (auto simp: starts_with_def)

lemma key_eq_iff: "dom_ok x \<Longrightarrow> dom_ok y \<Longrightarrow> key x = key y \<longleftrightarrow> x = y"
  using key_inj by blast

end

text \<open>Two texts joined by a colon, the second without one, can be told apart.\<close>

lemma colon_split_right:
  "CHR '':'' \<notin> set b \<Longrightarrow> CHR '':'' \<notin> set b' \<Longrightarrow> a @ CHR '':'' # b = a' @ CHR '':'' # b' \<Longrightarrow> a = a' \<and> b = b'"
proof -
  assume b: "CHR '':'' \<notin> set b" "CHR '':'' \<notin> set b'" and eq: "a @ CHR '':'' # b = a' @ CHR '':'' # b'"
  have "length a = length a'"
    using str_rfind_append[OF b(1), of a] str_rfind_append[OF b(2), of a'] eq by simp
  with eq show ?thesis by simp
qed

lemma colon_split_left:
  "CHR '':'' \<notin> set a \<Longrightarrow> CHR '':'' \<notin> set a' \<Longrightarrow> a @ CHR '':'' # b = a' @ CHR '':'' # b' \<Longrightarrow> a = a' \<and> b = b'"
proof -
  assume a: "CHR '':'' \<notin> set a" "CHR '':'' \<notin> set a'" and eq: "a @ CHR '':'' # b = a' @ CHR '':'' # b'"
  have "length a = length a'"
    using str_find_char[OF a(1), of b] str_find_char[OF a(2), of b'] eq by simp
  with eq show ?thesis by simp
qed

lemmas key_defs = post_key_def user_key_def handle_key_def feed_key_def user_posts_key_def
  like_key_def post_count_key_def

interpretation post_keys: key_space "''post''" post_key "\<lambda>x. True"
  by unfold_locales (auto simp: key_defs)

interpretation user_keys: key_space "''user''" user_key "\<lambda>x. True"
  by unfold_locales (auto simp: key_defs)

interpretation handle_keys: key_space "''handleuser''" handle_key "\<lambda>x. True"
  by unfold_locales (auto simp: key_defs)

interpretation count_keys: key_space "''pcount''" post_count_key "\<lambda>x. True"
  by unfold_locales (auto simp: key_defs)

interpretation feed_keys: key_space "''feed''" "\<lambda>(page, limit). feed_key page limit" "\<lambda>x. True"
proof unfold_locales
  show "starts_with (case x of (page, limit) \<Rightarrow> feed_key page limit) (''feed'' @ '':'')" for x
    by (auto simp: key_defs split: prod.splits)
qed (auto simp: key_defs dest!: colon_split_right[OF to_string_no_colon to_string_no_colon])

interpretation uposts_keys: key_space "''uposts''" "\<lambda>(u, page, limit). user_posts_key u page limit" "\<lambda>x. True"
proof unfold_locales
  fix x y :: "string \<times> int \<times> int"
  show "starts_with (case x of (u, page, limit) \<Rightarrow> user_posts_key u page limit) (''uposts'' @ '':'')"
    by (auto simp: key_defs split: prod.splits)
  assume eq: "(case x of (u, page, limit) \<Rightarrow> user_posts_key u page limit) =
              (case y of (u, page, limit) \<Rightarrow> user_posts_key u page limit)"
  obtain u p l u' p' l' where xy: "x = (u, p, l)" "y = (u', p', l')" by (cases x, cases y) auto
  have "(u @ CHR '':'' # to_string p) @ CHR '':'' # to_string l =
        (u' @ CHR '':'' # to_string p') @ CHR '':'' # to_string l'"
    using eq by (simp add: xy key_defs)
  from colon_split_right[OF to_string_no_colon to_string_no_colon this]
  have "u @ CHR '':'' # to_string p = u' @ CHR '':'' # to_string p'" "l = l'" by auto
  with colon_split_right[OF to_string_no_colon to_string_no_colon this(1)] show "x = y" by (simp add: xy)
qed auto

interpretation like_keys: key_space "''like''" "\<lambda>(u, p). like_key u p" "\<lambda>(u, p). CHR '':'' \<notin> set u"
proof unfold_locales
  show "starts_with (case x of (u, p) \<Rightarrow> like_key u p) (''like'' @ '':'')" for x
    by (auto simp: key_defs split: prod.splits)
qed (auto simp: key_defs dest: colon_split_left)

section \<open>What Redis is relied on for\<close>

text \<open>
  Redis keeps its contents over restarts of the backend, entries expire and are evicted, and commands fail with or
  without having had their effect. So \<open>may_hold E h k v\<close>, that the key \<open>k\<close> may hold \<open>v\<close> after the history \<open>h\<close> (most
  recent event first): at the beginning any text; after a write of the key the text written, and anything that might have
  been there before unless the command was carried out; after its deletion nothing once that was carried
  out. A command is carried out when the request succeeded and the reply is no error. An honest Redis,
  with this backend as the only writer of its keys, answers a \<^verbatim>\<open>GET\<close> with nothing or with a text the key may hold.
\<close>

definition carried_out :: "env \<Rightarrow> history \<Rightarrow> redis_cmd \<Rightarrow> bool" where
  "carried_out E h c \<longleftrightarrow>
     (case redis_request E h c of (status, r) \<Rightarrow>
        status = 0 \<and> (case r of None \<Rightarrow> False | Some (RespError msg) \<Rightarrow> False | Some x \<Rightarrow> True))"

fun may_hold :: "env \<Rightarrow> history \<Rightarrow> string \<Rightarrow> string \<Rightarrow> bool" where
  "may_hold E [] k v \<longleftrightarrow> True"
| "may_hold E (EvRedis c # h) k v \<longleftrightarrow>
     (case c of
        RSetex k' t v' \<Rightarrow> k' = k \<and> v' = v \<or> (k' = k \<longrightarrow> \<not> carried_out E h c) \<and> may_hold E h k v
      | RSet k' v' \<Rightarrow> k' = k \<and> v' = v \<or> (k' = k \<longrightarrow> \<not> carried_out E h c) \<and> may_hold E h k v
      | RDel k' \<Rightarrow> (k' = k \<longrightarrow> \<not> carried_out E h c) \<and> may_hold E h k v
      | _ \<Rightarrow> may_hold E h k v)"
| "may_hold E (e # h) k v \<longleftrightarrow> may_hold E h k v"

definition redis_honest :: "env \<Rightarrow> bool" where
  "redis_honest E \<longleftrightarrow>
     (\<forall>h k v. redis_request E h (RGet k) = (0, Some (RespBulk (Some v))) \<longrightarrow> may_hold E h k v)"

text \<open>An event that stores something under a key.\<close>

fun stores :: "string \<Rightarrow> event \<Rightarrow> bool" where
  "stores k (EvRedis (RSetex k' t v)) \<longleftrightarrow> k' = k"
| "stores k (EvRedis (RSet k' v)) \<longleftrightarrow> k' = k"
| "stores k e \<longleftrightarrow> False"

text \<open>The command \<^verbatim>\<open>set\<close> sends.\<close>

definition set_cmd :: "string \<Rightarrow> string \<Rightarrow> int \<Rightarrow> redis_cmd" where
  "set_cmd key v ttl =
     (if ttl > 0 then RSetex (c_str key) (to_string ttl) (c_str v) else RSet (c_str key) (c_str v))"

section \<open>Lemmas\<close>

lemmas cache_defs = if_connected_def is_connected_def redis_def

lemma c_str_idem [simp]: "c_str (c_str s) = c_str s"
  by (simp add: c_str_def takeWhile_takeWhile)

lemma cache_set_run:
  "cache_set E key v ttl s =
     (if connected s
      then (Inr (fst (redis_request E (trace s) (set_cmd key v ttl)) = 0), s\<lparr>trace := EvRedis (set_cmd key v ttl) # trace s\<rparr>)
      else (Inr False, s))"
  by (auto simp: cache_set_def cache_defs set_cmd_def bnd_def split: prod.splits)

lemma del_run:
  "del E key s =
     (if connected s
      then (Inr (fst (redis_request E (trace s) (RDel (c_str key))) = 0),
            s\<lparr>trace := EvRedis (RDel (c_str key)) # trace s\<rparr>)
      else (Inr False, s))"
  by (auto simp: del_def cache_defs bnd_def split: prod.splits)

lemma cache_get_total: "\<exists>t u. cache_get E key s = (Inr t, u)"
  by (auto simp: cache_get_def cache_defs bnd_def split: prod.splits)

lemma cache_get_honest:
  assumes "redis_honest E" "cache_get E key s = (Inr t, u)" "t \<noteq> []"
  shows "\<exists>v. may_hold E (trace s) (c_str key) v \<and> t = c_str v"
  using assms
  by (auto simp: cache_get_def cache_defs bnd_def redis_honest_def
      split: prod.splits if_splits option.splits resp.splits)

lemma may_hold_step: "\<not> stores k ev \<Longrightarrow> may_hold E (ev # h) k v \<Longrightarrow> may_hold E h k v"
  by (cases ev) (auto split: redis_cmd.splits)

lemma may_hold_past:
  "list_all (\<lambda>ev. \<not> stores k ev) es \<Longrightarrow> may_hold E (es @ h) k v \<Longrightarrow> may_hold E h k v"
  by (induction es) (auto dest: may_hold_step simp del: may_hold.simps)

text \<open>What a later read can give, after anything that stores nothing under the key.\<close>

lemma cache_get_later:
  assumes "redis_honest E" "emits (\<lambda>ev. \<not> stores (c_str key) ev) m" "m s = (r, u)"
    and "cache_get E key u = (Inr t, w)" "t \<noteq> []"
  shows "\<exists>v. may_hold E (trace s) (c_str key) v \<and> t = c_str v"
proof -
  from emitsE[OF assms(2,3)] obtain es where "trace u = es @ trace s" "list_all (\<lambda>ev. \<not> stores (c_str key) ev) es" .
  with cache_get_honest[OF assms(1,4,5)] show ?thesis by (auto dest: may_hold_past)
qed

lemma may_hold_set:
  "may_hold E (EvRedis (set_cmd key v ttl) # h) k w \<longleftrightarrow>
     c_str key = k \<and> c_str v = w \<or> (c_str key = k \<longrightarrow> \<not> carried_out E h (set_cmd key v ttl)) \<and> may_hold E h k w"
  by (simp add: set_cmd_def)

lemma emits_redis [emits]: "A (EvRedis c) \<Longrightarrow> emits A (redis E c)"
  by (simp add: redis_def emits)

lemma emits_if_connected [emits]: "emits A m \<Longrightarrow> emits A (if_connected d m)"
  by (auto simp: if_connected_def is_connected_def intro!: emits)

text \<open>The cache talks to Redis and to nobody else.\<close>

fun is_redis :: "event \<Rightarrow> bool" where
  "is_redis (EvRedis c) = True"
| "is_redis (EvRedisScan p) = True"
| "is_redis e = False"

lemma emits_cache_set: "emits is_redis (cache_set E k v t)"
  unfolding cache_set_def by (intro emits) auto

lemma emits_cache_set_int: "emits is_redis (cache_set_int E k i t)"
  unfolding cache_set_int_def by (rule emits_cache_set)

lemma emits_set_json: "emits is_redis (set_json E k j t)"
  unfolding set_json_def by (intro emits emits_cache_set)

lemma emits_cache_get: "emits is_redis (cache_get E k)"
  unfolding cache_get_def by (intro emits) auto

lemma emits_cache_get_int: "emits is_redis (cache_get_int E k d)"
  unfolding cache_get_int_def by (intro emits emits_cache_get)

lemma emits_get_json: "emits is_redis (get_json E k)"
  unfolding get_json_def by (intro emits emits_cache_get)

lemma emits_del: "emits is_redis (del E k)"
  unfolding del_def by (intro emits) auto

lemma emits_del_pattern: "emits is_redis (del_pattern E p)"
  unfolding del_pattern_def by (intro emits) (auto split: option.splits intro!: emits)

lemmas emits_cache =
  emits_cache_set emits_cache_set_int emits_set_json emits_cache_get emits_cache_get_int
  emits_get_json emits_del emits_del_pattern

lemma emits_cacheI:
  "(\<And>ev. is_redis ev \<Longrightarrow> A ev) \<Longrightarrow> emits A (cache_set E k v t)"
  "(\<And>ev. is_redis ev \<Longrightarrow> A ev) \<Longrightarrow> emits A (cache_set_int E k i t)"
  "(\<And>ev. is_redis ev \<Longrightarrow> A ev) \<Longrightarrow> emits A (set_json E k j t)"
  "(\<And>ev. is_redis ev \<Longrightarrow> A ev) \<Longrightarrow> emits A (cache_get E k)"
  "(\<And>ev. is_redis ev \<Longrightarrow> A ev) \<Longrightarrow> emits A (cache_get_int E k i)"
  "(\<And>ev. is_redis ev \<Longrightarrow> A ev) \<Longrightarrow> emits A (get_json E k)"
  "(\<And>ev. is_redis ev \<Longrightarrow> A ev) \<Longrightarrow> emits A (del E k)"
  "(\<And>ev. is_redis ev \<Longrightarrow> A ev) \<Longrightarrow> emits A (del_pattern E k)"
  using emits_cache emits_mono by metis+

text \<open>Which operations store nothing under a key: all but a write of that key.\<close>

lemma emits_stores_nothing:
  "emits (\<lambda>ev. \<not> stores k ev) (cache_get E key)" "emits (\<lambda>ev. \<not> stores k ev) (del E key)"
  "emits (\<lambda>ev. \<not> stores k ev) (del_pattern E pt)"
  "c_str key \<noteq> k \<Longrightarrow> emits (\<lambda>ev. \<not> stores k ev) (cache_set E key v ttl)"
  unfolding cache_get_def del_def del_pattern_def cache_set_def
  by (intro emits; simp; fail)+

text \<open>A Redis that starts empty and keeps everything, for concrete examples, and its contents.\<close>

fun replay :: "history \<Rightarrow> string \<rightharpoonup> string" where
  "replay [] = Map.empty"
| "replay (EvRedis (RSetex k t v) # h) = (replay h)(k \<mapsto> v)"
| "replay (EvRedis (RSet k v) # h) = (replay h)(k \<mapsto> v)"
| "replay (EvRedis (RDel k) # h) = (replay h)(k := None)"
| "replay (e # h) = replay h"

definition memory_redis :: "history \<Rightarrow> redis_cmd \<Rightarrow> int \<times> resp option" where
  "memory_redis h c =
     (0, case c of RGet k \<Rightarrow> Some (RespBulk (replay h k)) | RExists k \<Rightarrow> Some (RespInt (of_bool (replay h k \<noteq> None)))
         | _ \<Rightarrow> Some RespOther)"

definition redis_env :: env where
  "redis_env = silent_env\<lparr>redis_request := memory_redis\<rparr>"

lemma redis_env_honest: "redis_honest redis_env"
proof -
  have "replay h k = Some v \<Longrightarrow> may_hold redis_env h k v" for h k v
    by (induction h rule: replay.induct) (auto split: if_splits)
  then show ?thesis by (simp add: redis_honest_def redis_env_def memory_redis_def)
qed

section \<open>Properties\<close>

text \<open>
  C28. The keys of the cache: entries of different kinds never share a key, and within a kind different
  arguments have different keys. For likes this needs a user id without a colon.
\<close>
theorem cache_keys_distinct:
  assumes "CHR '':'' \<notin> set lu" and "CHR '':'' \<notin> set lu'"
  shows "distinct [post_key p, user_key u, handle_key h, feed_key i j, user_posts_key v k l,
      like_key w x, post_count_key y] \<and>
    (post_key p = post_key p' \<longleftrightarrow> p = p') \<and> (user_key u = user_key u' \<longleftrightarrow> u = u') \<and>
    (handle_key h = handle_key h' \<longleftrightarrow> h = h') \<and>
    (feed_key i j = feed_key i' j' \<longleftrightarrow> i = i' \<and> j = j') \<and>
    (user_posts_key v k l = user_posts_key v' k' l' \<longleftrightarrow> v = v' \<and> k = k' \<and> l = l') \<and>
    (like_key lu x = like_key lu' x' \<longleftrightarrow> lu = lu' \<and> x = x') \<and>
    (post_count_key y = post_count_key y' \<longleftrightarrow> y = y')"
proof -
  have "distinct (map (takeWhile (\<lambda>c. c \<noteq> CHR '':'')) [post_key p, user_key u, handle_key h,
      feed_key i j, user_posts_key v k l, like_key w x, post_count_key y])"
    by (simp add: post_keys.key_ns user_keys.key_ns handle_keys.key_ns count_keys.key_ns
        feed_keys.key_ns[of "(i, j)", simplified] uposts_keys.key_ns[of "(v, k, l)", simplified]
        like_keys.key_ns[of "(w, x)", simplified])
  then have "distinct [post_key p, user_key u, handle_key h, feed_key i j, user_posts_key v k l,
      like_key w x, post_count_key y]" 
    unfolding distinct_map by blast
  then show ?thesis
    using assms post_keys.key_eq_iff user_keys.key_eq_iff handle_keys.key_eq_iff count_keys.key_eq_iff
      feed_keys.key_eq_iff[of "(i, j)" "(i', j')"] uposts_keys.key_eq_iff[of "(v, k, l)" "(v', k', l')"]
      like_keys.key_eq_iff[of "(lu, x)" "(lu', x')"] by simp
qed

theorem cache_keys_distinct_witness:
  "feed_key 1 12 \<noteq> feed_key 11 2 \<and> like_key ''a'' ''b:c'' \<noteq> like_key ''b'' ''c'' \<and>
   post_key ''1'' \<noteq> user_key ''1''"
  using cache_keys_distinct[of "''a''" "''b''" "''1''" "''1''" "''h''" 1 12 "''v''" 1 1 "''w''" "''b:c''"
      "''y''" "''1''" "''1''" "''h''" 11 2 "''v''" 1 1 "''c''" "''y''"]
  by simp

text \<open>
  C27. Coherence of the cache on top of an honest Redis, which may hold anything at first, lose entries and fail commands.
  After a write or a deletion comes any action that stores nothing under the key read next. That read misses, or gives: after a write of that key the text
  written, or, only if the write was not carried out, what the key may have held before; after a deletion of that key
  something only if the deletion was not carried out, and then what it may have held before; for another key what that
  may have held before. A command that was carried out is reported as a success.
\<close>
theorem cache_coherent:
  assumes "redis_honest E" and "connected s" and "emits (\<lambda>ev. \<not> stores (c_str key') ev) m"
  shows "(cache_set E key v ttl s = (Inr ok, s1) \<and> m s1 = (r, s2) \<and> cache_get E key' s2 = (Inr t, s3) \<longrightarrow>
      (carried_out E (trace s) (set_cmd key v ttl) \<longrightarrow> ok) \<and>
      (t = [] \<or> c_str key' = c_str key \<and> t = c_str v \<or>
       (c_str key' = c_str key \<longrightarrow> \<not> carried_out E (trace s) (set_cmd key v ttl)) \<and>
       (\<exists>w. may_hold E (trace s) (c_str key') w \<and> t = c_str w))) \<and>
    (del E key s = (Inr ok, s1) \<and> m s1 = (r, s2) \<and> cache_get E key' s2 = (Inr t, s3) \<longrightarrow>
      (carried_out E (trace s) (RDel (c_str key)) \<longrightarrow> ok) \<and>
      (t = [] \<or>
       (c_str key' = c_str key \<longrightarrow> \<not> carried_out E (trace s) (RDel (c_str key))) \<and>
       (\<exists>w. may_hold E (trace s) (c_str key') w \<and> t = c_str w)))"
proof (intro conjI impI; elim conjE)
  assume set: "cache_set E key v ttl s = (Inr ok, s1)" and run: "m s1 = (r, s2)" "cache_get E key' s2 = (Inr t, s3)"
  show "carried_out E (trace s) (set_cmd key v ttl) \<Longrightarrow> ok"
    using set assms(2) by (auto simp: cache_set_run carried_out_def split: prod.splits)
  show "t = [] \<or> c_str key' = c_str key \<and> t = c_str v \<or>
       (c_str key' = c_str key \<longrightarrow> \<not> carried_out E (trace s) (set_cmd key v ttl)) \<and>
       (\<exists>w. may_hold E (trace s) (c_str key') w \<and> t = c_str w)"
    using cache_get_later[OF assms(1,3) run] set assms(2) by (auto simp: cache_set_run may_hold_set simp del: may_hold.simps)
next
  assume del: "del E key s = (Inr ok, s1)" and run: "m s1 = (r, s2)" "cache_get E key' s2 = (Inr t, s3)"
  show "carried_out E (trace s) (RDel (c_str key)) \<Longrightarrow> ok"
    using del assms(2) by (auto simp: del_run carried_out_def split: prod.splits)
  show "t = [] \<or>
       (c_str key' = c_str key \<longrightarrow> \<not> carried_out E (trace s) (RDel (c_str key))) \<and>
       (\<exists>w. may_hold E (trace s) (c_str key') w \<and> t = c_str w)"
    using cache_get_later[OF assms(1,3) run] del assms(2) by (auto simp: del_run)
qed

theorem cache_coherent_witness:
  "(\<exists>s. cache_get redis_env ''k''
      (snd (del_pattern redis_env ''feed:*'' (snd (cache_set redis_env ''k'' ''v'' 300 \<lparr>trace = [], redis_ptr = True, connected = True\<rparr>))))
     = (Inr ''v'', s)) \<and> carried_out redis_env [] (set_cmd ''k'' ''v'' 300) \<and> ''v'' = c_str ''v''"
proof -
  let ?s = "\<lparr>trace = [], redis_ptr = True, connected = True\<rparr>"
  have c: "c_str ''k'' = ''k''" "c_str ''v'' = ''v''" by (simp_all add: c_str_def)
  have sent: "carried_out redis_env [] (set_cmd ''k'' ''v'' 300)"
    by (simp add: carried_out_def redis_env_def memory_redis_def set_cmd_def)
  have set: "cache_set redis_env ''k'' ''v'' 300 ?s = (Inr True, ?s\<lparr>trace := [EvRedis (RSetex ''k'' (to_string 300) ''v'')]\<rparr>)"
    by (simp add: cache_set_run set_cmd_def c redis_env_def memory_redis_def)
  obtain r s2 where p: "del_pattern redis_env ''feed:*'' (snd (cache_set redis_env ''k'' ''v'' 300 ?s)) = (r, s2)" by fastforce
  then have s2: "s2 = ?s\<lparr>trace := [EvRedisScan (c_str ''feed:*''), EvRedis (RSetex ''k'' (to_string 300) ''v'')]\<rparr>"
    unfolding set by (simp add: del_pattern_def cache_defs bnd_def redis_env_def silent_env_def)
  obtain t s3 where g: "cache_get redis_env ''k'' s2 = (Inr t, s3)" using cache_get_total by blast
  then have "t \<noteq> []" by (auto simp: s2 cache_get_def cache_defs bnd_def c redis_env_def memory_redis_def)
  moreover have "emits (\<lambda>ev. \<not> stores (c_str ''k'') ev) (del_pattern redis_env ''feed:*'')" by (rule emits_stores_nothing(3))
  from cache_coherent[OF redis_env_honest _ this, of ?s "''k''" "''v''" 300] set p g sent c have "t = [] \<or> t = ''v''" by simp
  ultimately show ?thesis using g p set sent c by simp
qed

end
