(* ===== verification/Supabase.thy ===== *)
theory Supabase
  imports Cache
begin

text \<open>
  \<^verbatim>\<open>backend/src/db/supabase.cpp\<close> and \<^verbatim>\<open>.h\<close>: the client of the database's REST interface, the query
  builder, and the C interface. HTTP is part of the environment. The build defines
  \<^verbatim>\<open>CPPHTTPLIB_OPENSSL_SUPPORT\<close>, so the HTTPS branches are the ones modelled; \<^verbatim>\<open>unsigned long\<close> has the
  32 bits it has on Windows.
\<close>

section \<open>State\<close>

record sb_client =
  hostname :: string
  anon_key :: string
  user_token :: string
  use_auth :: bool
  phone_or_email :: string
  password :: string
  login_method :: string
  auth_timeout :: u32
  login_time :: u32

definition new_client :: sb_client where
  "new_client =
     \<lparr>hostname = [], anon_key = [], user_token = [], use_auth = False, phone_or_email = [], password = [],
      login_method = [], auth_timeout = 0, login_time = 0\<rparr>"

text \<open>The client of the application, and whether a handle of the C interface points to it.\<close>

record db_world = cache_world +
  db :: sb_client
  c_client :: bool

definition sb_begin :: "string \<Rightarrow> string \<Rightarrow> ('z db_world_scheme, unit) act" where
  "sb_begin hostname_a key_a = modify (\<lambda>s. s\<lparr>db := (db s)\<lparr>hostname := hostname_a, anon_key := key_a\<rparr>\<rparr>)"

definition get_auth_token :: "sb_client \<Rightarrow> string" where
  "get_auth_token c = user_token c"

definition is_authenticated :: "sb_client \<Rightarrow> bool" where
  "is_authenticated c \<longleftrightarrow> use_auth c \<and> user_token c \<noteq> []"

section \<open>Helpers\<close>

definition current_time_ms :: "env \<Rightarrow> ('z world_scheme, u32) act" where
  "current_time_ms E = bnd (steady E) (\<lambda>ns. ret (word_of_int (sgn ns * (\<bar>ns\<bar> div 1000000))))"

definition extract_hostname :: "string \<Rightarrow> string" where
  "extract_hostname url =
     (case str_find url ''://'' of
        Some p \<Rightarrow>
          (let start = p + 3 in
           case find_from url ''/'' start of
             Some e \<Rightarrow> take (e - start) (drop start url)
           | None \<Rightarrow> drop start url)
      | None \<Rightarrow> url)"

definition scheme_of :: "string \<Rightarrow> string" where
  "scheme_of host = (if str_contains host ''://'' then host else ''https://'' @ host)"

text \<open>\<^verbatim>\<open>headers.find\<close>: names are compared without case.\<close>

definition find_header :: "headers \<Rightarrow> string \<Rightarrow> string option" where
  "find_header hs name = map_option snd (find (\<lambda>(n, v). lower n = lower name) hs)"

definition is_2xx :: "int \<Rightarrow> bool" where
  "is_2xx st \<longleftrightarrow> 200 \<le> st \<and> st < 300"

definition status_or :: "http_res option \<Rightarrow> int" where
  "status_or r = (case r of Some a \<Rightarrow> rs_status a | None \<Rightarrow> - 100)"

section \<open>Logging in\<close>

text \<open>
  What the response to a login does to the client. \<^verbatim>\<open>user_token\<close> is assigned before \<^verbatim>\<open>expires_in\<close> is
  read; the product with 1000 is a signed 32-bit one.
\<close>

definition accept_login :: "env \<Rightarrow> http_res \<Rightarrow> ('z db_world_scheme, int) act" where
  "accept_login E a =
     try_catch
       (bnd (of_sum (parse_json E (rs_body a))) (\<lambda>response.
          case json_find response ''access_token'' of
            Some (JStr tok) \<Rightarrow>
              if tok = [] then ret (- 1)
              else
                bnd (modify (\<lambda>s. s\<lparr>db := (db s)\<lparr>user_token := tok\<rparr>\<rparr>)) (\<lambda>_.
                bnd (of_sum (get_int (case json_find response ''expires_in'' of Some v \<Rightarrow> v | None \<Rightarrow> JNull))) (\<lambda>expires.
                if \<bar>expires * 1000\<bar> \<ge> 2 ^ 31 then raise Undefined
                else
                  bnd (modify (\<lambda>s. s\<lparr>db := (db s)\<lparr>auth_timeout := word_of_int (expires * 1000)\<rparr>\<rparr>)) (\<lambda>_.
                  bnd (current_time_ms E) (\<lambda>now.
                  bnd (modify (\<lambda>s. s\<lparr>db := (db s)\<lparr>login_time := now\<rparr>\<rparr>)) (\<lambda>_.
                  ret (rs_status a))))))
          | _ \<Rightarrow> ret (- 1)))
       is_json_exn (\<lambda>e. ret (- 1))"

definition login_process :: "env \<Rightarrow> ('z db_world_scheme, int) act" where
  "login_process E =
     try_catch
       (bnd (gets db) (\<lambda>c.
        bnd (of_sum (dump E (jset (jset JNull (login_method c) (JStr (phone_or_email c))) ''password'' (JStr (password c))))) (\<lambda>body.
        bnd (http E \<lparr>rq_base = scheme_of (hostname c), rq_verify = True, rq_verb = POST,
                     rq_path = ''/auth/v1/token?grant_type=password'',
                     rq_headers = [(''apikey'', anon_key c), (''Content-Type'', ''application/json'')],
                     rq_body = body, rq_type = ''application/json''\<rparr>) (\<lambda>res.
        case res of
          Some a \<Rightarrow> if is_2xx (rs_status a) then accept_login E a else ret (rs_status a)
        | None \<Rightarrow> ret (- 100)))))
       any_exn (\<lambda>e. ret (- 100))"

text \<open>\<^verbatim>\<open>if (t_now - login_time >= auth_timeout) login_process();\<close>\<close>

definition refresh_if_expired :: "env \<Rightarrow> ('z db_world_scheme, unit) act" where
  "refresh_if_expired E =
     bnd (current_time_ms E) (\<lambda>t_now.
     bnd (gets db) (\<lambda>c.
     if t_now - login_time c \<ge> auth_timeout c
     then bnd (login_process E) (\<lambda>_. ret ())
     else ret ()))"

text \<open>
  The \<^verbatim>\<open>Authorization\<close> header: three variants. \<open>auth_or_anon\<close> wants a token and falls back to the anon
  key, \<open>auth_else_anon\<close> asks \<^verbatim>\<open>use_auth\<close> only, \<open>auth_only\<close> sends none for anonymous access.
\<close>

definition bearer :: "string \<Rightarrow> headers" where
  "bearer t = [(''Authorization'', ''Bearer '' @ t)]"

definition token_header :: "env \<Rightarrow> ('z db_world_scheme, headers) act" where
  "token_header E = bnd (refresh_if_expired E) (\<lambda>_. gets (\<lambda>s. bearer (user_token (db s))))"

definition auth_or_anon :: "env \<Rightarrow> ('z db_world_scheme, headers) act" where
  "auth_or_anon E =
     bnd (gets db) (\<lambda>c. if use_auth c \<and> user_token c \<noteq> [] then token_header E else ret (bearer (anon_key c)))"

definition auth_else_anon :: "env \<Rightarrow> ('z db_world_scheme, headers) act" where
  "auth_else_anon E =
     bnd (gets db) (\<lambda>c. if use_auth c then token_header E else ret (bearer (anon_key c)))"

definition auth_only :: "env \<Rightarrow> ('z db_world_scheme, headers) act" where
  "auth_only E = bnd (gets db) (\<lambda>c. if use_auth c then token_header E else ret [])"

definition json_headers :: "sb_client \<Rightarrow> headers" where
  "json_headers c = [(''apikey'', anon_key c), (''Content-Type'', ''application/json'')]"

section \<open>Operations\<close>

definition client_insert :: "env \<Rightarrow> string \<Rightarrow> string \<Rightarrow> bool \<Rightarrow> ('z db_world_scheme, int) act" where
  "client_insert E table json_data upsert =
     try_catch
       (bnd (gets db) (\<lambda>c.
        bnd (auth_or_anon E) (\<lambda>auth.
        bnd (http E \<lparr>rq_base = scheme_of (hostname c), rq_verify = False, rq_verb = POST,
                     rq_path = ''/rest/v1/'' @ table,
                     rq_headers = json_headers c @
                       [(''Prefer'', ''return=minimal'' @ (if upsert then '',resolution=merge-duplicates'' else []))] @ auth,
                     rq_body = json_data, rq_type = ''application/json''\<rparr>) (\<lambda>res.
        ret (status_or res)))))
       any_exn (\<lambda>e. ret (- 100))"

definition insert_return :: "env \<Rightarrow> string \<Rightarrow> string \<Rightarrow> bool \<Rightarrow> ('z db_world_scheme, string) act" where
  "insert_return E table json_data upsert =
     try_catch
       (bnd (gets db) (\<lambda>c.
        bnd (auth_or_anon E) (\<lambda>auth.
        bnd (http E \<lparr>rq_base = scheme_of (hostname c), rq_verify = False, rq_verb = POST,
                     rq_path = ''/rest/v1/'' @ table,
                     rq_headers = json_headers c @
                       [(''Prefer'', ''return=representation'' @ (if upsert then '',resolution=merge-duplicates'' else []))] @ auth,
                     rq_body = json_data, rq_type = ''application/json''\<rparr>) (\<lambda>res.
        case res of
          None \<Rightarrow> ret []
        | Some a \<Rightarrow>
            if rs_status a \<ge> 400 then ret []
            else if is_2xx (rs_status a)
            then (case parse_nothrow E (rs_body a) of
                    JArr (j # js) \<Rightarrow> of_sum (dump E j)
                  | _ \<Rightarrow> ret [])
            else ret []))))
       any_exn (\<lambda>e. ret [])"

definition upload :: "env \<Rightarrow> string \<Rightarrow> string \<Rightarrow> string \<Rightarrow> string \<Rightarrow> ('z db_world_scheme, int) act" where
  "upload E bucket filename mime_type file_content =
     try_catch
       (bnd (gets db) (\<lambda>c.
        bnd (auth_only E) (\<lambda>auth.
        bnd (http E \<lparr>rq_base = extract_hostname (hostname c), rq_verify = True, rq_verb = POST,
                     rq_path = ''/storage/v1/object/'' @ bucket @ ''/'' @ filename,
                     rq_headers = [(''apikey'', anon_key c)] @ auth,
                     rq_body = file_content, rq_type = mime_type\<rparr>) (\<lambda>res.
        ret (status_or res)))))
       any_exn (\<lambda>e. ret (- 100))"

definition do_select :: "env \<Rightarrow> string \<Rightarrow> ('z db_world_scheme, string) act" where
  "do_select E url =
     try_catch
       (bnd (gets db) (\<lambda>c.
        bnd (auth_only E) (\<lambda>auth.
        bnd (http E \<lparr>rq_base = scheme_of (hostname c), rq_verify = True, rq_verb = GET,
                     rq_path = ''/rest/v1/'' @ url, rq_headers = json_headers c @ auth,
                     rq_body = [], rq_type = []\<rparr>) (\<lambda>res.
        case res of
          None \<Rightarrow> ret []
        | Some a \<Rightarrow>
            if rs_status a \<ge> 400 then ret []
            else if is_2xx (rs_status a) then ret (rs_body a)
            else ret []))))
       any_exn (\<lambda>e. ret [])"

definition do_update :: "env \<Rightarrow> string \<Rightarrow> string \<Rightarrow> ('z db_world_scheme, int) act" where
  "do_update E url json_data =
     try_catch
       (bnd (gets db) (\<lambda>c.
        bnd (auth_only E) (\<lambda>auth.
        bnd (http E \<lparr>rq_base = scheme_of (hostname c), rq_verify = True, rq_verb = PATCH,
                     rq_path = ''/rest/v1/'' @ url, rq_headers = json_headers c @ auth,
                     rq_body = json_data, rq_type = ''application/json''\<rparr>) (\<lambda>res.
        ret (status_or res)))))
       any_exn (\<lambda>e. ret (- 100))"

text \<open>The total of a \<^verbatim>\<open>Content-Range\<close> header such as \<^verbatim>\<open>0-9/42\<close>.\<close>

definition range_total :: "string \<Rightarrow> int" where
  "range_total cr =
     (case str_find cr ''/'' of
        None \<Rightarrow> - 1
      | Some slash \<Rightarrow>
          if slash + 1 \<ge> length cr then - 1
          else
            let total_str = drop (slash + 1) cr in
            if total_str = ''*'' then - 1
            else case stoll total_str of Inl e \<Rightarrow> - 1 | Inr n \<Rightarrow> n)"

definition do_count :: "env \<Rightarrow> string \<Rightarrow> ('z db_world_scheme, int) act" where
  "do_count E url =
     try_catch
       (bnd (gets db) (\<lambda>c.
        bnd (auth_else_anon E) (\<lambda>auth.
        bnd (http E \<lparr>rq_base = scheme_of (hostname c), rq_verify = True, rq_verb = HEAD,
                     rq_path = ''/rest/v1/'' @ url,
                     rq_headers = [(''apikey'', anon_key c), (''Prefer'', ''count=exact'')] @ auth,
                     rq_body = [], rq_type = []\<rparr>) (\<lambda>res.
        ret (case res of
               None \<Rightarrow> - 1
             | Some a \<Rightarrow>
                 if rs_status a \<ge> 400 then - 1
                 else case find_header (rs_headers a) ''Content-Range'' of
                        None \<Rightarrow> - 1
                      | Some cr \<Rightarrow> range_total cr)))))
       any_exn (\<lambda>e. ret (- 1))"

definition do_delete :: "env \<Rightarrow> string \<Rightarrow> ('z db_world_scheme, int) act" where
  "do_delete E url =
     try_catch
       (bnd (gets db) (\<lambda>c.
        bnd (auth_only E) (\<lambda>auth.
        bnd (http E \<lparr>rq_base = scheme_of (hostname c), rq_verify = True, rq_verb = DELETE,
                     rq_path = ''/rest/v1/'' @ url,
                     rq_headers = json_headers c @ [(''Prefer'', ''return=minimal'')] @ auth,
                     rq_body = [], rq_type = []\<rparr>) (\<lambda>res.
        ret (status_or res)))))
       any_exn (\<lambda>e. ret (- 100))"

definition rpc :: "env \<Rightarrow> string \<Rightarrow> string \<Rightarrow> ('z db_world_scheme, string) act" where
  "rpc E function_name json_params =
     try_catch
       (bnd (gets db) (\<lambda>c.
        bnd (auth_only E) (\<lambda>auth.
        bnd (http E \<lparr>rq_base = scheme_of (hostname c), rq_verify = True, rq_verb = POST,
                     rq_path = ''/rest/v1/rpc/'' @ function_name, rq_headers = json_headers c @ auth,
                     rq_body = json_params, rq_type = ''application/json''\<rparr>) (\<lambda>res.
        case res of
          Some a \<Rightarrow> if is_2xx (rs_status a) then ret (rs_body a) else ret (to_string (rs_status a))
        | None \<Rightarrow> ret (to_string (- 100))))))
       any_exn (\<lambda>e. ret ''-100'')"

section \<open>The query builder\<close>

text \<open>A builder is its \<^verbatim>\<open>url_query\<close>; each call appends one parameter.\<close>

definition from_table :: "string \<Rightarrow> string" where
  "from_table table = table @ ''?''"

definition check_last_string :: "string \<Rightarrow> string" where
  "check_last_string q = (if q \<noteq> [] \<and> last q \<noteq> CHR ''?'' then q @ ''&'' else q)"

definition qb_eq :: "string \<Rightarrow> string \<Rightarrow> string \<Rightarrow> string" where
  "qb_eq column value q = check_last_string q @ column @ ''=eq.'' @ value"

definition qb_gt :: "string \<Rightarrow> string \<Rightarrow> string \<Rightarrow> string" where
  "qb_gt column value q = check_last_string q @ column @ ''=gt.'' @ value"

definition qb_gte :: "string \<Rightarrow> string \<Rightarrow> string \<Rightarrow> string" where
  "qb_gte column value q = check_last_string q @ column @ ''=gte.'' @ value"

definition qb_lt :: "string \<Rightarrow> string \<Rightarrow> string \<Rightarrow> string" where
  "qb_lt column value q = check_last_string q @ column @ ''=lt.'' @ value"

definition qb_lte :: "string \<Rightarrow> string \<Rightarrow> string \<Rightarrow> string" where
  "qb_lte column value q = check_last_string q @ column @ ''=lte.'' @ value"

definition qb_neq :: "string \<Rightarrow> string \<Rightarrow> string \<Rightarrow> string" where
  "qb_neq column value q = check_last_string q @ column @ ''=neq.'' @ value"

definition qb_in :: "string \<Rightarrow> string \<Rightarrow> string \<Rightarrow> string" where
  "qb_in column values q = check_last_string q @ column @ ''=in.('' @ values @ '')''"

definition qb_is :: "string \<Rightarrow> string \<Rightarrow> string \<Rightarrow> string" where
  "qb_is column value q = check_last_string q @ column @ ''=is.'' @ value"

definition qb_cs :: "string \<Rightarrow> string \<Rightarrow> string \<Rightarrow> string" where
  "qb_cs column values q = check_last_string q @ column @ ''=cs.{'' @ values @ ''}''"

definition qb_cd :: "string \<Rightarrow> string \<Rightarrow> string \<Rightarrow> string" where
  "qb_cd column values q = check_last_string q @ column @ ''=cd.{'' @ values @ ''}''"

definition qb_ov :: "string \<Rightarrow> string \<Rightarrow> string \<Rightarrow> string" where
  "qb_ov column values q = check_last_string q @ column @ ''=ov.{'' @ values @ ''}''"

definition qb_sl :: "string \<Rightarrow> string \<Rightarrow> string \<Rightarrow> string" where
  "qb_sl column rng q = check_last_string q @ column @ ''=sl.('' @ rng @ '')''"

definition qb_sr :: "string \<Rightarrow> string \<Rightarrow> string \<Rightarrow> string" where
  "qb_sr column rng q = check_last_string q @ column @ ''=sr.('' @ rng @ '')''"

definition qb_nxr :: "string \<Rightarrow> string \<Rightarrow> string \<Rightarrow> string" where
  "qb_nxr column rng q = check_last_string q @ column @ ''=nxr.('' @ rng @ '')''"

definition qb_nxl :: "string \<Rightarrow> string \<Rightarrow> string \<Rightarrow> string" where
  "qb_nxl column rng q = check_last_string q @ column @ ''=nxl.('' @ rng @ '')''"

definition qb_adj :: "string \<Rightarrow> string \<Rightarrow> string \<Rightarrow> string" where
  "qb_adj column rng q = check_last_string q @ column @ ''=adj.('' @ rng @ '')''"

definition qb_order :: "string \<Rightarrow> string \<Rightarrow> bool \<Rightarrow> string \<Rightarrow> string" where
  "qb_order column direction nulls_first q =
     check_last_string q @ ''order='' @ column @ ''.'' @ direction @ ''.'' @
       (if nulls_first then ''nullsfirst'' else ''nullslast'')"

definition qb_limit :: "u32 \<Rightarrow> string \<Rightarrow> string" where
  "qb_limit count q = check_last_string q @ ''limit='' @ to_string (uint count)"

definition qb_offset :: "int \<Rightarrow> string \<Rightarrow> string" where
  "qb_offset count q = check_last_string q @ ''offset='' @ to_string count"

definition qb_select :: "string \<Rightarrow> string \<Rightarrow> string" where
  "qb_select columns q = check_last_string q @ ''select='' @ columns"

definition execute :: "env \<Rightarrow> string \<Rightarrow> ('z db_world_scheme, string) act" where
  "execute E q = do_select E q"

definition update_execute :: "env \<Rightarrow> string \<Rightarrow> string \<Rightarrow> ('z db_world_scheme, int) act" where
  "update_execute E json_data q = do_update E q json_data"

definition delete_execute :: "env \<Rightarrow> string \<Rightarrow> ('z db_world_scheme, int) act" where
  "delete_execute E q = do_delete E q"

definition count_execute :: "env \<Rightarrow> string \<Rightarrow> ('z db_world_scheme, int) act" where
  "count_execute E q = do_count E q"

section \<open>The C interface\<close>

text \<open>
  \<open>c_client\<close> is false for a null handle or a handle without a client. Arguments the code tests
  against null are options, the others are the texts they point to; memory suffices.
\<close>

definition supabase_init :: "string \<Rightarrow> string \<Rightarrow> ('z db_world_scheme, int) act" where
  "supabase_init host k =
     bnd (modify (\<lambda>s. s\<lparr>db := new_client, c_client := True\<rparr>)) (\<lambda>_.
     bnd (sb_begin host k) (\<lambda>_. ret 0))"

definition supabase_cleanup :: "('z db_world_scheme, unit) act" where
  "supabase_cleanup =
     bnd (gets c_client) (\<lambda>c. if c then modify (\<lambda>s. s\<lparr>c_client := False\<rparr>) else ret ())"

definition supabase_insert :: "env \<Rightarrow> string \<Rightarrow> string \<Rightarrow> int \<Rightarrow> ('z db_world_scheme, int) act" where
  "supabase_insert E table json upsert =
     bnd (gets c_client) (\<lambda>c. if \<not> c then ret (- 1) else client_insert E table json (upsert \<noteq> 0))"

text \<open>\<^verbatim>\<open>column=value\<close>, split at the first \<open>=\<close>.\<close>

definition split_condition :: "string option \<Rightarrow> (string \<times> string) option" where
  "split_condition conditions =
     (case conditions of
        None \<Rightarrow> None
      | Some cond \<Rightarrow>
          if cond = [] then None
          else case str_find cond ''='' of
            None \<Rightarrow> None
          | Some eq_pos \<Rightarrow> Some (take eq_pos cond, drop (eq_pos + 1) cond))"

definition supabase_update :: "env \<Rightarrow> string \<Rightarrow> string \<Rightarrow> string option \<Rightarrow> ('z db_world_scheme, int) act" where
  "supabase_update E table json conditions =
     bnd (gets c_client) (\<lambda>c.
       if \<not> c then ret (- 1)
       else
         let builder = (case split_condition conditions of
                          Some (column, value) \<Rightarrow> qb_eq column value (from_table table)
                        | None \<Rightarrow> from_table table)
         in update_execute E json builder)"

definition select_query :: "string \<Rightarrow> string option \<Rightarrow> string option \<Rightarrow> string" where
  "select_query table columns conditions =
     (let q = table @ ''?'' @ ''select='' @ (case columns of Some c \<Rightarrow> c | None \<Rightarrow> ''*'');
          q' = (if (case conditions of Some cond \<Rightarrow> cond \<noteq> [] | None \<Rightarrow> False) then q @ ''&'' else q)
      in case split_condition conditions of
           Some (column, value) \<Rightarrow> q' @ column @ ''=eq.'' @ value
         | None \<Rightarrow> q')"

definition c_result :: "string \<Rightarrow> string option" where
  "c_result r = (if r = [] then None else Some (c_str r))"

definition supabase_select ::
  "env \<Rightarrow> string \<Rightarrow> string option \<Rightarrow> string option \<Rightarrow> ('z db_world_scheme, string option) act" where
  "supabase_select E table columns conditions =
     bnd (gets c_client) (\<lambda>c.
       if \<not> c then ret None
       else
         try_catch
           (bnd (gets db) (\<lambda>cl.
            bnd (http E \<lparr>rq_base = extract_hostname (hostname cl), rq_verify = True, rq_verb = GET,
                         rq_path = ''/rest/v1/'' @ select_query table columns conditions,
                         rq_headers = json_headers cl @
                           bearer (if use_auth cl \<and> user_token cl \<noteq> [] then user_token cl else anon_key cl),
                         rq_body = [], rq_type = []\<rparr>) (\<lambda>res.
            ret (case res of
                   Some a \<Rightarrow> if is_2xx (rs_status a) then c_result (rs_body a) else None
                 | None \<Rightarrow> None))))
           any_exn (\<lambda>e. ret None))"

definition supabase_rpc :: "env \<Rightarrow> string \<Rightarrow> string option \<Rightarrow> ('z db_world_scheme, string option) act" where
  "supabase_rpc E function_name json_params =
     bnd (gets c_client) (\<lambda>c.
       if \<not> c then ret None
       else bnd (rpc E function_name (case json_params of Some j \<Rightarrow> j | None \<Rightarrow> [])) (\<lambda>result.
              ret (c_result result)))"

definition supabase_upload_buffer ::
  "env \<Rightarrow> string \<Rightarrow> string \<Rightarrow> string \<Rightarrow> string \<Rightarrow> ('z db_world_scheme, int) act" where
  "supabase_upload_buffer E bucket filename mime_type buffer =
     bnd (gets c_client) (\<lambda>c. if \<not> c then ret (- 1) else upload E bucket filename mime_type buffer)"

section \<open>The interface of a parameter list\<close>

text \<open>
  What the builder promises: a call appends one parameter, with a separator when there is something
  to separate. From that law alone, a sequence of calls renders as the table name and the parameters
  joined by \<open>&\<close>, as long as no parameter ends in a question mark.
\<close>

fun join_amp :: "string list \<Rightarrow> string" where
  "join_amp [] = []"
| "join_amp [p] = p"
| "join_amp (p # ps) = p @ CHR ''&'' # join_amp ps"

definition render :: "string \<Rightarrow> string list \<Rightarrow> string" where
  "render table ps = table @ CHR ''?'' # join_amp ps"

definition good_param :: "string \<Rightarrow> bool" where
  "good_param p \<longleftrightarrow> p \<noteq> [] \<and> last p \<noteq> CHR ''?''"

lemma join_amp_snoc: "ps \<noteq> [] \<Longrightarrow> join_amp (ps @ [p]) = join_amp ps @ CHR ''&'' # p"
  by (induction ps rule: join_amp.induct) auto

lemma last_join_amp: "ps \<noteq> [] \<Longrightarrow> last ps \<noteq> [] \<Longrightarrow> join_amp ps \<noteq> [] \<and> last (join_amp ps) = last (last ps)"
  by (induction ps rule: join_amp.induct) auto

locale param_list =
  fixes app :: "'c \<Rightarrow> string \<Rightarrow> string" and par :: "'c \<Rightarrow> string"
  assumes app_law: "app c q = (if q \<noteq> [] \<and> last q \<noteq> CHR ''?'' then q @ ''&'' else q) @ par c"
begin

lemma render_step:
  assumes "\<forall>p \<in> set ps. good_param p"
  shows "app c (render t ps) = render t (ps @ [par c])"
proof (cases "ps = []")
  case True
  then show ?thesis by (simp add: app_law render_def)
next
  case False
  with assms have "last ps \<noteq> []" "last (last ps) \<noteq> CHR ''?''" by (auto simp: good_param_def)
  with last_join_amp[OF False] False show ?thesis
    by (simp add: app_law render_def join_amp_snoc)
qed

lemma render_calls:
  "\<forall>p \<in> set ps. good_param p \<Longrightarrow> \<forall>c \<in> set cs. good_param (par c) \<Longrightarrow>
   foldl (\<lambda>q c. app c q) (render t ps) cs = render t (ps @ map par cs)"
  by (induction cs arbitrary: ps) (simp_all add: render_step)

end

datatype qcall =
    Eq string string | Gt string string | Gte string string | Lt string string | Lte string string
  | Neq string string | In string string | Is string string | Cs string string | Cd string string
  | Ov string string | Sl string string | Sr string string | Nxr string string | Nxl string string
  | Adj string string | Order string string bool | Limit u32 | Offset int | Select string

fun apply_call :: "qcall \<Rightarrow> string \<Rightarrow> string" where
  "apply_call (Eq c v) = qb_eq c v"
| "apply_call (Gt c v) = qb_gt c v"
| "apply_call (Gte c v) = qb_gte c v"
| "apply_call (Lt c v) = qb_lt c v"
| "apply_call (Lte c v) = qb_lte c v"
| "apply_call (Neq c v) = qb_neq c v"
| "apply_call (In c v) = qb_in c v"
| "apply_call (Is c v) = qb_is c v"
| "apply_call (Cs c v) = qb_cs c v"
| "apply_call (Cd c v) = qb_cd c v"
| "apply_call (Ov c v) = qb_ov c v"
| "apply_call (Sl c v) = qb_sl c v"
| "apply_call (Sr c v) = qb_sr c v"
| "apply_call (Nxr c v) = qb_nxr c v"
| "apply_call (Nxl c v) = qb_nxl c v"
| "apply_call (Adj c v) = qb_adj c v"
| "apply_call (Order c d b) = qb_order c d b"
| "apply_call (Limit n) = qb_limit n"
| "apply_call (Offset n) = qb_offset n"
| "apply_call (Select c) = qb_select c"

text \<open>The parameter a call stands for: the operators of the REST interface.\<close>

fun call_param :: "qcall \<Rightarrow> string" where
  "call_param (Eq c v) = c @ ''=eq.'' @ v"
| "call_param (Gt c v) = c @ ''=gt.'' @ v"
| "call_param (Gte c v) = c @ ''=gte.'' @ v"
| "call_param (Lt c v) = c @ ''=lt.'' @ v"
| "call_param (Lte c v) = c @ ''=lte.'' @ v"
| "call_param (Neq c v) = c @ ''=neq.'' @ v"
| "call_param (In c v) = c @ ''=in.('' @ v @ '')''"
| "call_param (Is c v) = c @ ''=is.'' @ v"
| "call_param (Cs c v) = c @ ''=cs.{'' @ v @ ''}''"
| "call_param (Cd c v) = c @ ''=cd.{'' @ v @ ''}''"
| "call_param (Ov c v) = c @ ''=ov.{'' @ v @ ''}''"
| "call_param (Sl c v) = c @ ''=sl.('' @ v @ '')''"
| "call_param (Sr c v) = c @ ''=sr.('' @ v @ '')''"
| "call_param (Nxr c v) = c @ ''=nxr.('' @ v @ '')''"
| "call_param (Nxl c v) = c @ ''=nxl.('' @ v @ '')''"
| "call_param (Adj c v) = c @ ''=adj.('' @ v @ '')''"
| "call_param (Order c d b) = ''order='' @ c @ ''.'' @ d @ ''.'' @ (if b then ''nullsfirst'' else ''nullslast'')"
| "call_param (Limit n) = ''limit='' @ to_string (uint n)"
| "call_param (Offset n) = ''offset='' @ to_string n"
| "call_param (Select c) = ''select='' @ c"

lemmas qb_defs =
  qb_eq_def qb_gt_def qb_gte_def qb_lt_def qb_lte_def qb_neq_def qb_in_def qb_is_def qb_cs_def qb_cd_def
  qb_ov_def qb_sl_def qb_sr_def qb_nxr_def qb_nxl_def qb_adj_def qb_order_def qb_limit_def qb_offset_def
  qb_select_def

interpretation qb: param_list apply_call call_param
proof
  show "apply_call c q = (if q \<noteq> [] \<and> last q \<noteq> CHR ''?'' then q @ ''&'' else q) @ call_param c" for c q
    by (cases c) (simp_all add: qb_defs check_last_string_def)
qed

definition build :: "string \<Rightarrow> qcall list \<Rightarrow> string" where
  "build table calls = foldl (\<lambda>q c. apply_call c q) (from_table table) calls"

lemma build_render:
  "\<forall>c \<in> set calls. good_param (call_param c) \<Longrightarrow> build table calls = render table (map call_param calls)"
  using qb.render_calls[of "[]" calls table] by (simp add: build_def from_table_def render_def)

text \<open>Reading a query back: the table before the first \<open>?\<close>, the parameters between \<open>&\<close>.\<close>

fun split_amp :: "string \<Rightarrow> string \<Rightarrow> string list" where
  "split_amp acc [] = [rev acc]"
| "split_amp acc (c # s) = (if c = CHR ''&'' then rev acc # split_amp [] s else split_amp (c # acc) s)"

definition parse_query :: "string \<Rightarrow> string \<times> string list" where
  "parse_query q =
     (let r = drop 1 (dropWhile (\<lambda>c. c \<noteq> CHR ''?'') q)
      in (takeWhile (\<lambda>c. c \<noteq> CHR ''?'') q, if r = [] then [] else split_amp [] r))"

lemma split_amp_append:
  "CHR ''&'' \<notin> set p \<Longrightarrow> split_amp acc (p @ CHR ''&'' # s) = (rev acc @ p) # split_amp [] s"
  by (induction p arbitrary: acc) auto

lemma split_amp_plain: "CHR ''&'' \<notin> set p \<Longrightarrow> split_amp acc p = [rev acc @ p]"
  by (induction p arbitrary: acc) auto

lemma split_join_amp:
  "ps \<noteq> [] \<Longrightarrow> \<forall>p \<in> set ps. CHR ''&'' \<notin> set p \<Longrightarrow> split_amp [] (join_amp ps) = ps"
  by (induction ps rule: join_amp.induct) (auto simp: split_amp_append split_amp_plain)

lemma parse_render:
  assumes "CHR ''?'' \<notin> set t" "\<forall>p \<in> set ps. p \<noteq> [] \<and> CHR ''&'' \<notin> set p"
  shows "parse_query (render t ps) = (t, ps)"
proof -
  have t: "\<forall>c \<in> set t. c \<noteq> CHR ''?''" using assms(1) by auto
  have "join_amp ps = [] \<longleftrightarrow> ps = []"
    using assms(2) by (cases ps rule: join_amp.cases) auto
  with t assms(2) split_join_amp[of ps] show ?thesis
    by (auto simp: parse_query_def render_def takeWhile_append dropWhile_append Let_def)
qed

section \<open>What an anonymous client does\<close>

text \<open>
  Nothing in the program sets \<^verbatim>\<open>use_auth\<close>, so the client works with the anon key: each operation
  is then one request and a function of its outcome.
\<close>

abbreviation anonymous :: "'z db_world_scheme \<Rightarrow> bool" where
  "anonymous s \<equiv> \<not> use_auth (db s)"

definition select_req :: "sb_client \<Rightarrow> string \<Rightarrow> http_req" where
  "select_req c url =
     \<lparr>rq_base = scheme_of (hostname c), rq_verify = True, rq_verb = GET, rq_path = ''/rest/v1/'' @ url,
      rq_headers = json_headers c, rq_body = [], rq_type = []\<rparr>"

definition select_answer :: "net_result \<Rightarrow> string" where
  "select_answer r = (case r of Response a \<Rightarrow> if is_2xx (rs_status a) then rs_body a else [] | _ \<Rightarrow> [])"

definition delete_req :: "sb_client \<Rightarrow> string \<Rightarrow> http_req" where
  "delete_req c url =
     \<lparr>rq_base = scheme_of (hostname c), rq_verify = True, rq_verb = DELETE, rq_path = ''/rest/v1/'' @ url,
      rq_headers = json_headers c @ [(''Prefer'', ''return=minimal'')], rq_body = [], rq_type = []\<rparr>"

definition update_req :: "sb_client \<Rightarrow> string \<Rightarrow> string \<Rightarrow> http_req" where
  "update_req c url body =
     \<lparr>rq_base = scheme_of (hostname c), rq_verify = True, rq_verb = PATCH, rq_path = ''/rest/v1/'' @ url,
      rq_headers = json_headers c, rq_body = body, rq_type = ''application/json''\<rparr>"

definition rpc_req :: "sb_client \<Rightarrow> string \<Rightarrow> string \<Rightarrow> http_req" where
  "rpc_req c f body =
     \<lparr>rq_base = scheme_of (hostname c), rq_verify = True, rq_verb = POST, rq_path = ''/rest/v1/rpc/'' @ f,
      rq_headers = json_headers c, rq_body = body, rq_type = ''application/json''\<rparr>"

definition count_req :: "sb_client \<Rightarrow> string \<Rightarrow> http_req" where
  "count_req c url =
     \<lparr>rq_base = scheme_of (hostname c), rq_verify = True, rq_verb = HEAD, rq_path = ''/rest/v1/'' @ url,
      rq_headers = [(''apikey'', anon_key c), (''Prefer'', ''count=exact'')] @ bearer (anon_key c),
      rq_body = [], rq_type = []\<rparr>"

definition insert_req :: "sb_client \<Rightarrow> string \<Rightarrow> string \<Rightarrow> string \<Rightarrow> bool \<Rightarrow> http_req" where
  "insert_req c pref table body upsert =
     \<lparr>rq_base = scheme_of (hostname c), rq_verify = False, rq_verb = POST, rq_path = ''/rest/v1/'' @ table,
      rq_headers = json_headers c @
        [(''Prefer'', ''return='' @ pref @ (if upsert then '',resolution=merge-duplicates'' else []))] @ bearer (anon_key c),
      rq_body = body, rq_type = ''application/json''\<rparr>"

definition status_answer :: "net_result \<Rightarrow> int" where
  "status_answer r = (case r of Response a \<Rightarrow> rs_status a | _ \<Rightarrow> - 100)"

definition rpc_answer :: "net_result \<Rightarrow> string" where
  "rpc_answer r =
     (case r of Response a \<Rightarrow> if is_2xx (rs_status a) then rs_body a else to_string (rs_status a) | _ \<Rightarrow> ''-100'')"

definition count_answer :: "net_result \<Rightarrow> int" where
  "count_answer r =
     (case r of
        Response a \<Rightarrow>
          if rs_status a \<ge> 400 then - 1
          else (case find_header (rs_headers a) ''Content-Range'' of None \<Rightarrow> - 1 | Some cr \<Rightarrow> range_total cr)
      | _ \<Rightarrow> - 1)"

definition insert_answer :: "env \<Rightarrow> net_result \<Rightarrow> string" where
  "insert_answer E r =
     (case r of
        Response a \<Rightarrow>
          if is_2xx (rs_status a)
          then (case parse_nothrow E (rs_body a) of
                  JArr (j # js) \<Rightarrow> (case dump E j of Inr t \<Rightarrow> t | Inl e \<Rightarrow> [])
                | _ \<Rightarrow> [])
          else []
      | _ \<Rightarrow> [])"

text \<open>One request: what the action does to the state.\<close>

definition asked :: "http_req \<Rightarrow> 'z world_scheme \<Rightarrow> 'z world_scheme" where
  "asked q s = s\<lparr>trace := EvHttp q # trace s\<rparr>"

lemma asked_simps [simp]:
  "trace (asked q s) = EvHttp q # trace s" "db (asked q s) = db s" "connected (asked q s) = connected s"
  "world.more (asked q s) = world.more s"
  by (simp_all add: asked_def)

lemma to_string_m100: "to_string (- 100) = ''-100''"
  by code_simp

lemmas anon_defs = auth_or_anon_def auth_only_def auth_else_anon_def try_catch_def bnd_def http_apply asked_def

lemma do_select_run:
  "anonymous s \<Longrightarrow> do_select E url s =
     (Inr (select_answer (net E (trace s) (select_req (db s) url))), asked (select_req (db s) url) s)"
  by (simp add: do_select_def anon_defs select_req_def select_answer_def is_2xx_def split: net_result.splits)

lemma do_delete_run:
  "anonymous s \<Longrightarrow> do_delete E url s =
     (Inr (status_answer (net E (trace s) (delete_req (db s) url))), asked (delete_req (db s) url) s)"
  by (simp add: do_delete_def anon_defs delete_req_def status_answer_def status_or_def split: net_result.splits)

lemma do_update_run:
  "anonymous s \<Longrightarrow> do_update E url body s =
     (Inr (status_answer (net E (trace s) (update_req (db s) url body))), asked (update_req (db s) url body) s)"
  by (simp add: do_update_def anon_defs update_req_def status_answer_def status_or_def split: net_result.splits)

lemma rpc_run:
  "anonymous s \<Longrightarrow> rpc E f body s =
     (Inr (rpc_answer (net E (trace s) (rpc_req (db s) f body))), asked (rpc_req (db s) f body) s)"
  by (simp add: rpc_def anon_defs rpc_req_def rpc_answer_def to_string_m100 split: net_result.splits)

lemma do_count_run:
  "anonymous s \<Longrightarrow> do_count E url s =
     (Inr (count_answer (net E (trace s) (count_req (db s) url))), asked (count_req (db s) url) s)"
  by (simp add: do_count_def anon_defs count_req_def count_answer_def split: net_result.splits)

lemma client_insert_run:
  "anonymous s \<Longrightarrow> client_insert E table body upsert s =
     (Inr (status_answer (net E (trace s) (insert_req (db s) ''minimal'' table body upsert))),
      asked (insert_req (db s) ''minimal'' table body upsert) s)"
  by (simp add: client_insert_def anon_defs insert_req_def status_answer_def status_or_def split: net_result.splits)

lemma insert_return_run:
  assumes "anonymous s"
  shows "insert_return E table body upsert s =
     (Inr (insert_answer E (net E (trace s) (insert_req (db s) ''representation'' table body upsert))),
      asked (insert_req (db s) ''representation'' table body upsert) s)"
proof -
  let ?q = "insert_req (db s) ''representation'' table body upsert"
  have step: "insert_return E table body upsert s =
      try_catch (bnd (http E ?q) (\<lambda>res.
        case res of
          None \<Rightarrow> ret []
        | Some a \<Rightarrow>
            if rs_status a \<ge> 400 then ret []
            else if is_2xx (rs_status a)
            then (case parse_nothrow E (rs_body a) of JArr (j # js) \<Rightarrow> of_sum (dump E j) | _ \<Rightarrow> ret [])
            else ret [])) any_exn (\<lambda>e. ret []) s"
    using assms by (simp add: insert_return_def auth_or_anon_def try_catch_def bnd_def insert_req_def)
  show ?thesis
  proof (cases "net E (trace s) ?q")
    case (Response a)
    show ?thesis
    proof (cases "is_2xx (rs_status a)")
      case True
      show ?thesis
      proof (cases "\<exists>j js. parse_nothrow E (rs_body a) = JArr (j # js)")
        case ex: True
        then obtain j js where "parse_nothrow E (rs_body a) = JArr (j # js)" by blast
        with Response True show ?thesis
          unfolding step
          by (cases "dump E j")
            (auto simp: try_catch_def bnd_def http_apply asked_def insert_answer_def is_2xx_def dest: dump_catchable)
      next
        case False
        then have "(case parse_nothrow E (rs_body a) of JArr (j # js) \<Rightarrow> f j | _ \<Rightarrow> d) = d" for f :: "json \<Rightarrow> 'q" and d
          by (auto split: json.split list.split)
        note this[simp]
        from Response True show ?thesis
          unfolding step
          by (simp add: try_catch_def bnd_def http_apply asked_def insert_answer_def is_2xx_def)
      qed
    next
      case False
      with Response show ?thesis
        unfolding step by (simp add: try_catch_def bnd_def http_apply asked_def insert_answer_def)
    qed
  qed (simp_all add: step try_catch_def bnd_def http_apply asked_def insert_answer_def)
qed

section \<open>Further lemmas\<close>

lemma str_find_colon_slash:
  "CHR '':'' \<notin> set a \<Longrightarrow> str_find (a @ ''://'' @ b) ''://'' = Some (length a)"
  by (induction a) auto

lemma extract_hostname_url:
  assumes "CHR '':'' \<notin> set sch" "CHR ''/'' \<notin> set host"
  shows "extract_hostname (sch @ ''://'' @ host @ ''/'' @ path) = host"
    and "extract_hostname (sch @ ''://'' @ host) = host"
proof -
  have *: "drop (length sch + 3) (sch @ ''://'' @ r) = r" for r
    by simp
  have "find_from (sch @ ''://'' @ host @ ''/'' @ path) ''/'' (length sch + 3) = Some (length sch + 3 + length host)"
    using str_find_char[OF assms(2), of path] * by (simp add: find_from_def)
  then show "extract_hostname (sch @ ''://'' @ host @ ''/'' @ path) = host"
    using str_find_colon_slash[OF assms(1)] * by (simp add: extract_hostname_def)
  have "find_from (sch @ ''://'' @ host) ''/'' (length sch + 3) = None"
    using assms(2) * by (simp add: find_from_def str_find_char_None)
  then show "extract_hostname (sch @ ''://'' @ host) = host"
    using str_find_colon_slash[OF assms(1), of host] * by (simp add: extract_hostname_def)
qed

lemma range_total_number:
  assumes "CHR ''/'' \<notin> set rng" "- (2 ^ 63) \<le> n" "n < 2 ^ 63"
  shows "range_total (rng @ ''/'' @ to_string n) = n"
proof -
  have ne: "to_string n \<noteq> []" by (simp add: to_string_def)
  have "CHR ''*'' \<notin> set (to_string n)"
  proof -
    have "CHR ''*'' \<notin> set (nat_to_string k)" for k
      using nat_to_string_digits[of k] by (auto simp: isdigit_def)
    then show ?thesis by (simp add: to_string_def)
  qed
  then have star: "to_string n \<noteq> ''*''" by auto
  have "stoll (to_string n) = Inr n"
    using strto_signed_to_string[of 64 n "''stoll''"] assms(2,3) by (simp add: stoll_def)
  with ne star show ?thesis
    using str_find_char[OF assms(1), of "to_string n"] by (simp add: range_total_def)
qed

lemma good_call_param [simp]: "call_param c \<noteq> []"
  by (cases c) auto

lemma accept_login_run:
  assumes "json_parse E (rs_body a) = Inr r" "json_find r ''access_token'' = Some (JStr tok)" "tok \<noteq> []"
  shows "accept_login E a s =
    (case json_find r ''expires_in'' of
       None \<Rightarrow> (Inr (- 1), s\<lparr>db := (db s)\<lparr>user_token := tok\<rparr>\<rparr>)
     | Some v \<Rightarrow>
        (case get_int v of
           Inl e \<Rightarrow> if is_json_exn e then (Inr (- 1), s\<lparr>db := (db s)\<lparr>user_token := tok\<rparr>\<rparr>)
                    else (Inl e, s\<lparr>db := (db s)\<lparr>user_token := tok\<rparr>\<rparr>)
         | Inr n \<Rightarrow>
             if \<bar>n * 1000\<bar> \<ge> 2 ^ 31 then (Inl Undefined, s\<lparr>db := (db s)\<lparr>user_token := tok\<rparr>\<rparr>)
             else (let now = steady_ns E (trace s) in
                   (Inr (rs_status a),
                    s\<lparr>trace := EvSteady # trace s,
                      db := (db s)\<lparr>user_token := tok, auth_timeout := word_of_int (n * 1000),
                                   login_time := word_of_int (sgn now * (\<bar>now\<bar> div 1000000))\<rparr>\<rparr>))))"
  using assms
  by (auto simp: accept_login_def parse_json_def try_catch_def bnd_def get_int_def current_time_ms_def Let_def
      split: option.splits sum.splits)

lemma get_int_exn: "get_int j = Inl e \<Longrightarrow> is_json_exn e"
  by (cases j) (auto simp: get_int_def)

section \<open>Properties\<close>

text \<open>
  C19. The query builder: a sequence of calls renders as a query from which exactly the table and, in
  order, the parameters of the calls are read back, as long as no parameter contains an ampersand or
  ends in a question mark.
\<close>
theorem query_builder_correct:
  assumes "CHR ''?'' \<notin> set table"
    and "\<forall>c \<in> set calls. CHR ''&'' \<notin> set (call_param c) \<and> last (call_param c) \<noteq> CHR ''?''"
  shows "parse_query (build table calls) = (table, map call_param calls)"
proof -
  have "build table calls = render table (map call_param calls)"
    using assms(2) by (intro build_render) (auto simp: good_param_def)
  with assms show ?thesis by (simp add: parse_render)
qed

theorem query_builder_correct_witness:
  "parse_query (build ''posts'' [Eq ''id'' ''7'', Order ''created_at'' ''desc'' False, Limit 1]) =
     (''posts'', [''id=eq.7'', ''order=created_at.desc.nullslast'', ''limit=1''])"
proof -
  have "\<forall>c \<in> set [Eq ''id'' ''7'', Order ''created_at'' ''desc'' False, Limit 1].
      CHR ''&'' \<notin> set (call_param c) \<and> last (call_param c) \<noteq> CHR ''?''"
    by code_simp
  moreover have "to_string 1 = ''1''" by code_simp
  ultimately show ?thesis
    using query_builder_correct[of "''posts''" "[Eq ''id'' ''7'', Order ''created_at'' ''desc'' False, Limit 1]"] by simp
qed

text \<open>
  C33. Values are not escaped. A value that ends in a question mark swallows the next parameter, so that
  a limit set after it is lost; a value with an ampersand adds a parameter of the caller's choice.
\<close>
theorem query_builder_injection:
  assumes "CHR ''?'' \<notin> set (table @ col)" and "CHR ''&'' \<notin> set (col @ v @ w)" and "w \<noteq> []"
  shows "parse_query (build table [Eq col (v @ ''?''), Limit n]) =
      (table, [col @ ''=eq.'' @ v @ ''?limit='' @ to_string (uint n)])
    \<and> parse_query (build table [Eq col (v @ ''&'' @ w)]) = (table, [col @ ''=eq.'' @ v, w])"
proof -
  have amp: "CHR ''&'' \<notin> set (to_string i)" for i
  proof -
    have "CHR ''&'' \<notin> set (nat_to_string k)" for k
      using nat_to_string_digits[of k] by (auto simp: isdigit_def)
    then show ?thesis by (simp add: to_string_def)
  qed
  have "build table [Eq col (v @ ''?''), Limit n] =
      render table [col @ ''=eq.'' @ v @ ''?limit='' @ to_string (uint n)]"
    by (simp add: build_def from_table_def qb_defs check_last_string_def render_def)
  moreover have "build table [Eq col (v @ ''&'' @ w)] = render table [col @ ''=eq.'' @ v, w]"
    by (simp add: build_def from_table_def qb_defs check_last_string_def render_def)
  ultimately show ?thesis using assms amp by (simp add: parse_render)
qed

theorem query_builder_injection_witness:
  "parse_query (build ''users'' [Eq ''handle'' ''a?'', Limit 1]) = (''users'', [''handle=eq.a?limit=1''])"
proof -
  have "to_string 1 = ''1''" by code_simp
  then show ?thesis
    using query_builder_injection[of "''users''" "''handle''" "''a''" "''b''" 1] by simp
qed

text \<open>
  C20. The client without a user token: every operation sends exactly one request, with the verb, path,
  body and key shown in \<open>select_req\<close> and its siblings, never throws, and gives the value that the
  outcome of the request determines; a failed request gives the empty text, \<open>-100\<close> or \<open>-1\<close>. Only the two
  inserts do not verify the server's certificate.
\<close>
theorem client_anonymous:
  assumes "anonymous s"
  shows "do_select E url s =
      (Inr (select_answer (net E (trace s) (select_req (db s) url))), asked (select_req (db s) url) s)
    \<and> do_update E url body s =
      (Inr (status_answer (net E (trace s) (update_req (db s) url body))), asked (update_req (db s) url body) s)
    \<and> do_delete E url s =
      (Inr (status_answer (net E (trace s) (delete_req (db s) url))), asked (delete_req (db s) url) s)
    \<and> do_count E url s =
      (Inr (count_answer (net E (trace s) (count_req (db s) url))), asked (count_req (db s) url) s)
    \<and> rpc E url body s =
      (Inr (rpc_answer (net E (trace s) (rpc_req (db s) url body))), asked (rpc_req (db s) url body) s)
    \<and> client_insert E url body upsert s =
      (Inr (status_answer (net E (trace s) (insert_req (db s) ''minimal'' url body upsert))),
       asked (insert_req (db s) ''minimal'' url body upsert) s)
    \<and> insert_return E url body upsert s =
      (Inr (insert_answer E (net E (trace s) (insert_req (db s) ''representation'' url body upsert))),
       asked (insert_req (db s) ''representation'' url body upsert) s)"
  using assms
  by (simp add: do_select_run do_update_run do_delete_run do_count_run rpc_run client_insert_run insert_return_run)

text \<open>A state with the client of a fresh application.\<close>

definition fresh_db :: db_world where
  "fresh_db = \<lparr>trace = [], redis_ptr = False, connected = False,
     db = new_client\<lparr>hostname := ''db.example'', anon_key := ''anon''\<rparr>, c_client = False\<rparr>"

theorem client_anonymous_witness:
  "do_select silent_env ''posts?'' fresh_db = (Inr '''', asked (select_req (db fresh_db) ''posts?'') fresh_db)"
proof -
  have "anonymous fresh_db" by (simp add: fresh_db_def new_client_def)
  from client_anonymous[OF this, of silent_env "''posts?''"] show ?thesis
    by (simp add: silent_env_def select_answer_def)
qed

text \<open>
  The count of rows: the total of a \<^verbatim>\<open>Content-Range\<close> header is read back for every 64-bit number;
  an unknown total, a missing slash or an empty total gives \<open>-1\<close>.
\<close>
theorem range_total_correct:
  assumes "CHR ''/'' \<notin> set rng" and "- (2 ^ 63) \<le> n" and "n < 2 ^ 63"
  shows "range_total (rng @ ''/'' @ to_string n) = n \<and> range_total (rng @ ''/*'') = - 1 \<and>
    range_total rng = - 1 \<and> range_total (rng @ ''/'') = - 1"
proof -
  have "str_find rng ''/'' = None" using assms(1) by (simp add: str_find_char_None)
  then show ?thesis
    using range_total_number[OF assms] str_find_char[OF assms(1), of "''*''"] str_find_char[OF assms(1), of "[]"]
    by (simp add: range_total_def)
qed

theorem range_total_correct_witness: "range_total ''0-9/42'' = 42"
proof -
  have "to_string 42 = ''42''" by code_simp
  then show ?thesis using range_total_correct[of "''0-9''" 42] by simp
qed

text \<open>
  Logging in: a response with a token and a lifetime that fits is stored with the time of the login
  and gives the status; when the lifetime is missing or no number the call fails with \<open>-1\<close>, but the new
  token has replaced the old one, while the old lifetime and time remain.
\<close>
theorem accept_login_correct:
  assumes "json_parse E (rs_body a) = Inr r" and "json_find r ''access_token'' = Some (JStr tok)" and "tok \<noteq> []"
  shows "(\<forall>v n. json_find r ''expires_in'' = Some v \<and> get_int v = Inr n \<and> \<bar>n * 1000\<bar> < 2 ^ 31 \<longrightarrow>
      accept_login E a s = (Inr (rs_status a),
        s\<lparr>trace := EvSteady # trace s,
          db := (db s)\<lparr>user_token := tok, auth_timeout := word_of_int (n * 1000),
            login_time := word_of_int (sgn (steady_ns E (trace s)) * (\<bar>steady_ns E (trace s)\<bar> div 1000000))\<rparr>\<rparr>))
    \<and> (json_find r ''expires_in'' = None \<or> (\<exists>v e. json_find r ''expires_in'' = Some v \<and> get_int v = Inl e) \<longrightarrow>
      accept_login E a s = (Inr (- 1), s\<lparr>db := (db s)\<lparr>user_token := tok\<rparr>\<rparr>))"
  using accept_login_run[OF assms] get_int_exn by (auto simp: Let_def)

theorem accept_login_correct_witness:
  "let a = \<lparr>rs_status = 200, rs_headers = [], rs_body = text_of (JObj [(''access_token'', JStr ''t'')])\<rparr> in
   fst (accept_login silent_env a fresh_db) = Inr (- 1) \<and> user_token (db (snd (accept_login silent_env a fresh_db))) = ''t''"
proof -
  let ?j = "JObj [(''access_token'', JStr ''t'')]"
  have "json_parse silent_env (text_of ?j) = Inr ?j" by (rule json_parse_text_of) (simp_all add: sorted_keys_def)
  with accept_login_correct[of silent_env "\<lparr>rs_status = 200, rs_headers = [], rs_body = text_of ?j\<rparr>" ?j "''t''" fresh_db]
  show ?thesis by (simp add: Let_def)
qed

end
