(* ===== verification/Jwt.thy ===== *)
theory Jwt
  imports Supabase Crypt
begin

text \<open>
  \<^verbatim>\<open>backend/src/jwt/validator.cpp\<close>: validation of Google identity tokens. OpenSSL is a parameter
  (record \<open>openssl\<close>); splitting, decoding, key management and the checks on the claims are the code's
  own.
\<close>

section \<open>OpenSSL\<close>

text \<open>
  \<open>evp_decode_block\<close>: the bytes \<^verbatim>\<open>EVP_DecodeBlock\<close> writes to its output (its result is ignored by the
  code). \<open>rsa_public_key\<close>: \<^verbatim>\<open>BN_bin2bn\<close> on both numbers and \<^verbatim>\<open>EVP_PKEY_fromdata\<close>, nothing when there is
  no key. \<open>digest_verify\<close>: \<^verbatim>\<open>EVP_DigestVerifyFinal\<close> with SHA-256, data and signature.
\<close>

record openssl =
  evp_decode_block :: "string \<Rightarrow> string"
  rsa_public_key :: "string \<Rightarrow> string \<Rightarrow> nat option"
  digest_verify :: "nat \<Rightarrow> string \<Rightarrow> string \<Rightarrow> int"

section \<open>Base64url\<close>

definition from_url :: "char \<Rightarrow> char" where
  "from_url c =
     (let c' = (if c = CHR ''-'' then CHR ''+'' else c) in if c' = CHR ''_'' then CHR ''/'' else c')"

function pad4 :: "string \<Rightarrow> string" where
  "pad4 s = (if length s mod 4 \<noteq> 0 then pad4 (s @ ''='') else s)"
  by auto
termination
proof (relation "measure (\<lambda>s. (4 - length s mod 4) mod 4)")
  fix s :: string
  assume "length s mod 4 \<noteq> 0"
  then show "(s @ ''='', s) \<in> measure (\<lambda>s. (4 - length s mod 4) mod 4)"
    by (auto simp: mod_Suc)
qed simp

declare pad4.simps [simp del]

text \<open>The size of the output vector.\<close>

definition decoded_len :: "string \<Rightarrow> nat" where
  "decoded_len s =
     (let out_len = length s div 4 * 3;
          out_len = (if length s \<ge> 2 \<and> s ! (length s - 1) = CHR ''='' then out_len - 1 else out_len)
      in if length s \<ge> 1 \<and> s ! (length s - 2) = CHR ''='' then out_len - 1 else out_len)"

text \<open>
  The vector holds zero bytes before the call. OpenSSL is not told its size: when it writes more bytes
  than the vector has, the behaviour is undefined (see \<open>base64url_overrun\<close> for when that happens).
\<close>

definition base64urlDecode :: "openssl \<Rightarrow> string \<Rightarrow> exn + string" where
  "base64urlDecode L input =
     (let s = pad4 (map from_url input); out_len = decoded_len s; w = evp_decode_block L s
      in if length w > out_len then Inl Undefined
         else Inr (w @ replicate (out_len - length w) (CHR 0x00)))"

definition base64UrlToString :: "openssl \<Rightarrow> string \<Rightarrow> exn + string" where
  "base64UrlToString L b64url = base64urlDecode L b64url"

section \<open>Tokens\<close>

definition splitJwt :: "string \<Rightarrow> (string \<times> string \<times> string) option" where
  "splitJwt token =
     (case str_find token ''.'' of
        None \<Rightarrow> None
      | Some first_dot \<Rightarrow>
          (case find_from token ''.'' (first_dot + 1) of
             None \<Rightarrow> None
           | Some second_dot \<Rightarrow>
               Some (take first_dot token,
                     take (second_dot - first_dot - 1) (drop (first_dot + 1) token),
                     drop (second_dot + 1) token)))"

definition verifySignature :: "openssl \<Rightarrow> string \<Rightarrow> string \<Rightarrow> string \<Rightarrow> string \<Rightarrow> exn + bool" where
  "verifySignature L signed_data signature_b64 n_b64 e_b64 =
     (case base64urlDecode L n_b64 of Inl x \<Rightarrow> Inl x | Inr n_bytes \<Rightarrow>
      case base64urlDecode L e_b64 of Inl x \<Rightarrow> Inl x | Inr e_bytes \<Rightarrow>
      case base64urlDecode L signature_b64 of Inl x \<Rightarrow> Inl x | Inr sig_bytes \<Rightarrow>
      Inr (case rsa_public_key L n_bytes e_bytes of
             None \<Rightarrow> False
           | Some pkey \<Rightarrow> digest_verify L pkey signed_data sig_bytes = 1))"

section \<open>Keys\<close>

record public_key =
  kid :: string
  pk_n :: string
  pk_e :: string

record jwt_world = db_world +
  keys_cache :: "public_key list"
  lastFetch :: int     \<comment> \<open>steady clock, nanoseconds\<close>

definition KEY_TTL_SECONDS :: int where
  "KEY_TTL_SECONDS = 3600"

definition jwt_init :: "env \<Rightarrow> ('z jwt_world_scheme, unit) act" where
  "jwt_init E =
     bnd (steady E) (\<lambda>now.
       modify (\<lambda>s. s\<lparr>keys_cache := [], lastFetch := now - (KEY_TTL_SECONDS + 1) * 1000000000\<rparr>))"

definition needsRefresh :: "env \<Rightarrow> ('z jwt_world_scheme, bool) act" where
  "needsRefresh E =
     bnd (steady E) (\<lambda>now. gets (\<lambda>s. now - lastFetch s \<ge> KEY_TTL_SECONDS * 1000000000))"

definition certs_req :: http_req where
  "certs_req =
     \<lparr>rq_base = ''https://www.googleapis.com'', rq_verify = False, rq_verb = GET,
      rq_path = ''/oauth2/v3/certs'', rq_headers = [], rq_body = [], rq_type = []\<rparr>"

definition parse_key :: "json \<Rightarrow> exn + public_key option" where
  "parse_key chave =
     (case json_value get_string chave ''kid'' [] of Inl e \<Rightarrow> Inl e | Inr k \<Rightarrow>
      case json_value get_string chave ''n'' [] of Inl e \<Rightarrow> Inl e | Inr n \<Rightarrow>
      case json_value get_string chave ''e'' [] of Inl e \<Rightarrow> Inl e | Inr e \<Rightarrow>
      Inr (if k \<noteq> [] \<and> n \<noteq> [] \<and> e \<noteq> [] then Some \<lparr>kid = k, pk_n = n, pk_e = e\<rparr> else None))"

definition fetchGoogleKeys :: "env \<Rightarrow> ('z jwt_world_scheme, unit) act" where
  "fetchGoogleKeys E =
     bnd (http E certs_req) (\<lambda>resposta.
       case resposta of
         None \<Rightarrow> ret ()
       | Some a \<Rightarrow>
           if rs_status a \<noteq> 200 then ret ()
           else
             try_catch
               (bnd (of_sum (parse_json E (rs_body a))) (\<lambda>dados.
                  case json_find dados ''keys'' of
                    Some (JArr chaves) \<Rightarrow>
                      bnd (mapA (\<lambda>chave. of_sum (parse_key chave)) chaves) (\<lambda>novas.
                      bnd (modify (\<lambda>s. s\<lparr>keys_cache := List.map_filter id novas\<rparr>)) (\<lambda>_.
                      bnd (steady E) (\<lambda>now. modify (\<lambda>s. s\<lparr>lastFetch := now\<rparr>))))
                  | _ \<Rightarrow> ret ()))
               is_parse_error (\<lambda>e. ret ()))"

definition findKey :: "string \<Rightarrow> public_key list \<Rightarrow> public_key option" where
  "findKey k keys = find (\<lambda>key. kid key = k) keys"

section \<open>Validation\<close>

record auth_user =
  u_id :: string
  u_email :: string
  u_name :: string
  u_picture :: string

text \<open>
  The two parts of a token that hold JSON. The decoding is inside the \<^verbatim>\<open>try\<close> block, but undefined behaviour
  is nothing its \<^verbatim>\<open>catch (...)\<close> sees.
\<close>

definition parse_part :: "openssl \<Rightarrow> env \<Rightarrow> string \<Rightarrow> ('z world_scheme, json option) act" where
  "parse_part L E part_b64 =
     try_catch
       (bnd (of_sum (base64UrlToString L part_b64)) (\<lambda>t.
        bnd (of_sum (parse_json E t)) (\<lambda>j. ret (Some j))))
       any_exn (\<lambda>e. ret None)"

text \<open>The end of \<^verbatim>\<open>validateToken\<close>: the claims of a payload whose signature is good.\<close>

definition check_claims :: "env \<Rightarrow> json \<Rightarrow> ('z world_scheme, auth_user option) act" where
  "check_claims E payload =
     bnd (of_sum (json_value get_string payload ''iss'' [])) (\<lambda>iss.
     if iss \<noteq> ''https://accounts.google.com'' \<and> iss \<noteq> ''accounts.google.com'' then ret None
     else
       bnd (system_clock E) (\<lambda>now_secs.
       bnd (of_sum (json_value get_int payload ''exp'' 0)) (\<lambda>exp.
       if now_secs \<ge> exp then ret None
       else
         bnd (of_sum (json_value get_string payload ''sub'' [])) (\<lambda>i.
         bnd (of_sum (json_value get_string payload ''email'' [])) (\<lambda>em.
         bnd (of_sum (json_value get_string payload ''given_name'' [])) (\<lambda>nm.
         bnd (of_sum (json_value get_string payload ''picture'' [])) (\<lambda>pic.
         if i = [] then ret None
         else ret (Some \<lparr>u_id = i, u_email = em, u_name = nm, u_picture = pic\<rparr>))))))))"

text \<open>Looking a key up, with a refresh when the keys are old and another when the key is unknown.\<close>

definition lookup_key :: "env \<Rightarrow> string \<Rightarrow> ('z jwt_world_scheme, public_key option) act" where
  "lookup_key E k =
     bnd (needsRefresh E) (\<lambda>old.
     bnd (if old then fetchGoogleKeys E else ret ()) (\<lambda>_.
     bnd (gets (\<lambda>s. findKey k (keys_cache s))) (\<lambda>key.
     case key of
       Some pk \<Rightarrow> ret (Some pk)
     | None \<Rightarrow> bnd (fetchGoogleKeys E) (\<lambda>_. gets (\<lambda>s. findKey k (keys_cache s))))))"

definition validateToken :: "openssl \<Rightarrow> env \<Rightarrow> string \<Rightarrow> ('z jwt_world_scheme, auth_user option) act" where
  "validateToken L E token =
     (case splitJwt token of
        None \<Rightarrow> ret None
      | Some (header_b64, payload_b64, signature_b64) \<Rightarrow>
          bnd (parse_part L E header_b64) (\<lambda>hd.
          case hd of
            None \<Rightarrow> ret None
          | Some header \<Rightarrow>
              bnd (of_sum (json_value get_string header ''kid'' [])) (\<lambda>k.
              bnd (of_sum (json_value get_string header ''alg'' [])) (\<lambda>alg.
              if alg \<noteq> ''RS256'' then ret None
              else if k = [] then ret None
              else
                bnd (lookup_key E k) (\<lambda>key.
                case key of
                  None \<Rightarrow> ret None
                | Some pk \<Rightarrow>
                    bnd (of_sum (verifySignature L (header_b64 @ ''.'' @ payload_b64) signature_b64 (pk_n pk) (pk_e pk))) (\<lambda>valid.
                    if \<not> valid then ret None
                    else
                      bnd (parse_part L E payload_b64) (\<lambda>pl.
                      case pl of None \<Rightarrow> ret None | Some payload \<Rightarrow> check_claims E payload)))))))"

section \<open>Base64url: the round trip\<close>

text \<open>The padding of RFC 4648, the url-safe unpadded encoder, and what OpenSSL documents of its decoder.\<close>

definition padding :: "'a list \<Rightarrow> nat" where
  "padding bs = (3 - length bs mod 3) mod 3"

definition to_url :: "char \<Rightarrow> char" where
  "to_url c = (if c = CHR ''+'' then CHR ''-'' else if c = CHR ''/'' then CHR ''_'' else c)"

definition b64url_encode :: "string \<Rightarrow> string" where
  "b64url_encode bs = map to_url (filter (\<lambda>c. c \<noteq> CHR ''='') (b64_encode bs))"

definition evp_decodes :: "openssl \<Rightarrow> bool" where
  "evp_decodes L \<longleftrightarrow>
     (\<forall>bs. evp_decode_block L (b64_encode bs) = bs @ replicate (padding bs) (CHR 0x00))"

lemma pad4_step: "length s mod 4 \<noteq> 0 \<Longrightarrow> pad4 s = pad4 (s @ ''='')"
  by (subst pad4.simps) simp

lemma pad4_replicate:
  "(length s + k) mod 4 = 0 \<Longrightarrow> k < 4 \<Longrightarrow> pad4 s = s @ replicate k (CHR ''='')"
proof (induction k arbitrary: s)
  case 0
  then show ?case by (subst pad4.simps) simp
next
  case (Suc k)
  have "length s mod 4 \<noteq> 0" using Suc.prems by presburger
  moreover have "pad4 (s @ ''='') = s @ ''='' @ replicate k (CHR ''='')"
    using Suc.IH[of "s @ ''=''"] Suc.prems by simp
  ultimately show ?case by (simp add: pad4_step)
qed

lemma b64_alphabet_plain: "\<forall>c \<in> set b64_alphabet. c \<noteq> CHR ''='' \<and> c \<noteq> CHR ''-'' \<and> c \<noteq> CHR ''_''"
  by code_simp

lemma b64_alphabet_mem: "n < 64 \<Longrightarrow> b64_alphabet ! n \<in> set b64_alphabet"
  by (rule nth_mem) (simp add: b64_alphabet_def)

lemma b64_alphabet_pad [simp]: "n < 64 \<Longrightarrow> b64_alphabet ! n \<noteq> CHR ''=''"
  using b64_alphabet_plain b64_alphabet_mem by blast

lemma sextet_bounds [simp]:
  "(ord8 a * 65536 + ord8 b * 256 + ord8 c) div 262144 < 64"
  "(ord8 a * 65536 + ord8 b * 256) div 262144 < 64" "ord8 a * 65536 div 262144 < 64" "ord8 a div 4 < 64"
proof -
  have "ord8 a * 65536 + ord8 b * 256 + ord8 c < 64 * 262144" "ord8 a * 65536 + ord8 b * 256 < 64 * 262144"
    using ord8_less[of a] ord8_less[of b] ord8_less[of c] by linarith+
  then show "(ord8 a * 65536 + ord8 b * 256 + ord8 c) div 262144 < 64"
    "(ord8 a * 65536 + ord8 b * 256) div 262144 < 64"
    by (simp_all only: less_mult_imp_div_less)
qed (use ord8_less[of a] in \<open>simp_all add: less_mult_imp_div_less\<close>)

definition b64_body :: "string \<Rightarrow> string" where
  "b64_body bs = filter (\<lambda>c. c \<noteq> CHR ''='') (b64_encode bs)"

lemma b64_body_simps:
  "b64_body (a # b # c # r) =
     (let n = ord8 a * 65536 + ord8 b * 256 + ord8 c in
      [b64_alphabet ! (n div 262144), b64_alphabet ! (n div 4096 mod 64),
       b64_alphabet ! (n div 64 mod 64), b64_alphabet ! (n mod 64)] @ b64_body r)"
  "b64_body [a, b] =
     (let n = ord8 a * 65536 + ord8 b * 256 in
      [b64_alphabet ! (n div 262144), b64_alphabet ! (n div 4096 mod 64), b64_alphabet ! (n div 64 mod 64)])"
  "b64_body [a] =
     (let n = ord8 a * 65536 in [b64_alphabet ! (n div 262144), b64_alphabet ! (n div 4096 mod 64)])"
  "b64_body [] = []"
  by (simp_all add: b64_body_def Let_def)

lemma padding_simps [simp]:
  "padding (a # b # c # r) = padding r" "padding [a, b] = Suc 0" "padding [a] = Suc (Suc 0)" "padding [] = 0"
  by (simp_all add: padding_def)

lemma b64_encode_body: "b64_encode bs = b64_body bs @ replicate (padding bs) (CHR ''='')"
  by (induction bs rule: b64_encode.induct)
    (simp_all add: b64_body_simps Let_def)

lemma set_b64_body: "set (b64_body bs) \<subseteq> set b64_alphabet"
  by (induction bs rule: b64_encode.induct)
    (simp_all add: b64_body_simps Let_def b64_alphabet_mem)

lemma length_b64_body: "length (b64_body bs) + padding bs = (length bs + padding bs) div 3 * 4"
proof (induction bs rule: b64_encode.induct)
  case (1 a b c r)
  have "(3 + (length r + padding r)) div 3 = (length r + padding r) div 3 + 1"
    using div_add_self1[of 3 "length r + padding r"] by simp
  with 1 show ?case by (simp add: b64_body_simps Let_def)
qed (simp_all add: b64_body_simps Let_def)

lemma padding_less: "padding bs < 3"
  by (simp add: padding_def)

lemma padding_div: "3 dvd length (bs :: string) + padding bs"
proof (induction bs rule: b64_encode.induct)
  case (1 a b c r)
  then show ?case by simp presburger
qed (simp_all add: numeral_3_eq_3)

lemma b64_body_plain: "i < length (b64_body bs) \<Longrightarrow> b64_body bs ! i \<noteq> CHR ''=''"
  using nth_mem[of i "b64_body bs"] by (simp add: b64_body_def)

lemma from_to_url: "c \<in> set b64_alphabet \<Longrightarrow> from_url (to_url c) = c"
  using b64_alphabet_plain by (auto simp: from_url_def to_url_def)

lemma repad: "pad4 (map from_url (b64url_encode bs)) = b64_encode bs"
proof -
  have "map (\<lambda>c. from_url (to_url c)) (b64_body bs) = b64_body bs"
    by (rule map_idI) (meson from_to_url set_b64_body subsetD)
  then have "map from_url (b64url_encode bs) = b64_body bs"
    by (simp add: b64url_encode_def b64_body_def comp_def)
  moreover have "pad4 (b64_body bs) = b64_body bs @ replicate (padding bs) (CHR ''='')"
    by (rule pad4_replicate) (use length_b64_body padding_less[of bs] in simp_all)
  ultimately show ?thesis by (simp add: b64_encode_body)
qed

lemma decoded_len_encode: "decoded_len (b64_encode bs) = length bs"
proof -
  let ?t = "b64_body bs"
  have tl: "length ?t + padding bs = (length bs + padding bs) div 3 * 4" by (rule length_b64_body)
  have len: "length (b64_encode bs) div 4 * 3 = length bs + padding bs"
    using tl padding_div[of bs] by (simp add: b64_encode_body)
  have ge: "length ?t + padding bs \<ge> 4" if "bs \<noteq> []"
    using tl padding_div[of bs] that by (cases bs) (auto elim!: dvdE)
  consider "bs = []" | "bs \<noteq> []" "padding bs = 0" | "bs \<noteq> []" "padding bs = 1" | "bs \<noteq> []" "padding bs = 2"
    using padding_less[of bs] by linarith
  then show ?thesis
  proof cases
    case 1
    then show ?thesis by (simp add: decoded_len_def)
  next
    case 2
    with ge have "length ?t \<ge> 4" by simp
    with 2 len b64_body_plain[of "length ?t - 1" bs] b64_body_plain[of "length ?t - 2" bs] show ?thesis
      by (simp add: decoded_len_def b64_encode_body)
  next
    case 3
    with ge have "length ?t \<ge> 3" by simp
    with 3 len b64_body_plain[of "length ?t - 1" bs] show ?thesis
      by (simp add: decoded_len_def b64_encode_body nth_append)
  next
    case 4
    with ge have "length ?t \<ge> 2" by simp
    with 4 len show ?thesis
      by (simp add: decoded_len_def b64_encode_body nth_append numeral_2_eq_2)
  qed
qed

lemma padding_0_iff: "padding bs = 0 \<longleftrightarrow> length bs mod 3 = 0"
  unfolding padding_def by presburger

lemma base64urlDecode_encode:
  "evp_decodes L \<Longrightarrow>
   base64urlDecode L (b64url_encode bs) = (if length bs mod 3 = 0 then Inr bs else Inl Undefined)"
  using padding_0_iff[of bs] by (auto simp: base64urlDecode_def repad decoded_len_encode evp_decodes_def Let_def)

lemma base64urlDecode_Inl: "base64urlDecode L x = Inl e \<Longrightarrow> e = Undefined"
  by (simp add: base64urlDecode_def Let_def split: if_splits)

lemma verifySignature_Inl: "verifySignature L d g n e = Inl x \<Longrightarrow> x = Undefined"
  by (auto simp: verifySignature_def split: sum.splits dest: base64urlDecode_Inl)

lemma verifySignature_overrun:
  assumes "base64urlDecode L g = Inl Undefined"
  shows "verifySignature L d g n e = Inl Undefined"
  using assms by (auto simp: verifySignature_def split: sum.splits dest: base64urlDecode_Inl)

text \<open>A library built on the decoder of theory \<open>Crypt\<close>, for concrete examples.\<close>

definition model_openssl :: openssl where
  "model_openssl =
     \<lparr>evp_decode_block = (\<lambda>s. Base64Decode s @ replicate (padding (Base64Decode s)) (CHR 0x00)),
      rsa_public_key = (\<lambda>n e. Some 0),
      digest_verify = (\<lambda>k d g. if g = ''sig'' then 1 else 0)\<rparr>"

lemma model_openssl_decodes: "evp_decodes model_openssl"
  by (simp add: evp_decodes_def model_openssl_def Base64Decode_encode)

section \<open>Splitting and checking\<close>

lemma splitJwt_parts:
  assumes "CHR ''.'' \<notin> set h" "CHR ''.'' \<notin> set p"
  shows "splitJwt (h @ CHR ''.'' # p @ CHR ''.'' # g) = Some (h, p, g)"
proof -
  have "find_from (h @ CHR ''.'' # p @ CHR ''.'' # g) ''.'' (length h + 1) = Some (length h + 1 + length p)"
    using str_find_char[OF assms(2), of g] by (simp add: find_from_def)
  then show ?thesis
    using str_find_char[OF assms(1), of "p @ CHR ''.'' # g"] by (simp add: splitJwt_def)
qed

lemma splitJwt_SomeD:
  assumes "splitJwt token = Some (h, p, g)"
  shows "token = h @ CHR ''.'' # p @ CHR ''.'' # g \<and> CHR ''.'' \<notin> set h \<and> CHR ''.'' \<notin> set p"
proof -
  obtain i where i: "str_find token ''.'' = Some i" using assms by (auto simp: splitJwt_def split: option.splits)
  let ?r = "drop (i + 1) token"
  obtain j where j: "str_find ?r ''.'' = Some j"
    using assms i by (auto simp: splitJwt_def find_from_def split: option.splits if_splits)
  have parts: "h = take i token" "p = take j ?r" "g = drop (j + 1) ?r"
    using assms i j str_find_char_SomeD[OF i]
    by (auto simp: splitJwt_def find_from_def add.commute split: if_splits)
  have glue: "take n xs @ CHR ''.'' # drop (n + 1) xs = xs" if "n < length xs" "xs ! n = CHR ''.''" for n xs
    using that by (metis Suc_eq_plus1 id_take_nth_drop)
  have "p @ CHR ''.'' # g = ?r" unfolding parts(2,3) using str_find_char_SomeD[OF j] by (intro glue) blast+
  moreover have "h @ CHR ''.'' # ?r = token"
    unfolding parts(1) using str_find_char_SomeD[OF i] by (intro glue) blast+
  ultimately have "token = h @ CHR ''.'' # p @ CHR ''.'' # g" by (simp only: \<open>p @ CHR ''.'' # g = ?r\<close>)
  moreover have "CHR ''.'' \<notin> set h" "CHR ''.'' \<notin> set p"
    using str_find_char_SomeD[OF i] str_find_char_SomeD[OF j] by (simp_all add: parts(1,2))
  ultimately show ?thesis by blast
qed

lemma parse_part_apply [simp]:
  "parse_part L E x s =
     (case base64urlDecode L x of Inl e \<Rightarrow> Inl e
      | Inr t \<Rightarrow> Inr (case json_parse E t of Inl w \<Rightarrow> None | Inr j \<Rightarrow> Some j), s)"
  by (auto simp: parse_part_def base64UrlToString_def parse_json_def try_catch_def bnd_def split: sum.splits
      dest: base64urlDecode_Inl)

lemma findKey_SomeD: "findKey k ks = Some pk \<Longrightarrow> pk \<in> set ks \<and> kid pk = k"
  by (auto simp: findKey_def find_Some_iff)

lemma lookup_key_Some:
  "lookup_key E k s = (Inr (Some pk), t) \<Longrightarrow> pk \<in> set (keys_cache t) \<and> kid pk = k"
  by (auto simp: lookup_key_def bnd_eq_Inr split: option.splits dest: findKey_SomeD)

definition google_issuer :: "string \<Rightarrow> bool" where
  "google_issuer iss \<longleftrightarrow> iss = ''https://accounts.google.com'' \<or> iss = ''accounts.google.com''"

lemma check_claims_Some:
  assumes "check_claims E payload s = (Inr (Some u), t)"
  shows "(\<exists>iss. json_value get_string payload ''iss'' [] = Inr iss \<and> google_issuer iss) \<and>
    (\<exists>ex. json_value get_int payload ''exp'' 0 = Inr ex \<and> system_s E (trace s) < ex) \<and>
    json_value get_string payload ''sub'' [] = Inr (u_id u) \<and> u_id u \<noteq> [] \<and>
    json_value get_string payload ''email'' [] = Inr (u_email u) \<and>
    json_value get_string payload ''given_name'' [] = Inr (u_name u) \<and>
    json_value get_string payload ''picture'' [] = Inr (u_picture u) \<and>
    t = s\<lparr>trace := EvSystem # trace s\<rparr>"
  using assms by (auto simp: check_claims_def bnd_eq_Inr google_issuer_def not_le split: if_splits)

text \<open>What it takes for a token to be accepted: \<open>keys\<close> are the keys held, \<open>now\<close> the time of the check.\<close>

definition token_ok :: "openssl \<Rightarrow> env \<Rightarrow> public_key list \<Rightarrow> int \<Rightarrow> string \<Rightarrow> auth_user \<Rightarrow> bool" where
  "token_ok L E keys now token u \<longleftrightarrow>
     (\<exists>h p g ht pt header payload pk iss ex.
        token = h @ ''.'' @ p @ ''.'' @ g \<and>
        base64urlDecode L h = Inr ht \<and> json_parse E ht = Inr header \<and>
        json_find header ''alg'' = Some (JStr ''RS256'') \<and>
        pk \<in> set keys \<and> kid pk \<noteq> [] \<and> json_find header ''kid'' = Some (JStr (kid pk)) \<and>
        verifySignature L (h @ ''.'' @ p) g (pk_n pk) (pk_e pk) = Inr True \<and>
        base64urlDecode L p = Inr pt \<and> json_parse E pt = Inr payload \<and>
        json_find payload ''iss'' = Some (JStr iss) \<and> google_issuer iss \<and>
        json_value get_int payload ''exp'' 0 = Inr ex \<and> now < ex \<and>
        json_find payload ''sub'' = Some (JStr (u_id u)) \<and> u_id u \<noteq> [])"

lemma json_value_string_Some:
  "json_value get_string j k [] = Inr v \<Longrightarrow> v \<noteq> [] \<Longrightarrow> json_find j k = Some (JStr v)"
  by (auto simp: json_value_def split: if_splits option.splits)

lemma validateToken_Some:
  assumes "validateToken L E token s = (Inr (Some u), t)"
  shows "\<exists>h. token_ok L E (keys_cache t) (system_s E h) token u \<and> trace t = EvSystem # h"
proof -
  obtain h p g where hpg: "splitJwt token = Some (h, p, g)"
    using assms by (auto simp: validateToken_def split: option.splits)
  obtain header ht where header: "base64urlDecode L h = Inr ht" "json_parse E ht = Inr header"
    using assms hpg by (auto simp: validateToken_def bnd_eq_Inr split: option.splits sum.splits)
  obtain k pk w payload pt where
    k: "json_value get_string header ''kid'' [] = Inr k" "k \<noteq> []"
      "json_value get_string header ''alg'' [] = Inr ''RS256''"
    and pk: "lookup_key E k s = (Inr (Some pk), w)"
      "verifySignature L (h @ ''.'' @ p) g (pk_n pk) (pk_e pk) = Inr True"
    and pl: "base64urlDecode L p = Inr pt" "json_parse E pt = Inr payload" "check_claims E payload w = (Inr (Some u), t)"
    using assms hpg header
    by (auto simp: validateToken_def bnd_eq_Inr split: option.splits sum.splits if_splits)
  note c = check_claims_Some[OF pl(3)]
  obtain iss ex where iss: "json_value get_string payload ''iss'' [] = Inr iss" "google_issuer iss"
    and ex: "json_value get_int payload ''exp'' 0 = Inr ex" "system_s E (trace w) < ex" using c by blast
  have "iss \<noteq> []" using iss(2) by (auto simp: google_issuer_def)
  then have "json_find payload ''iss'' = Some (JStr iss)" by (rule json_value_string_Some[OF iss(1)])
  moreover have "json_find header ''alg'' = Some (JStr ''RS256'')" using json_value_string_Some[OF k(3)] by simp
  moreover have "json_find header ''kid'' = Some (JStr (kid pk))" "kid pk \<noteq> []" "pk \<in> set (keys_cache t)"
    using json_value_string_Some[OF k(1,2)] lookup_key_Some[OF pk(1)] k(2) c by simp_all
  moreover have "json_find payload ''sub'' = Some (JStr (u_id u))" "u_id u \<noteq> []"
    using c json_value_string_Some[of payload "''sub''" "u_id u"] by simp_all
  moreover have "token = h @ ''.'' @ p @ ''.'' @ g" using splitJwt_SomeD[OF hpg] by simp
  ultimately have "token_ok L E (keys_cache t) (system_s E (trace w)) token u"
    unfolding token_ok_def using header pk(2) pl(1,2) iss(2) ex
    by (intro exI[of _ h] exI[of _ p] exI[of _ g] exI[of _ ht] exI[of _ pt] exI[of _ header] exI[of _ payload] exI[of _ pk]
        exI[of _ iss] exI[of _ ex] conjI)
  with c show ?thesis by (intro exI[of _ "trace w"]) simp
qed

section \<open>Properties\<close>

text \<open>
  C30. Base64url decoding, given that OpenSSL decodes padded Base64 as documented. The output vector always
  has exactly the length of the byte string that was encoded. A byte string whose length is a multiple of three is
  read back from its unpadded url-safe encoding; for every other one the behaviour is undefined, and so is that of
  the check of a signature of such a length, such as the 256 bytes of a 2048-bit key, whatever the key.
\<close>
theorem base64url_roundtrip:
  assumes "evp_decodes L"
  shows "decoded_len (pad4 (map from_url (b64url_encode bs))) = length bs \<and>
    (if length bs mod 3 = 0 then base64urlDecode L (b64url_encode bs) = Inr bs
     else base64urlDecode L (b64url_encode bs) = Inl Undefined \<and>
       (\<forall>d n e. verifySignature L d (b64url_encode bs) n e = Inl Undefined))"
  using base64urlDecode_encode[OF assms, of bs] by (simp add: repad decoded_len_encode verifySignature_overrun)

theorem base64url_roundtrip_witness:
  "base64urlDecode model_openssl (b64url_encode ''abc'') = Inr ''abc'' \<and>
   verifySignature model_openssl ''h.p'' (b64url_encode (replicate 256 (CHR 0x01))) ''u7Xk'' ''AQAB'' = Inl Undefined"
proof -
  have "length (replicate 256 (CHR 0x01)) mod 3 \<noteq> 0" by (simp only: length_replicate) simp
  with base64url_roundtrip[OF model_openssl_decodes, of "''abc''"] base64url_roundtrip[OF model_openssl_decodes, of "replicate 256 (CHR 0x01)"]
  show ?thesis by (metis length_Cons list.size(3) mod_self numeral_3_eq_3)
qed

text \<open>
  C31. The decoder writes past the end of its buffer: whenever the encoded length is no multiple of three,
  \<^verbatim>\<open>EVP_DecodeBlock\<close> writes one or two bytes more than the output vector has, since the vector is sized
  without the bytes of the padding.
\<close>
theorem base64url_overrun:
  assumes "evp_decodes L"
  shows "length (evp_decode_block L (pad4 (map from_url (b64url_encode bs)))) =
    decoded_len (pad4 (map from_url (b64url_encode bs))) + (3 - length bs mod 3) mod 3"
  using assms by (simp add: repad decoded_len_encode evp_decodes_def padding_def)

theorem base64url_overrun_witness:
  "length (evp_decode_block model_openssl (pad4 (map from_url (b64url_encode ''a'')))) =
   decoded_len (pad4 (map from_url (b64url_encode ''a''))) + 2"
  using base64url_overrun[OF model_openssl_decodes, of "''a''"] by simp

text \<open>
  Splitting a token: exactly the texts with two dots at least are split, at the first two dots, and
  the parts put together again are the token.
\<close>
theorem splitJwt_correct:
  "splitJwt token = Some (h, p, g) \<longleftrightarrow>
   token = h @ CHR ''.'' # p @ CHR ''.'' # g \<and> CHR ''.'' \<notin> set h \<and> CHR ''.'' \<notin> set p"
proof
  assume "splitJwt token = Some (h, p, g)"
  then show "token = h @ CHR ''.'' # p @ CHR ''.'' # g \<and> CHR ''.'' \<notin> set h \<and> CHR ''.'' \<notin> set p"
    by (rule splitJwt_SomeD)
next
  assume "token = h @ CHR ''.'' # p @ CHR ''.'' # g \<and> CHR ''.'' \<notin> set h \<and> CHR ''.'' \<notin> set p"
  then show "splitJwt token = Some (h, p, g)" by (simp add: splitJwt_parts)
qed

text \<open>
  C1. Soundness of token validation, for every behaviour of OpenSSL, Google and the clocks: a user is
  returned only for a token whose header names the algorithm RS256 and a key the validator holds, whose
  signature verifies with that key over the header and payload as sent, whose issuer is Google, whose
  expiry lies in the future at the time of the check, and whose subject is the user's id and not empty.
\<close>
theorem validateToken_sound:
  assumes "validateToken L E token s = (Inr (Some u), t)"
  shows "\<exists>h. token_ok L E (keys_cache t) (system_s E h) token u \<and> trace t = EvSystem # h"
  by (rule validateToken_Some[OF assms])

text \<open>
  Two parts of a token, a state that holds one fresh key, and a token of three parts; all of a length the
  decoder can take.
\<close>

definition jwt_header :: json where
  "jwt_header = JObj [(''alg'', JStr ''RS256''), (''kid'', JStr ''key'')]"

definition jwt_payload :: json where
  "jwt_payload = JObj [(''email'', JStr ''a@b''), (''exp'', JUint 10), (''iss'', JStr ''accounts.google.com''),
     (''sub'', JStr ''u1'')]"

lemma jwt_texts:
  assumes "floats E = no_floats"
  shows "json_parse E (text_of jwt_header) = Inr jwt_header" "json_parse E (text_of jwt_payload) = Inr jwt_payload"
    "json_parse E (text_of (JArr [JUint 1])) = Inr (JArr [JUint 1])"
  by (rule json_parse_text_of[OF assms]; simp add: jwt_header_def jwt_payload_def sorted_keys_def)+

definition jwt_start :: jwt_world where
  "jwt_start = \<lparr>trace = [], redis_ptr = False, connected = False, db = new_client, c_client = False,
     keys_cache = [\<lparr>kid = ''key'', pk_n = b64url_encode ''mod'', pk_e = b64url_encode ''exp''\<rparr>], lastFetch = 0\<rparr>"

definition jwt_token :: string where
  "jwt_token = b64url_encode (text_of jwt_header) @ ''.'' @ b64url_encode (text_of jwt_payload) @ ''.'' @ b64url_encode ''sig''"

lemma b64url_no_dot: "CHR ''.'' \<notin> set (b64url_encode bs)"
proof -
  have "\<forall>c \<in> set b64_alphabet. to_url c \<noteq> CHR ''.''" by code_simp
  then have "\<forall>c \<in> set (b64_body bs). to_url c \<noteq> CHR ''.''" using set_b64_body by blast
  then show ?thesis by (auto simp: b64url_encode_def b64_body_def)
qed

lemma splitJwt_sample:
  "splitJwt jwt_token = Some (b64url_encode (text_of jwt_header), b64url_encode (text_of jwt_payload), b64url_encode ''sig'')"
  using splitJwt_parts[OF b64url_no_dot b64url_no_dot] by (simp add: jwt_token_def)

lemma dump_plain:
  assumes "\<forall>c \<in> set s. 0x20 \<le> ord8 c \<and> ord8 c < 0x7F \<and> ord8 c \<noteq> 0x22 \<and> ord8 c \<noteq> 0x5C"
  shows "dump_escaped s = Inr s"
proof -
  have "esc_byte c = [c]" if "c \<in> set s" for c
  proof -
    let ?n = "ord8 c"
    have n: "0x20 \<le> ?n" "?n < 0x7F" "?n \<noteq> 0x22" "?n \<noteq> 0x5C" using assms that by blast+
    then have u: "unat (of_nat ?n :: u32) = ?n" by (simp add: unat_of_nat)
    have w: "(of_nat ?n :: u32) = x \<longleftrightarrow> ?n = unat x" "(of_nat ?n :: u32) \<le> x \<longleftrightarrow> ?n \<le> unat x" for x
      by (simp_all add: word_unat_eq_iff word_le_nat_alt u)
    show ?thesis using n by (simp add: esc_byte_def escape_char_def w)
  qed
  then have "escaped s = s" unfolding escaped_def by (induction s) auto
  moreover have "utf8 s" by (rule utf8_ascii) (use assms in auto)
  ultimately show ?thesis using dump_escaped_eq[of s] by simp
qed

lemma jwt_lengths:
  "length (text_of jwt_header) mod 3 = 0" "length (text_of jwt_payload) mod 3 = 0" "length (text_of (JArr [JUint 1])) mod 3 = 0"
  by (simp_all add: text_of_def jwt_header_def jwt_payload_def dump_plain dump_integer_eq nat_to_string_100 nat_to_string.simps[of 10] nat_to_string_small sum_bind_def)

lemma jwt_fields:
  "json_value get_string jwt_header ''kid'' [] = Inr ''key''" "json_value get_string jwt_header ''alg'' [] = Inr ''RS256''"
  by (simp_all add: jwt_header_def json_value_def)

lemma jwt_claims:
  assumes "\<And>h. system_s E h = 0"
  shows "check_claims E jwt_payload s =
    (Inr (Some \<lparr>u_id = ''u1'', u_email = ''a@b'', u_name = [], u_picture = []\<rparr>), s\<lparr>trace := EvSystem # trace s\<rparr>)"
  using assms by (simp add: check_claims_def jwt_payload_def json_value_def bnd_def get_int_def)

lemma validateToken_sample:
  assumes "floats E = no_floats" "\<And>h. steady_ns E h = 0" "\<And>h. system_s E h = 0"
    and "keys_cache s = keys_cache jwt_start" "lastFetch s = 0"
  shows "validateToken model_openssl E jwt_token s =
     (Inr (Some \<lparr>u_id = ''u1'', u_email = ''a@b'', u_name = [], u_picture = []\<rparr>), s\<lparr>trace := EvSystem # EvSteady # trace s\<rparr>)"
proof -
  note dec = base64urlDecode_encode[OF model_openssl_decodes]
  have "verifySignature model_openssl d (b64url_encode ''sig'') (b64url_encode ''mod'') (b64url_encode ''exp'') = Inr True" for d
    by (simp add: verifySignature_def dec) (simp add: model_openssl_def)
  with assms(2,4,5) show ?thesis
    by (simp add: validateToken_def splitJwt_sample dec jwt_lengths jwt_texts[OF assms(1)] jwt_fields jwt_claims[OF assms(3)]
        jwt_start_def bnd_def lookup_key_def needsRefresh_def findKey_def KEY_TTL_SECONDS_def)
qed

theorem validateToken_sound_witness:
  "\<exists>h. token_ok model_openssl silent_env (keys_cache jwt_start) (system_s silent_env h) jwt_token
     \<lparr>u_id = ''u1'', u_email = ''a@b'', u_name = [], u_picture = []\<rparr>"
  using validateToken_sound[OF validateToken_sample[of silent_env jwt_start]] by (auto simp: jwt_start_def)

text \<open>
  Keys that cannot be read: a response with a number too large for a double makes the parser throw \<^verbatim>\<open>json::out_of_range\<close>,
  which the handler for \<^verbatim>\<open>json::parse_error\<close> does not catch.
\<close>

lemma fetchGoogleKeys_overflow:
  assumes "net E (trace s) certs_req = Response a" "rs_status a = 200" "json_parse E (rs_body a) = Inl Number_overflow"
  shows "\<exists>w. fetchGoogleKeys E s = (Inl (OutOfRange w), s\<lparr>trace := EvHttp certs_req # trace s\<rparr>)"
  using assms by (simp add: fetchGoogleKeys_def http_apply bnd_def try_catch_def parse_json_def json_exn_def)

text \<open>
  A token whose header is valid JSON but no object, such as a list, is not refused: the type error of
  \<^verbatim>\<open>value()\<close> leaves \<^verbatim>\<open>validateToken\<close> as an exception, before any key is looked up.
\<close>
theorem validateToken_header_throws:
  assumes "splitJwt token = Some (h, p, g)" and "base64urlDecode L h = Inr ht" and "json_parse E ht = Inr header"
    and "\<not> is_object header"
  shows "validateToken L E token s = (Inl (type_error ''306'' ''cannot use value() with '' header), s)"
  using assms by (simp add: validateToken_def bnd_def json_value_def)

theorem validateToken_header_throws_witness:
  "\<exists>e. validateToken model_openssl silent_env (b64url_encode (text_of (JArr [JUint 1])) @ ''..'') jwt_start = (Inl e, jwt_start)"
proof -
  let ?h = "b64url_encode (text_of (JArr [JUint 1]))"
  have "splitJwt (?h @ ''..'') = Some (?h, '''', '''')"
    using splitJwt_parts[of ?h "''''" "''''"] b64url_no_dot by simp
  moreover have "base64urlDecode model_openssl ?h = Inr (text_of (JArr [JUint 1]))"
    by (simp add: base64urlDecode_encode[OF model_openssl_decodes] jwt_lengths)
  ultimately show ?thesis
    using validateToken_header_throws[OF _ _ jwt_texts(3)[of silent_env], of "?h @ ''..''" ?h] by fastforce
qed

end
