(* ===== verification/RateLimit.thy ===== *)
theory RateLimit
  imports World
begin

text \<open>
  \<^verbatim>\<open>backend/src/middlewares/ratelimit.cpp\<close>: the sliding-window rate limiter and its interceptor. The
  steady clock is part of the environment; gRPC calls the interceptor at hook points with the
  metadata of the call.
\<close>

section \<open>State\<close>

record route_config =
  rt_method :: string
  max_requests :: int
  window :: int           \<comment> \<open>seconds\<close>

text \<open>
  \<open>usage ip method\<close>: the time stamps, oldest first; an absent entry is an empty queue, as
  \<^verbatim>\<open>operator[]\<close> makes it. \<open>granted\<close> is a ghost: every time stamp ever pushed, with its client and
  method, oldest first.
\<close>

record rl_world = world +
  usage :: "string \<Rightarrow> string \<Rightarrow> int list"
  granted :: "(string \<times> string \<times> int) list"

definition nowSeconds :: "env \<Rightarrow> ('z world_scheme, int) act" where
  "nowSeconds E = bnd (steady E) (\<lambda>ns. ret (sgn ns * (\<bar>ns\<bar> div 1000000000)))"

definition findRoute :: "route_config list \<Rightarrow> string \<Rightarrow> route_config option" where
  "findRoute routes method = find (\<lambda>route. str_contains method (rt_method route)) routes"

text \<open>\<^verbatim>\<open>static_cast<int>(timestamps.size())\<close>\<close>

definition int_size :: "'a list \<Rightarrow> int" where
  "int_size xs = sint (of_nat (length xs) :: u32)"

section \<open>The limiter\<close>

text \<open>The loop that drops expired stamps.\<close>

fun prune :: "int \<Rightarrow> int list \<Rightarrow> int list" where
  "prune cutoff [] = []"
| "prune cutoff (t # ts) = (if t \<le> cutoff then prune cutoff ts else t # ts)"

definition set_usage :: "string \<Rightarrow> string \<Rightarrow> int list \<Rightarrow> 'z rl_world_scheme \<Rightarrow> 'z rl_world_scheme" where
  "set_usage ip method ts s = s\<lparr>usage := (usage s)(ip := (usage s ip)(method := ts))\<rparr>"

definition allowRequest ::
  "route_config list \<Rightarrow> env \<Rightarrow> string \<Rightarrow> string \<Rightarrow> ('z rl_world_scheme, bool) act" where
  "allowRequest routes E method client_ip =
     (case findRoute routes method of
        None \<Rightarrow> ret True
      | Some route \<Rightarrow>
          bnd (nowSeconds E) (\<lambda>now.
          bnd (modify (\<lambda>s. set_usage client_ip method (prune (now - window route) (usage s client_ip method)) s)) (\<lambda>_.
          bnd (gets (\<lambda>s. usage s client_ip method)) (\<lambda>timestamps.
          if int_size timestamps \<ge> max_requests route then ret False
          else
            bnd (nowSeconds E) (\<lambda>now'.
            bnd (modify (\<lambda>s. (set_usage client_ip method (usage s client_ip method @ [now']) s)
                   \<lparr>granted := granted s @ [(client_ip, method, now')]\<rparr>)) (\<lambda>_.
            ret True))))))"

section \<open>The interceptor\<close>

type_synonym metadata = "(string \<times> string) list"

definition getClientIp :: "metadata option \<Rightarrow> string" where
  "getClientIp md =
     (case md of
        None \<Rightarrow> ''unknown''
      | Some metadata \<Rightarrow>
          (case map_of metadata ''x-forwarded-for'' of
             Some ip \<Rightarrow> (case str_find ip '','' of Some comma \<Rightarrow> take comma ip | None \<Rightarrow> ip)
           | None \<Rightarrow>
               (case map_of metadata '':authority'' of Some peer \<Rightarrow> peer | None \<Rightarrow> ''unknown'')))"

text \<open>A status that replaces the one the handler gave: code and message.\<close>

datatype status_code = OK | INVALID_ARGUMENT | NOT_FOUND | PERMISSION_DENIED | UNAUTHENTICATED
  | RESOURCE_EXHAUSTED | INTERNAL | UNAVAILABLE

type_synonym grpc_status = "status_code \<times> string"

definition status_ok :: grpc_status where
  "status_ok = (OK, '''')"

text \<open>The hook points an interceptor is called at, and the call of \<^verbatim>\<open>Intercept\<close> at a set of them.\<close>

record hooks =
  post_recv_initial_metadata :: bool
  pre_send_status :: bool

definition ratelimit_Intercept ::
  "route_config list \<Rightarrow> env \<Rightarrow> string \<Rightarrow> metadata option \<Rightarrow> hooks \<Rightarrow> bool \<Rightarrow> grpc_status
     \<Rightarrow> ('z rl_world_scheme, bool \<times> grpc_status) act" where
  "ratelimit_Intercept routes E method md hk rejected st =
     bnd (if post_recv_initial_metadata hk
          then bnd (allowRequest routes E method (getClientIp md)) (\<lambda>allowed. ret (if \<not> allowed then True else rejected))
          else ret rejected) (\<lambda>rejected'.
     ret (rejected',
          if pre_send_status hk \<and> rejected'
          then (RESOURCE_EXHAUSTED, ''Rate limit exceeded. Try again later.'') else st))"

section \<open>The interface of a sliding window\<close>

text \<open>
  The law of one decision, over the times granted so far: \<open>lim m w now ts\<close> is the queue a decision at
  time \<open>now\<close> looks at. The clients' lemma: with a clock that does not go back, no window of the given
  length ever holds more grants than the limit.
\<close>

definition in_window :: "int \<Rightarrow> int \<Rightarrow> int list \<Rightarrow> int list" where
  "in_window w T gs = filter (\<lambda>t. T - w < t \<and> t \<le> T) gs"

definition windows_ok :: "int \<Rightarrow> int \<Rightarrow> int list \<Rightarrow> bool" where
  "windows_ok m w gs \<longleftrightarrow> (\<forall>T. int (length (in_window w T gs)) \<le> m)"

locale sliding_window =
  fixes pr :: "int \<Rightarrow> int list \<Rightarrow> int list"
  assumes pr_recent: "sorted ts \<Longrightarrow> pr c ts = filter (\<lambda>t. c < t) ts"
begin

text \<open>The queue holds the grants after some cutoff that lies a whole window back.\<close>

definition tracks :: "int \<Rightarrow> int \<Rightarrow> int list \<Rightarrow> int list \<Rightarrow> bool" where
  "tracks w now ts gs \<longleftrightarrow>
     sorted gs \<and> (\<forall>t \<in> set gs. t \<le> now) \<and> (\<exists>c \<le> now - w. ts = filter (\<lambda>t. c < t) gs)"

lemma tracks_later: "tracks w now ts gs \<Longrightarrow> now \<le> now' \<Longrightarrow> tracks w now' ts gs"
proof -
  assume tr: "tracks w now ts gs" and le: "now \<le> now'"
  obtain c where "c \<le> now - w" "ts = filter (\<lambda>t. c < t) gs" using tr by (auto simp: tracks_def)
  moreover have "c \<le> now' - w" using calculation(1) le by simp
  moreover have "sorted gs" "\<forall>t \<in> set gs. t \<le> now'" using tr le by (auto simp: tracks_def)
  ultimately show ?thesis unfolding tracks_def by blast
qed

lemma tracks_prune:
  assumes "tracks w now ts gs"
  shows "pr (now - w) ts = filter (\<lambda>t. now - w < t) gs" "tracks w now (pr (now - w) ts) gs"
proof -
  obtain c where c: "c \<le> now - w" "ts = filter (\<lambda>t. c < t) gs" "sorted gs"
    using assms by (auto simp: tracks_def)
  have "sorted ts" unfolding c(2) by (rule sorted_wrt_filter[OF c(3)])
  then show *: "pr (now - w) ts = filter (\<lambda>t. now - w < t) gs"
    using c(1) by (auto simp: pr_recent c(2) intro!: filter_cong)
  show "tracks w now (pr (now - w) ts) gs"
    unfolding * using assms by (auto simp: tracks_def)
qed

lemma tracks_grant:
  assumes "tracks w now ts gs" "now \<le> now'" "0 < w"
  shows "tracks w now' (pr (now - w) ts @ [now']) (gs @ [now'])"
proof -
  have "sorted (gs @ [now'])" "\<forall>t \<in> set (gs @ [now']). t \<le> now'"
    using assms by (auto simp: tracks_def sorted_append)
  moreover have "pr (now - w) ts @ [now'] = filter (\<lambda>t. now - w < t) (gs @ [now'])"
    using assms tracks_prune(1)[OF assms(1)] by simp
  moreover have "now - w \<le> now' - w" using assms(2) by simp
  ultimately show ?thesis unfolding tracks_def by blast
qed

lemma length_filter_mono: "(\<And>x. x \<in> set xs \<Longrightarrow> P x \<Longrightarrow> Q x) \<Longrightarrow> length (filter P xs) \<le> length (filter Q xs)"
  by (induction xs) (auto simp: le_SucI)

lemma windows_grant:
  assumes tr: "tracks w now ts gs" and le: "now \<le> now'" and w: "windows_ok m w gs"
    and free: "int (length (pr (now - w) ts)) < m"
  shows "windows_ok m w (gs @ [now'])"
  unfolding windows_ok_def
proof
  fix T
  show "int (length (in_window w T (gs @ [now']))) \<le> m"
  proof (cases "T - w < now' \<and> now' \<le> T")
    case True
    have "length (in_window w T gs) \<le> length (filter (\<lambda>t. now - w < t) gs)"
      unfolding in_window_def using True le by (intro length_filter_mono) auto
    then show ?thesis using True free tracks_prune(1)[OF tr] by (simp add: in_window_def)
  next
    case False
    then have "in_window w T (gs @ [now']) = in_window w T gs" by (auto simp: in_window_def)
    then show ?thesis using w by (simp add: windows_ok_def)
  qed
qed

end

lemma prune_filter: "sorted ts \<Longrightarrow> prune c ts = filter (\<lambda>t. c < t) ts"
proof (induction ts)
  case (Cons t ts)
  then have "\<not> t \<le> c \<Longrightarrow> filter (\<lambda>t. c < t) ts = ts" by (auto simp: filter_id_conv)
  with Cons show ?case by auto
qed simp

interpretation limiter: sliding_window prune
  by unfold_locales (rule prune_filter)

section \<open>The limiter keeps its window\<close>

definition steady_monotone :: "env \<Rightarrow> bool" where
  "steady_monotone E \<longleftrightarrow> (\<forall>h ev. 0 \<le> steady_ns E h \<and> steady_ns E h \<le> steady_ns E (ev # h))"

definition clock :: "env \<Rightarrow> history \<Rightarrow> int" where
  "clock E h = steady_ns E h div 1000000000"

definition grants :: "string \<Rightarrow> string \<Rightarrow> (string \<times> string \<times> int) list \<Rightarrow> int list" where
  "grants ip m gs = map (\<lambda>(i, n, t). t) (filter (\<lambda>(i, n, t). i = ip \<and> n = m) gs)"

text \<open>Routes as the server configures them: positive windows, limits that are machine integers.\<close>

definition route_ok :: "route_config \<Rightarrow> bool" where
  "route_ok r \<longleftrightarrow> 0 < window r \<and> 0 \<le> max_requests r \<and> max_requests r < 2 ^ 31"

definition rl_inv :: "route_config list \<Rightarrow> env \<Rightarrow> 'z rl_world_scheme \<Rightarrow> bool" where
  "rl_inv routes E s \<longleftrightarrow>
     (\<forall>ip m r. findRoute routes m = Some r \<longrightarrow>
        limiter.tracks (window r) (clock E (trace s)) (usage s ip m) (grants ip m (granted s)) \<and>
        windows_ok (max_requests r) (window r) (grants ip m (granted s)))"

lemma nowSeconds_run:
  "steady_monotone E \<Longrightarrow>
   nowSeconds E s = (Inr (clock E (trace s)), s\<lparr>trace := EvSteady # trace s\<rparr>)"
proof -
  assume "steady_monotone E"
  then have n: "0 \<le> steady_ns E (trace s)" by (simp add: steady_monotone_def)
  then have "sgn (steady_ns E (trace s)) * (\<bar>steady_ns E (trace s)\<bar> div 1000000000) = clock E (trace s)"
    by (cases "steady_ns E (trace s) = 0") (simp_all add: clock_def)
  then show ?thesis by (simp add: nowSeconds_def bnd_def)
qed

lemma clock_mono: "steady_monotone E \<Longrightarrow> clock E h \<le> clock E (ev # h)"
  by (simp add: clock_def steady_monotone_def zdiv_mono1)

lemma int_size_eq: "length xs < 2 ^ 31 \<Longrightarrow> int_size xs = int (length xs)"
proof -
  assume l: "length xs < 2 ^ 31"
  have "int_size xs = signed_take_bit 31 (int (length xs))"
    by (simp add: int_size_def signed_of_nat)
  with l show ?thesis by (simp add: signed_take_bit_int_eq_self)
qed

lemma findRoute_mem: "findRoute routes m = Some r \<Longrightarrow> r \<in> set routes"
  by (auto simp: findRoute_def find_Some_iff)

lemma grants_snoc [simp]:
  "grants ip m (gs @ [(ip', m', t)]) = grants ip m gs @ (if ip' = ip \<and> m' = m then [t] else [])"
  by (simp add: grants_def)

lemma recent_window:
  assumes "limiter.tracks w now ts gs"
  shows "prune (now - w) ts = in_window w now gs"
  using limiter.tracks_prune(1)[OF assms] assms
  by (auto simp: in_window_def limiter.tracks_def intro!: filter_cong)

text \<open>The state after a refusal and after a grant.\<close>

definition refused :: "route_config \<Rightarrow> env \<Rightarrow> string \<Rightarrow> string \<Rightarrow> 'z rl_world_scheme \<Rightarrow> 'z rl_world_scheme" where
  "refused r E m ip s =
     set_usage ip m (in_window (window r) (clock E (trace s)) (grants ip m (granted s)))
       (s\<lparr>trace := EvSteady # trace s\<rparr>)"

definition admitted :: "route_config \<Rightarrow> env \<Rightarrow> string \<Rightarrow> string \<Rightarrow> 'z rl_world_scheme \<Rightarrow> 'z rl_world_scheme" where
  "admitted r E m ip s =
     (let now' = clock E (EvSteady # trace s) in
      (set_usage ip m (in_window (window r) (clock E (trace s)) (grants ip m (granted s)) @ [now'])
        (s\<lparr>trace := EvSteady # EvSteady # trace s\<rparr>))
      \<lparr>granted := granted s @ [(ip, m, now')]\<rparr>)"

lemma allowRequest_run:
  assumes mono: "steady_monotone E" and inv: "rl_inv routes E s"
    and r: "findRoute routes m = Some r" "route_ok r"
  shows "allowRequest routes E m ip s =
    (if int (length (in_window (window r) (clock E (trace s)) (grants ip m (granted s)))) < max_requests r
     then (Inr True, admitted r E m ip s) else (Inr False, refused r E m ip s))"
proof -
  let ?q = "in_window (window r) (clock E (trace s)) (grants ip m (granted s))"
  have tr: "limiter.tracks (window r) (clock E (trace s)) (usage s ip m) (grants ip m (granted s))"
    and ok: "windows_ok (max_requests r) (window r) (grants ip m (granted s))"
    using inv r(1) by (auto simp: rl_inv_def)
  have "int (length ?q) \<le> max_requests r" using ok by (simp add: windows_ok_def)
  then have "int_size ?q = int (length ?q)"
    using r(2) by (intro int_size_eq) (simp add: route_ok_def)
  then show ?thesis
    using r(1) recent_window[OF tr]
    by (simp add: allowRequest_def bnd_def nowSeconds_run[OF mono] set_usage_def admitted_def refused_def
        Let_def fun_upd_idem_iff)
qed

lemma rl_inv_refused:
  assumes "steady_monotone E" "rl_inv routes E s" "findRoute routes m = Some r"
  shows "rl_inv routes E (refused r E m ip s)"
  unfolding rl_inv_def
proof (intro allI impI)
  fix ip' m' r'
  assume r': "findRoute routes m' = Some r'"
  note inv = assms(2)[unfolded rl_inv_def, rule_format, OF r', of ip']
  have later: "limiter.tracks (window r') (clock E (EvSteady # trace s)) ts (grants ip' m' (granted s))"
    if "limiter.tracks (window r') (clock E (trace s)) ts (grants ip' m' (granted s))" for ts
    using limiter.tracks_later[OF that clock_mono[OF assms(1)]] .
  show "limiter.tracks (window r') (clock E (trace (refused r E m ip s))) (usage (refused r E m ip s) ip' m')
         (grants ip' m' (granted (refused r E m ip s))) \<and>
        windows_ok (max_requests r') (window r') (grants ip' m' (granted (refused r E m ip s)))"
  proof (cases "ip' = ip \<and> m' = m")
    case True
    then have "r' = r" using r' assms(3) by simp
    have "limiter.tracks (window r) (clock E (trace s)) (in_window (window r) (clock E (trace s)) (grants ip m (granted s)))
            (grants ip m (granted s))"
      using limiter.tracks_prune(2) recent_window inv True \<open>r' = r\<close> by metis
    then show ?thesis using later inv True \<open>r' = r\<close> by (simp add: refused_def set_usage_def)
  next
    case False
    then show ?thesis using later inv by (auto simp: refused_def set_usage_def)
  qed
qed

lemma rl_inv_admitted:
  assumes "steady_monotone E" "rl_inv routes E s" "findRoute routes m = Some r" "route_ok r"
    and free: "int (length (in_window (window r) (clock E (trace s)) (grants ip m (granted s)))) < max_requests r"
  shows "rl_inv routes E (admitted r E m ip s)"
  unfolding rl_inv_def
proof (intro allI impI)
  fix ip' m' r'
  assume r': "findRoute routes m' = Some r'"
  note inv = assms(2)[unfolded rl_inv_def, rule_format, OF r', of ip']
  let ?c = "clock E (trace s)" and ?c' = "clock E (EvSteady # trace s)" and ?c'' = "clock E (EvSteady # EvSteady # trace s)"
  have le: "?c \<le> ?c'" "?c' \<le> ?c''" using clock_mono[OF assms(1)] by simp_all
  show "limiter.tracks (window r') (clock E (trace (admitted r E m ip s))) (usage (admitted r E m ip s) ip' m')
         (grants ip' m' (granted (admitted r E m ip s))) \<and>
        windows_ok (max_requests r') (window r') (grants ip' m' (granted (admitted r E m ip s)))"
  proof (cases "ip' = ip \<and> m' = m")
    case True
    then have rr: "r' = r" using r' assms(3) by simp
    let ?g = "grants ip m (granted s)"
    have tr: "limiter.tracks (window r) ?c (usage s ip m) ?g" and ok: "windows_ok (max_requests r) (window r) ?g"
      using inv True rr by auto
    have "limiter.tracks (window r) ?c' (in_window (window r) ?c ?g @ [?c']) (?g @ [?c'])"
      using limiter.tracks_grant[OF tr le(1)] assms(4) by (simp add: recent_window[OF tr] route_ok_def)
    moreover have "windows_ok (max_requests r) (window r) (?g @ [?c'])"
      using limiter.windows_grant[OF tr le(1) ok] free by (simp add: recent_window[OF tr])
    ultimately show ?thesis
      using True rr limiter.tracks_later[OF _ le(2)] by (simp add: admitted_def set_usage_def Let_def)
  next
    case False
    have "limiter.tracks (window r') ?c'' (usage s ip' m') (grants ip' m' (granted s))"
      using inv le limiter.tracks_later by (meson order_trans)
    with False inv show ?thesis by (auto simp: admitted_def set_usage_def Let_def)
  qed
qed

lemma rl_inv_allowRequest:
  assumes "steady_monotone E" "rl_inv routes E s" "\<forall>r \<in> set routes. route_ok r"
  shows "rl_inv routes E (snd (allowRequest routes E m ip s))"
proof (cases "findRoute routes m")
  case None
  then show ?thesis using assms(2) by (simp add: allowRequest_def)
next
  case (Some r)
  then have "route_ok r" using assms(3) findRoute_mem by blast
  then show ?thesis
    using allowRequest_run[OF assms(1,2) Some] rl_inv_refused[OF assms(1,2) Some]
      rl_inv_admitted[OF assms(1,2) Some] by simp
qed

definition rl_start :: rl_world where
  "rl_start = \<lparr>trace = [], usage = (\<lambda>ip m. []), granted = []\<rparr>"

lemma rl_inv_start: "\<forall>r \<in> set routes. route_ok r \<Longrightarrow> rl_inv routes E rl_start"
  by (auto simp: rl_inv_def rl_start_def grants_def limiter.tracks_def windows_ok_def in_window_def route_ok_def
      dest!: findRoute_mem)

text \<open>A sequence of requests, each a method and a client.\<close>

fun run_requests :: "route_config list \<Rightarrow> env \<Rightarrow> (string \<times> string) list \<Rightarrow> 'z rl_world_scheme \<Rightarrow> 'z rl_world_scheme" where
  "run_requests routes E [] s = s"
| "run_requests routes E ((m, ip) # qs) s = run_requests routes E qs (snd (allowRequest routes E m ip s))"

lemma rl_inv_run:
  "steady_monotone E \<Longrightarrow> \<forall>r \<in> set routes. route_ok r \<Longrightarrow> rl_inv routes E s \<Longrightarrow> rl_inv routes E (run_requests routes E qs s)"
  by (induction routes E qs s rule: run_requests.induct) (auto intro: rl_inv_allowRequest)

lemma silent_monotone: "steady_monotone silent_env"
  by (simp add: steady_monotone_def silent_env_def)

definition sample_routes :: "route_config list" where
  "sample_routes = [\<lparr>rt_method = ''Login'', max_requests = 1, window = 60\<rparr>]"

section \<open>Properties\<close>

text \<open>
  C4. The rate limit holds: after any sequence of requests from any clients, with a steady clock that
  does not go back, every window of the configured length holds at most the configured number of
  admitted requests for each client and method.
\<close>
theorem rate_limit_holds:
  assumes "steady_monotone E" and "\<forall>r \<in> set routes. route_ok r" and "findRoute routes m = Some r"
  shows "int (length (in_window (window r) T (grants ip m (granted (run_requests routes E qs rl_start))))) \<le> max_requests r"
  using rl_inv_run[OF assms(1,2) rl_inv_start[OF assms(2)], of qs] assms(3)
  by (simp add: rl_inv_def windows_ok_def)

theorem rate_limit_holds_witness:
  "int (length (in_window 60 0 (grants ''1.2.3.4'' ''/Login''
     (granted (run_requests sample_routes silent_env [(''/Login'', ''1.2.3.4''), (''/Login'', ''1.2.3.4'')] rl_start))))) \<le> 1"
proof -
  have "findRoute sample_routes ''/Login'' = Some \<lparr>rt_method = ''Login'', max_requests = 1, window = 60\<rparr>"
    by (simp add: findRoute_def sample_routes_def str_contains_def)
  moreover have "\<forall>r \<in> set sample_routes. route_ok r" by (simp add: sample_routes_def route_ok_def)
  ultimately show ?thesis
    using rate_limit_holds[OF silent_monotone, of sample_routes "''/Login''"
        "\<lparr>rt_method = ''Login'', max_requests = 1, window = 60\<rparr>" 0 "''1.2.3.4''"
        "[(''/Login'', ''1.2.3.4''), (''/Login'', ''1.2.3.4'')]"] by simp
qed

text \<open>
  C5. The decision is exact: in any reachable state a request on a limited route is admitted if and only
  if fewer than the configured number were admitted for that client and method within the window that
  ends now; a method on no route is always admitted.
\<close>
theorem allowRequest_exact:
  assumes "steady_monotone E" and "\<forall>r \<in> set routes. route_ok r" and "s = run_requests routes E qs rl_start"
  shows "fst (allowRequest routes E m ip s) = Inr (case findRoute routes m of
      None \<Rightarrow> True
    | Some r \<Rightarrow> int (length (in_window (window r) (clock E (trace s)) (grants ip m (granted s)))) < max_requests r)"
proof (cases "findRoute routes m")
  case None
  then show ?thesis by (simp add: allowRequest_def)
next
  case (Some r)
  have "rl_inv routes E s" unfolding assms(3) by (rule rl_inv_run[OF assms(1,2) rl_inv_start[OF assms(2)]])
  moreover have "route_ok r" using Some assms(2) findRoute_mem by blast
  ultimately show ?thesis using allowRequest_run[OF assms(1) _ Some, of s ip] Some by simp
qed

theorem allowRequest_exact_witness:
  "fst (allowRequest sample_routes silent_env ''/Login'' ''1.2.3.4'' rl_start) = Inr True"
proof -
  have "findRoute sample_routes ''/Login'' = Some \<lparr>rt_method = ''Login'', max_requests = 1, window = 60\<rparr>"
    by (simp add: findRoute_def sample_routes_def str_contains_def)
  moreover have "\<forall>r \<in> set sample_routes. route_ok r" by (simp add: sample_routes_def route_ok_def)
  ultimately show ?thesis
    using allowRequest_exact[OF silent_monotone, of sample_routes rl_start "[]" "''/Login''" "''1.2.3.4''"]
    by (simp add: rl_start_def grants_def in_window_def)
qed

end
