(* ===== verification/Auth.thy ===== *)
theory Auth
  imports Jwt RateLimit Config
begin

text \<open>
  \<^verbatim>\<open>backend/src/middlewares/authMiddle.cpp\<close>: the users attached to running calls, the OAuth exchanges
  with Google, and the authentication interceptor.
\<close>

section \<open>Users of calls\<close>

text \<open>A call is known by the address of its \<^verbatim>\<open>grpc::ServerContext\<close>.\<close>

type_synonym context_ptr = nat

record auth_world = jwt_world +
  users :: "context_ptr \<rightharpoonup> auth_user"

definition GetUser :: "context_ptr \<Rightarrow> ('z auth_world_scheme, auth_user option) act" where
  "GetUser ctx = gets (\<lambda>s. users s ctx)"

definition SetUser :: "context_ptr \<Rightarrow> auth_user \<Rightarrow> ('z auth_world_scheme, unit) act" where
  "SetUser ctx user = modify (\<lambda>s. s\<lparr>users := (users s)(ctx \<mapsto> user)\<rparr>)"

definition no_user :: auth_user where
  "no_user = \<lparr>u_id = [], u_email = [], u_name = [], u_picture = []\<rparr>"

definition ValidateIdToken ::
  "openssl \<Rightarrow> env \<Rightarrow> string \<Rightarrow> ('z jwt_world_scheme, grpc_status \<times> auth_user) act" where
  "ValidateIdToken L E id_token =
     bnd (validateToken L E id_token) (\<lambda>user.
       ret (case user of
              None \<Rightarrow> ((UNAUTHENTICATED, ''Invalid or expired token''), no_user)
            | Some u \<Rightarrow> (status_ok, u)))"

section \<open>OAuth\<close>

definition token_req :: "string \<Rightarrow> http_req" where
  "token_req body =
     \<lparr>rq_base = ''https://oauth2.googleapis.com'', rq_verify = True, rq_verb = POST, rq_path = ''/token'',
      rq_headers = [(''Content-Type'', ''application/json'')], rq_body = body, rq_type = ''application/json''\<rparr>"

text \<open>
  A parse whose failure leaves an empty initialiser list behind, which \<^verbatim>\<open>nlohmann::json\<close> reads as null;
  \<^verbatim>\<open>value()\<close> on it throws.
\<close>

definition error_message :: "env \<Rightarrow> string \<Rightarrow> string \<Rightarrow> exn + string" where
  "error_message E body dflt =
     (let erro = (case parse_json E body of Inr j \<Rightarrow> j | Inl e \<Rightarrow> JNull)
      in json_value get_string erro ''error_description'' dflt)"

definition ExchangeCodeForToken ::
  "os \<Rightarrow> environ \<Rightarrow> env \<Rightarrow> string \<Rightarrow> string \<Rightarrow> ('z world_scheme, grpc_status \<times> string \<times> string) act" where
  "ExchangeCodeForToken os m E authorization_code redirect_uri =
     (case (getenv os m ''GOOGLE_CLIENT_ID'', getenv os m ''GOOGLE_CLIENT_SECRET'') of
        (Some client_id, Some client_secret) \<Rightarrow>
          bnd (of_sum (dump E (mk_obj
                 [(''code'', JStr authorization_code), (''client_id'', JStr client_id),
                  (''client_secret'', JStr client_secret), (''redirect_uri'', JStr redirect_uri),
                  (''grant_type'', JStr ''authorization_code'')]))) (\<lambda>body.
          bnd (http E (token_req body)) (\<lambda>resposta.
          case resposta of
            None \<Rightarrow> ret ((UNAVAILABLE, ''Failed to connect to Google''), '''', '''')
          | Some a \<Rightarrow>
              if rs_status a \<noteq> 200
              then bnd (of_sum (error_message E (rs_body a) ''Failed to exchange authorization code'')) (\<lambda>erro_msg.
                   ret ((UNAUTHENTICATED, erro_msg), '''', ''''))
              else
                (case parse_json E (rs_body a) of
                   Inl e \<Rightarrow> if is_parse_error e then ret ((INTERNAL, ''Invalid token response''), '''', '''') else raise e
                 | Inr dados \<Rightarrow>
                     bnd (of_sum (json_value get_string dados ''access_token'' [])) (\<lambda>access_token.
                     bnd (of_sum (json_value get_string dados ''refresh_token'' [])) (\<lambda>refresh_token.
                     bnd (of_sum (json_value get_string dados ''id_token'' [])) (\<lambda>id_token.
                     if id_token = [] then ret ((INTERNAL, ''No id_token in response''), '''', '''')
                     else ret (status_ok, id_token, refresh_token)))))))
      | _ \<Rightarrow> ret ((INTERNAL, ''OAuth not configured''), '''', ''''))"

definition RefreshAccessToken ::
  "os \<Rightarrow> environ \<Rightarrow> env \<Rightarrow> string \<Rightarrow> ('z world_scheme, grpc_status \<times> string) act" where
  "RefreshAccessToken os m E refresh_token =
     (case (getenv os m ''GOOGLE_CLIENT_ID'', getenv os m ''GOOGLE_CLIENT_SECRET'') of
        (Some client_id, Some client_secret) \<Rightarrow>
          bnd (of_sum (dump E (mk_obj
                 [(''client_id'', JStr client_id), (''client_secret'', JStr client_secret),
                  (''refresh_token'', JStr refresh_token), (''grant_type'', JStr ''refresh_token'')]))) (\<lambda>body.
          bnd (http E (token_req body)) (\<lambda>resposta.
          case resposta of
            None \<Rightarrow> ret ((UNAVAILABLE, ''Failed to connect to Google''), '''')
          | Some a \<Rightarrow>
              if rs_status a \<noteq> 200
              then bnd (of_sum (error_message E (rs_body a) ''Failed to refresh access token'')) (\<lambda>erro_msg.
                   ret ((UNAUTHENTICATED, erro_msg), ''''))
              else
                (case parse_json E (rs_body a) of
                   Inl e \<Rightarrow> if is_parse_error e then ret ((INTERNAL, ''Invalid token response''), '''') else raise e
                 | Inr dados \<Rightarrow>
                     bnd (of_sum (json_value get_string dados ''id_token'' [])) (\<lambda>id_token.
                     if id_token = [] then ret ((INTERNAL, ''No id_token in response''), '''')
                     else ret (status_ok, id_token)))))
      | _ \<Rightarrow> ret ((INTERNAL, ''OAuth not configured''), ''''))"

section \<open>The interceptor\<close>

definition isPublicMethod :: "string \<Rightarrow> bool" where
  "isPublicMethod method \<longleftrightarrow>
     str_contains method ''Login'' \<or>
     str_contains method ''RefreshAccessToken'' \<or>
     str_contains method ''GetPost'' \<or>
     str_contains method ''GetProfile'' \<or>
     str_contains method ''SearchUsers'' \<or>
     str_contains method ''GetFollowers'' \<or>
     str_contains method ''GetFollowing'' \<or>
     str_contains method ''ListLikes'' \<or>
     str_contains method ''ListComments'' \<or>
     str_contains method ''ListNotifications''"

definition ExtractCookie :: "string \<Rightarrow> string \<Rightarrow> string" where
  "ExtractCookie cookie_header name =
     (let search = name @ ''='' in
      case str_find cookie_header search of
        None \<Rightarrow> []
      | Some p \<Rightarrow>
          (let pos = p + length search;
               e = (case find_from cookie_header '';'' pos of Some e \<Rightarrow> e | None \<Rightarrow> length cookie_header)
           in take (e - pos) (drop pos cookie_header)))"

text \<open>The token of a call: the \<^verbatim>\<open>authorization\<close> entry, or else the cookie.\<close>

definition call_token :: "metadata \<Rightarrow> string" where
  "call_token md =
     (let token = (case map_of md ''authorization'' of
                     Some raw \<Rightarrow> if length raw > 7 \<and> take 7 raw = ''Bearer '' then drop 7 raw else raw
                   | None \<Rightarrow> [])
      in if token = []
         then (case map_of md ''cookie'' of Some c \<Rightarrow> ExtractCookie c ''id_token'' | None \<Rightarrow> [])
         else token)"

text \<open>\<open>method\<close> and \<open>ctx\<close> are what the \<^verbatim>\<open>ServerRpcInfo\<close> of the call gives; the flag is \<^verbatim>\<open>token_valid_\<close>.\<close>

definition interceptor_validateToken ::
  "openssl \<Rightarrow> env \<Rightarrow> string \<Rightarrow> context_ptr \<Rightarrow> metadata \<Rightarrow> bool \<Rightarrow> ('z auth_world_scheme, bool) act" where
  "interceptor_validateToken L E method ctx md token_valid =
     (if isPublicMethod method then ret token_valid
      else
        let token = call_token md in
        if token = [] then ret False
        else
          bnd (ValidateIdToken L E token) (\<lambda>(status, user).
          if fst status \<noteq> OK then ret False
          else bnd (SetUser ctx user) (\<lambda>_. ret token_valid)))"

definition auth_Intercept ::
  "openssl \<Rightarrow> env \<Rightarrow> string \<Rightarrow> context_ptr \<Rightarrow> metadata option \<Rightarrow> hooks \<Rightarrow> bool \<Rightarrow> grpc_status
     \<Rightarrow> ('z auth_world_scheme, bool \<times> grpc_status) act" where
  "auth_Intercept L E method ctx md hk token_valid st =
     bnd (case md of
            Some recv_metadata \<Rightarrow>
              if post_recv_initial_metadata hk
              then interceptor_validateToken L E method ctx recv_metadata token_valid
              else ret token_valid
          | None \<Rightarrow> ret token_valid) (\<lambda>token_valid'.
     ret (token_valid',
          if pre_send_status hk \<and> \<not> token_valid'
          then (UNAUTHENTICATED, ''Invalid or missing token'') else st))"

section \<open>The interface of the user store\<close>

text \<open>
  What the interceptor and the handlers share: a store that gives back what was last put in for a call
  and keeps the calls apart. In particular nothing is ever taken out.
\<close>

locale user_store =
  fixes get_user :: "'c \<Rightarrow> ('s, 'u option) act" and set_user :: "'c \<Rightarrow> 'u \<Rightarrow> ('s, unit) act"
  assumes get_pure: "snd (get_user c s) = s" and get_total: "\<exists>r. fst (get_user c s) = Inr r"
    and set_total: "fst (set_user c u s) = Inr ()"
    and get_set: "fst (get_user c (snd (set_user c' u s))) = (if c = c' then Inr (Some u) else fst (get_user c s))"
begin

lemma set_set: "fst (get_user c (snd (set_user c u' (snd (set_user c u s))))) = Inr (Some u')"
  by (simp add: get_set)

lemma never_forgets:
  "fst (get_user c s) = Inr (Some u) \<Longrightarrow> \<exists>v. fst (get_user c (snd (set_user c' u' s))) = Inr (Some v)"
  by (simp add: get_set)

lemma apart: "c \<noteq> c' \<Longrightarrow> fst (get_user c (snd (set_user c' u s))) = fst (get_user c s)"
  by (simp add: get_set)

end

interpretation users: user_store GetUser SetUser
  by unfold_locales (simp_all add: GetUser_def SetUser_def)

section \<open>Lemmas\<close>

lemma frames_mapA [frames]: "(\<And>x. frames f (g x)) \<Longrightarrow> frames f (mapA g xs)"
  by (induction xs) (auto intro!: frames)

lemma frames_steady [frames]: "(\<And>s h. f (s\<lparr>trace := h\<rparr>) = f s) \<Longrightarrow> frames f (steady E)"
  by (simp add: steady_def frames)

lemma frames_system_clock [frames]: "(\<And>s h. f (s\<lparr>trace := h\<rparr>) = f s) \<Longrightarrow> frames f (system_clock E)"
  by (simp add: system_clock_def frames)

lemma frames_parse_part: "frames users (parse_part L E t)"
  by (simp add: frames_def)

lemma frames_fetchGoogleKeys: "frames users (fetchGoogleKeys E)"
  unfolding fetchGoogleKeys_def
  by (auto intro!: frames split: option.splits json.splits)

lemma frames_lookup_key: "frames users (lookup_key E k)"
  unfolding lookup_key_def needsRefresh_def
  by (intro frames frames_fetchGoogleKeys) (auto intro!: frames frames_fetchGoogleKeys split: option.splits)

lemma frames_check_claims: "frames users (check_claims E payload)"
  unfolding check_claims_def by (intro frames) auto

lemma frames_validateToken: "frames users (validateToken L E token)"
  unfolding validateToken_def
  by (auto intro!: frames frames_parse_part frames_lookup_key frames_check_claims split: option.splits)

lemma interceptor_valid:
  assumes "\<not> isPublicMethod method" "interceptor_validateToken L E method ctx md True s = (Inr valid, t)"
  shows "if valid
    then \<exists>u h. users t = (users s)(ctx \<mapsto> u) \<and> token_ok L E (keys_cache t) (system_s E h) (call_token md) u \<and>
      trace t = EvSystem # h
    else users t = users s"
proof (cases "call_token md = []")
  case True
  then show ?thesis using assms by (simp add: interceptor_validateToken_def Let_def)
next
  case False
  obtain r v where v: "validateToken L E (call_token md) s = (Inr r, v)"
    using assms False by (auto simp: interceptor_validateToken_def ValidateIdToken_def bnd_eq_Inr Let_def)
  have u: "users v = users s" by (rule framesD[OF frames_validateToken v])
  show ?thesis
  proof (cases r)
    case None
    then show ?thesis
      using assms False v u
      by (simp add: interceptor_validateToken_def ValidateIdToken_def bnd_def Let_def)
  next
    case (Some user)
    then obtain h where "token_ok L E (keys_cache v) (system_s E h) (call_token md) user" "trace v = EvSystem # h"
      using validateToken_Some v by blast
    moreover have "valid" "t = v\<lparr>users := (users s)(ctx \<mapsto> user)\<rparr>"
      using assms False v u Some
      by (auto simp: interceptor_validateToken_def ValidateIdToken_def bnd_def SetUser_def status_ok_def Let_def)
    ultimately show ?thesis by auto
  qed
qed

lemma str_find_skip:
  "n \<noteq> [] \<Longrightarrow> hd n \<notin> set pre \<Longrightarrow> str_find (pre @ n @ r) n = Some (length pre)"
proof (induction pre)
  case Nil
  then show ?case by (cases n) auto
next
  case (Cons c pre)
  then show ?case by (cases n) auto
qed

lemma ExtractCookie_found:
  assumes "hd (name @ ''='') \<notin> set pre" "CHR '';'' \<notin> set v"
  shows "ExtractCookie (pre @ name @ ''='' @ v) name = v"
    and "ExtractCookie (pre @ name @ ''='' @ v @ CHR '';'' # r) name = v"
proof -
  have f: "str_find (pre @ (name @ ''='') @ x) (name @ ''='') = Some (length pre)" for x
    using assms(1) by (intro str_find_skip) auto
  have d: "drop (length pre + Suc (length name)) (pre @ name @ CHR ''='' # x) = x" for x
    by simp
  show "ExtractCookie (pre @ name @ ''='' @ v) name = v"
    using f[of v] assms(2) d[of v]
    by (simp add: ExtractCookie_def find_from_def str_find_char_None[THEN iffD2])
  show "ExtractCookie (pre @ name @ ''='' @ v @ CHR '';'' # r) name = v"
    using f[of "v @ CHR '';'' # r"] str_find_char[OF assms(2), of r] d[of "v @ CHR '';'' # r"]
    by (simp add: ExtractCookie_def find_from_def)
qed

section \<open>Properties\<close>

text \<open>
  C2. The authentication interceptor on a protected method: if it lets the call pass, the call has been
  given a user for whom the call's token was validated, with the keys held now and at the time the clock has just
  shown, and no other call's user has changed; if not, no
  user was set and the status sent at the end is UNAUTHENTICATED whatever the handler answered.
\<close>
theorem auth_Intercept_correct:
  assumes "\<not> isPublicMethod method"
    and "auth_Intercept L E method ctx (Some md) \<lparr>post_recv_initial_metadata = True, pre_send_status = False\<rparr> True st s
      = (Inr (valid, st'), t)"
  shows "(if valid
     then \<exists>u h. users t = (users s)(ctx \<mapsto> u) \<and> token_ok L E (keys_cache t) (system_s E h) (call_token md) u \<and>
       trace t = EvSystem # h
     else users t = users s) \<and>
    auth_Intercept L E method ctx (Some md) \<lparr>post_recv_initial_metadata = False, pre_send_status = True\<rparr> valid ans t'
      = (Inr (valid, if valid then ans else (UNAUTHENTICATED, ''Invalid or missing token'')), t')"
proof -
  have "interceptor_validateToken L E method ctx md True s = (Inr valid, t)"
    using assms(2) by (auto simp: auth_Intercept_def bnd_eq_Inr)
  note v = interceptor_valid[OF assms(1) this]
  show ?thesis by (rule conjI[OF v]) (simp add: auth_Intercept_def bnd_def)
qed

definition auth_start :: auth_world where
  "auth_start = jwt_world.extend jwt_start \<lparr>users = Map.empty\<rparr>"

theorem auth_Intercept_correct_witness:
  "\<exists>t. auth_Intercept model_openssl silent_env ''/social.PostService/CreatePost'' 7 (Some [])
     \<lparr>post_recv_initial_metadata = True, pre_send_status = False\<rparr> True status_ok auth_start = (Inr (False, status_ok), t)
   \<and> users t = Map.empty"
proof -
  have p: "\<not> isPublicMethod ''/social.PostService/CreatePost''" by code_simp
  have run: "auth_Intercept model_openssl silent_env ''/social.PostService/CreatePost'' 7 (Some [])
     \<lparr>post_recv_initial_metadata = True, pre_send_status = False\<rparr> True status_ok auth_start = (Inr (False, status_ok), auth_start)"
    using p by (simp add: auth_Intercept_def interceptor_validateToken_def call_token_def bnd_def)
  from auth_Intercept_correct[OF p run] run show ?thesis
    by (auto simp: auth_start_def jwt_world.extend_def)
qed

text \<open>
  Users of finished calls are never removed: a call of a public method, whose token is not looked at,
  runs with the user that an earlier call at the same context address was given.
\<close>
theorem public_call_inherits_user:
  assumes "isPublicMethod method" and "users s ctx = Some u"
  shows "auth_Intercept L E method ctx md hk True st s = (Inr (True, st), s) \<and> fst (GetUser ctx s) = Inr (Some u)"
  using assms by (auto simp: auth_Intercept_def interceptor_validateToken_def GetUser_def bnd_def split: option.splits)

theorem public_call_inherits_user_witness:
  "fst (GetUser 7 (snd (auth_Intercept model_openssl silent_env ''/social.PostService/GetPost'' 7 (Some [])
     \<lparr>post_recv_initial_metadata = True, pre_send_status = False\<rparr> True status_ok
     (auth_start\<lparr>users := [7 \<mapsto> no_user]\<rparr>)))) = Inr (Some no_user)"
proof -
  have "isPublicMethod ''/social.PostService/GetPost''" by code_simp
  from public_call_inherits_user[OF this, of "auth_start\<lparr>users := [7 \<mapsto> no_user]\<rparr>" 7 no_user]
  show ?thesis by simp
qed

text \<open>
  Reading a cookie: the value after the first occurrence of \<open>name=\<close> up to the next semicolon or the
  end is returned. An occurrence inside another cookie's name counts: in front of it may stand any text
  without the first letter of the name.
\<close>
theorem ExtractCookie_correct:
  assumes "hd (name @ ''='') \<notin> set pre" and "CHR '';'' \<notin> set v"
  shows "ExtractCookie (pre @ name @ ''='' @ v) name = v \<and>
    ExtractCookie (pre @ name @ ''='' @ v @ '';'' @ r) name = v"
  using ExtractCookie_found[OF assms] by simp

theorem ExtractCookie_correct_witness:
  "ExtractCookie ''my_id_token=evil; id_token=real'' ''id_token'' = ''evil''"
  using ExtractCookie_correct[of "''id_token''" "''my_''" "''evil''" "'' id_token=real''"] by simp

end
