(* ===== verification/Cdn.thy ===== *)
theory Cdn
  imports Auth Codec Worker
begin

text \<open>
  \<^verbatim>\<open>backend/src/server/http_server.h\<close>: the media server. The media table and its lookups, the calls to
  the S3 store, the four HTTP routes, start and shutdown of the server, and the asynchronous deletion
  of objects. The S3 client and the HTTP server are parts of the environment; a route is a function of
  the request and the state.
\<close>

section \<open>Media\<close>

definition SafeBase64Decode :: "string \<Rightarrow> string" where
  "SafeBase64Decode input = Base64Decode input"

definition GetFileExtension :: "string \<Rightarrow> string" where
  "GetFileExtension fileName =
     (case str_rfind fileName (CHR ''.'') of
        None \<Rightarrow> []
      | Some dot \<Rightarrow> if dot = 0 then [] else lower (drop (dot + 1) fileName))"

datatype media_kind = NoMedia | Image | Video

record media_info =
  kind :: media_kind
  contentType :: string

definition MediaTable :: "(string \<times> media_info) list" where
  "MediaTable =
     [(''png'', \<lparr>kind = Image, contentType = ''image/png''\<rparr>),
      (''jpg'', \<lparr>kind = Image, contentType = ''image/jpeg''\<rparr>),
      (''jpeg'', \<lparr>kind = Image, contentType = ''image/jpeg''\<rparr>),
      (''webp'', \<lparr>kind = Image, contentType = ''image/webp''\<rparr>),
      (''gif'', \<lparr>kind = Image, contentType = ''image/gif''\<rparr>),
      (''mp4'', \<lparr>kind = Video, contentType = ''video/mp4''\<rparr>),
      (''webm'', \<lparr>kind = Video, contentType = ''video/webm''\<rparr>),
      (''mov'', \<lparr>kind = Video, contentType = ''video/quicktime''\<rparr>),
      (''avi'', \<lparr>kind = Video, contentType = ''video/x-msvideo''\<rparr>),
      (''mkv'', \<lparr>kind = Video, contentType = ''video/x-matroska''\<rparr>),
      (''m4v'', \<lparr>kind = Video, contentType = ''video/x-m4v''\<rparr>)]"

definition LookupMedia :: "string \<Rightarrow> media_info option" where
  "LookupMedia ext = map_of MediaTable ext"

definition IsImageExtension :: "string \<Rightarrow> bool" where
  "IsImageExtension ext = (case LookupMedia ext of Some info \<Rightarrow> kind info = Image | None \<Rightarrow> False)"

definition IsVideoExtension :: "string \<Rightarrow> bool" where
  "IsVideoExtension ext = (case LookupMedia ext of Some info \<Rightarrow> kind info = Video | None \<Rightarrow> False)"

definition GetMaxSizeForExtension :: "string \<Rightarrow> app_config \<Rightarrow> nat" where
  "GetMaxSizeForExtension ext config =
     (case LookupMedia ext of
        None \<Rightarrow> 0
      | Some info \<Rightarrow> if kind info = Video then limitVideoBytes config else limitImageBytes config)"

definition GetMediaTypeLabel :: "string \<Rightarrow> string" where
  "GetMediaTypeLabel ext =
     (case LookupMedia ext of
        None \<Rightarrow> ''arquivo''
      | Some info \<Rightarrow> if kind info = Video then ''video'' else ''imagem'')"

definition GetContentType :: "string \<Rightarrow> string" where
  "GetContentType ext =
     (case LookupMedia ext of Some info \<Rightarrow> contentType info | None \<Rightarrow> ''application/octet-stream'')"

section \<open>The store\<close>

definition s3 :: "env \<Rightarrow> s3_op \<Rightarrow> ('z world_scheme, s3_res) act" where
  "s3 E c = ask (\<lambda>h. s3_call E h c) (EvS3 c)"

fun s3_failed :: "s3_res \<Rightarrow> bool" where
  "s3_failed (S3Err e) = True" | "s3_failed r = False"

fun s3_error :: "s3_res \<Rightarrow> string" where
  "s3_error (S3Err e) = e" | "s3_error r = []"

definition EnsureBucket :: "env \<Rightarrow> string \<Rightarrow> ('z world_scheme, bool) act" where
  "EnsureBucket E bucket =
     bnd (s3 E (BucketExists bucket)) (\<lambda>exists_resp.
       if s3_failed exists_resp then ret False
       else if exists_resp = S3Exists True then ret True
       else
         bnd (s3 E (MakeBucket bucket)) (\<lambda>make_resp.
           if s3_failed make_resp then ret False else ret True))"

text \<open>\<^verbatim>\<open>std::expected<void, std::string>\<close>: the error on the left.\<close>

definition S3PutObject ::
  "env \<Rightarrow> string \<Rightarrow> string \<Rightarrow> string \<Rightarrow> string \<Rightarrow> ('z world_scheme, string + unit) act" where
  "S3PutObject E bucket objectKey ctype fileData =
     (if fileData = [] then ret (Inl ''S3PutObject: o filedata esta vazio.'')
      else
        bnd (s3 E (PutObject bucket objectKey ctype fileData)) (\<lambda>resp.
          ret (if s3_failed resp then Inl (''S3PutObject error: '' @ s3_error resp) else Inr ())))"

definition S3DeleteObject :: "env \<Rightarrow> string \<Rightarrow> string \<Rightarrow> ('z world_scheme, string + unit) act" where
  "S3DeleteObject E bucket objectKey =
     bnd (s3 E (RemoveObject bucket objectKey)) (\<lambda>resp.
       ret (if s3_failed resp then Inl (''RemoveObject Error: '' @ s3_error resp) else Inr ()))"

section \<open>The server object\<close>

text \<open>
  The members of \<^verbatim>\<open>CdnServer\<close> and the global \<^verbatim>\<open>g_cdn\<close>. \<open>s3_jobs\<close> are the deletions handed to the
  worker pool of the S3 context, in order.
\<close>

record cdn_world = auth_world +
  cdn_config :: app_config     \<comment> \<open>\<^verbatim>\<open>app_->config()\<close>\<close>
  svr :: bool                  \<comment> \<open>\<^verbatim>\<open>svr_\<close> is set\<close>
  s3_context :: bool           \<comment> \<open>\<^verbatim>\<open>s3_\<close> is set\<close>
  cdn_thread :: bool           \<comment> \<open>\<^verbatim>\<open>thread_\<close> is joinable\<close>
  cdn_running :: bool
  g_cdn :: bool                \<comment> \<open>the global pointer is set\<close>
  s3_jobs :: "(string \<times> string) list"

definition S3_POOL_THREADS :: nat where
  "S3_POOL_THREADS = 4"

text \<open>
  Destroying a worker pool: without threads it returns, with threads it does not (see
  \<open>pool_destroy_returns\<close>).
\<close>

definition pool_destroy :: "nat \<Rightarrow> ('s, unit) act" where
  "pool_destroy n = (if n = 0 then ret () else raise Blocks)"

text \<open>
  \<open>ctor\<close>: what the constructor of the S3 context does, an exception or success. Assigning to \<^verbatim>\<open>s3_\<close>
  destroys the context it held before; assigning to a thread that is still joinable terminates the
  program.
\<close>

definition cdn_start :: "env \<Rightarrow> (app_config \<Rightarrow> string option) \<Rightarrow> app_config \<Rightarrow> ('z cdn_world_scheme, bool) act" where
  "cdn_start E ctor config =
     bnd (modify (\<lambda>s. s\<lparr>cdn_config := config\<rparr>)) (\<lambda>_.
     case ctor config of
       Some e \<Rightarrow> ret False
     | None \<Rightarrow>
         bnd (gets s3_context) (\<lambda>old.
         bnd (modify (\<lambda>s. s\<lparr>s3_context := True\<rparr>)) (\<lambda>_.
         bnd (if old then pool_destroy S3_POOL_THREADS else ret ()) (\<lambda>_.
         bnd (EnsureBucket E (cdnBucket config)) (\<lambda>_.
         bnd (modify (\<lambda>s. s\<lparr>svr := True\<rparr>)) (\<lambda>_.
         bnd (gets cdn_thread) (\<lambda>joinable.
         if joinable then raise Undefined
         else bnd (modify (\<lambda>s. s\<lparr>cdn_thread := True, cdn_running := True\<rparr>)) (\<lambda>_. ret True))))))))"

definition cdn_shutdown :: "('z cdn_world_scheme, unit) act" where
  "cdn_shutdown =
     bnd (gets cdn_running) (\<lambda>is_running.
     if \<not> is_running then ret ()
     else
       bnd (modify (\<lambda>s. s\<lparr>cdn_running := False\<rparr>)) (\<lambda>_.
       bnd (modify (\<lambda>s. s\<lparr>cdn_thread := False\<rparr>)) (\<lambda>_.
       bnd (modify (\<lambda>s. s\<lparr>svr := False\<rparr>)) (\<lambda>_.
       bnd (gets s3_context) (\<lambda>ctx.
       bnd (modify (\<lambda>s. s\<lparr>s3_context := False\<rparr>)) (\<lambda>_.
       if ctx then pool_destroy S3_POOL_THREADS else ret ()))))))"

definition deleteObjectAsync :: "string \<Rightarrow> string \<Rightarrow> ('z cdn_world_scheme, unit) act" where
  "deleteObjectAsync bucket objectKey =
     bnd (gets s3_context) (\<lambda>ctx.
       if \<not> ctx then ret () else modify (\<lambda>s. s\<lparr>s3_jobs := s3_jobs s @ [(bucket, objectKey)]\<rparr>))"

definition isRunning :: "('z cdn_world_scheme, bool) act" where
  "isRunning = gets cdn_running"

definition S3DeleteAsync :: "string \<Rightarrow> string \<Rightarrow> ('z cdn_world_scheme, unit) act" where
  "S3DeleteAsync bucket objectKey =
     bnd (gets g_cdn) (\<lambda>g. if g then deleteObjectAsync bucket objectKey else ret ())"

text \<open>The task a worker runs for a deletion; what it reports goes to the console.\<close>

definition run_delete_job :: "env \<Rightarrow> string \<times> string \<Rightarrow> ('z world_scheme, unit) act" where
  "run_delete_job E job = bnd (S3DeleteObject E (fst job) (snd job)) (\<lambda>_. ret ())"

section \<open>Routes\<close>

record cdn_req =
  q_params :: "(string \<times> string) list"
  q_headers :: headers
  q_match :: string        \<comment> \<open>\<^verbatim>\<open>matches[1]\<close>\<close>
  q_body :: string

text \<open>A status of \<open>-1\<close> is the default, which the HTTP library sends as 200.\<close>

record cdn_res =
  r_status :: int
  r_body :: string
  r_type :: string

definition fresh_res :: cdn_res where
  "fresh_res = \<lparr>r_status = - 1, r_body = [], r_type = []\<rparr>"

definition reply :: "int \<Rightarrow> string \<Rightarrow> cdn_res" where
  "reply st body = \<lparr>r_status = st, r_body = body, r_type = ''application/json''\<rparr>"

definition get_header_value :: "headers \<Rightarrow> string \<Rightarrow> string" where
  "get_header_value hs name = (case find_header hs name of Some v \<Rightarrow> v | None \<Rightarrow> [])"

definition route_options :: "cdn_req \<Rightarrow> cdn_res" where
  "route_options req = fresh_res\<lparr>r_status := 204\<rparr>"

definition not_found_body :: string where
  \<open>not_found_body = ''{"found":false}''\<close>

definition query_failed_body :: "string \<Rightarrow> string" where
  \<open>query_failed_body w = ''{"error":"Falha ao consultar banco: "'' @ w @ ''","found":false}''\<close>

definition serve_url :: "cdn_req \<Rightarrow> string \<Rightarrow> string" where
  "serve_url req path = ''http://'' @ get_header_value (q_headers req) ''Host'' @ ''/api/cdn/serve/'' @ path"

definition json_get :: "json \<Rightarrow> string \<Rightarrow> json" where
  "json_get j k = (case json_find j k of Some v \<Rightarrow> v | None \<Rightarrow> JNull)"

text \<open>The \<^verbatim>\<open>try\<close> block of the check route.\<close>

definition check_rows :: "env \<Rightarrow> cdn_req \<Rightarrow> string \<Rightarrow> ('z world_scheme, cdn_res) act" where
  \<open>check_rows E req result =
     bnd (of_sum (parse_json E result)) (\<lambda>rows.
     if \<not> is_array rows \<or> json_empty rows then ret (reply (- 1) not_found_body)
     else
       let row = hd (elements rows) in
       if \<not> json_contains row ''url'' \<or> \<not> json_contains row ''file_id''
       then ret (reply 500 ''{"error":"Registro incompleto no banco.","found":false}'')
       else
         bnd (of_sum (get_string (json_get row ''url''))) (\<lambda>url.
         let dbUrl = (if url \<noteq> [] \<and> hd url = CHR ''/'' then drop 1 url else url) in
         bnd (of_sum (dump E (mk_obj [(''found'', JBool True), (''url'', JStr (serve_url req dbUrl)),
                                      (''file_id'', json_get row ''file_id'')]))) (\<lambda>text.
         ret (reply (- 1) text))))\<close>

definition route_check :: "env \<Rightarrow> cdn_req \<Rightarrow> ('z cdn_world_scheme, cdn_res) act" where
  \<open>route_check E req =
     (case map_of (q_params req) ''hash'' of
        None \<Rightarrow> ret (reply 400 ''{"error":"Parametro 'hash' obrigatorio."}'')
      | Some hash \<Rightarrow>
          if hash = [] then ret (reply 400 ''{"error":"Parametro 'hash' obrigatorio."}'')
          else
            bnd (execute E (qb_limit 1 (qb_eq ''hash'' hash (from_table ''midia_hashes'')))) (\<lambda>result.
            if result = [] \<or> result = ''[]'' then ret (reply (- 1) not_found_body)
            else try_catch (check_rows E req result) any_exn (\<lambda>e. ret (reply 500 (query_failed_body (what e))))))\<close>

definition route_serve :: "env \<Rightarrow> string \<Rightarrow> cdn_req \<Rightarrow> ('z cdn_world_scheme, cdn_res) act" where
  \<open>route_serve E bucket req =
     bnd (gets s3_context) (\<lambda>ctx.
     if \<not> ctx then ret (reply 500 ''{"error":"Servico CDN nao inicializado."}'')
     else
       let objectKey = q_match req in
       if objectKey = [] then ret (fresh_res\<lparr>r_status := 400\<rparr>)
       else
         bnd (s3 E (GetObject bucket objectKey)) (\<lambda>resp.
         if s3_failed resp then ret (reply 404 ''{"error":"Arquivo nao encontrado."}'')
         else ret (fresh_res\<lparr>r_body := (case resp of S3Data d \<Rightarrow> d | _ \<Rightarrow> []),
                             r_type := GetContentType (GetFileExtension objectKey)\<rparr>)))\<close>

text \<open>
  \<^verbatim>\<open>std::to_string(sizeMB)\<close> up to one digit after the point: the quotient by \<open>2 ^ 20\<close> is exact in a
  \<^verbatim>\<open>double\<close>, is printed with six decimals (half to even), and cut after the first.
\<close>

definition micro_MB :: "nat \<Rightarrow> nat" where
  "micro_MB n =
     (let q = n * 1000000 div 1048576; r = n * 1000000 mod 1048576
      in if 2 * r < 1048576 \<or> (2 * r = 1048576 \<and> even q) then q else q + 1)"

definition size_text :: "nat \<Rightarrow> string" where
  "size_text n =
     (let m = micro_MB n
      in to_string (int (m div 1000000)) @ ''.'' @ [digit_char (m div 100000 mod 10)])"

definition too_large_body :: "string \<Rightarrow> nat \<Rightarrow> nat \<Rightarrow> json" where
  "too_large_body ext sz maxSize =
     mk_obj [(''error'', JStr (''Arquivo muito grande. '' @ GetMediaTypeLabel ext @ '' '' @ size_text sz @
       ''MB, limite '' @ to_string (int (maxSize div 1048576)) @ ''MB.''))]"

text \<open>Recompression of the data: the new data and the extension it is stored under.\<close>

definition recompress :: "'i vips \<Rightarrow> env \<Rightarrow> string \<Rightarrow> string \<Rightarrow> ('z world_scheme, string \<times> string) act" where
  "recompress V E fileData ext =
     (if IsImageExtension ext
      then (let r = compressImage V fileData ext 0 1920 in ret (if ok r then data r else fileData, ext))
      else if IsVideoExtension ext
      then bnd (compressVideo E fileData 28 1080) (\<lambda>r.
             ret (if ok r then (data r, ''mp4'') else (fileData, ext)))
      else ret (fileData, ext))"

text \<open>\<^verbatim>\<open>body["folder"]\<close>, when it is there and not empty.\<close>

definition upload_folder :: "json \<Rightarrow> exn + string" where
  "upload_folder body =
     (if json_contains body ''folder''
      then (case get_string (json_get body ''folder'') of
              Inl e \<Rightarrow> Inl e
            | Inr f \<Rightarrow> Inr (if f = [] then ''posts'' else f))
      else Inr ''posts'')"

text \<open>The end of the upload: naming the object, storing it and answering.\<close>

definition store_upload ::
  "env \<Rightarrow> string \<Rightarrow> cdn_req \<Rightarrow> json \<Rightarrow> string \<Rightarrow> string \<Rightarrow> string \<Rightarrow> ('z world_scheme, cdn_res) act" where
  \<open>store_upload E bucket req body fileName fileData finalExt =
     bnd (of_sum (upload_folder body)) (\<lambda>folder.
     bnd (GenerateRandomHex E 16) (\<lambda>hex.
     let objectKey = folder @ ''/'' @ hex @ ''.'' @ finalExt in
     bnd (S3PutObject E bucket objectKey (GetContentType finalExt) fileData) (\<lambda>resultado.
     case resultado of
       Inl e \<Rightarrow> ret (reply 502 ''{"error":"Falha ao enviar arquivo para CDN."}'')
     | Inr _ \<Rightarrow>
         bnd (of_sum (dump E (mk_obj [(''url'', JStr (serve_url req objectKey)), (''fileId'', JStr objectKey),
                                      (''name'', JStr fileName)]))) (\<lambda>text.
         ret (reply (- 1) text)))))\<close>

text \<open>The part after the fields have been read: the checks on extension and size around the codec.\<close>

definition handle_upload ::
  "'i vips \<Rightarrow> env \<Rightarrow> app_config \<Rightarrow> string \<Rightarrow> cdn_req \<Rightarrow> json \<Rightarrow> string \<Rightarrow> string
     \<Rightarrow> ('z world_scheme, cdn_res) act" where
  \<open>handle_upload V E config bucket req body fileBase64 fileName =
     (let ext = GetFileExtension fileName in
      if ext = [] then ret (reply 400 ''{"error":"Extensao do arquivo invalida."}'')
      else
        let maxSize = GetMaxSizeForExtension ext config in
        if maxSize = 0
        then ret (reply 415 ''{"error":"Formato nao suportado. Aceitos: PNG, JPG, WEBP, GIF, MP4, WEBM, MOV, AVI, MKV, M4V."}'')
        else
          bnd (recompress V E (Base64Decode fileBase64) ext) (\<lambda>(fileData, finalExt).
          if length fileData > maxSize
          then bnd (of_sum (dump E (too_large_body ext (length fileData) maxSize))) (\<lambda>text. ret (reply 413 text))
          else store_upload E bucket req body fileName fileData finalExt))\<close>

text \<open>The parse of a request's body; a failure is answered with status 400.\<close>

definition try_parse :: "env \<Rightarrow> string \<Rightarrow> ('z world_scheme, json option) act" where
  "try_parse E t = try_catch (bnd (of_sum (parse_json E t)) (\<lambda>j. ret (Some j))) any_exn (\<lambda>e. ret None)"

definition route_upload :: "'i vips \<Rightarrow> env \<Rightarrow> string \<Rightarrow> cdn_req \<Rightarrow> ('z cdn_world_scheme, cdn_res) act" where
  \<open>route_upload V E bucket req =
     try_catch
       (bnd (gets s3_context) (\<lambda>ctx.
        if \<not> ctx then ret (reply 500 ''{"error":"Servico CDN nao inicializado."}'')
        else
          bnd (gets cdn_config) (\<lambda>config.
          bnd (try_parse E (q_body req)) (\<lambda>parsed.
          case parsed of
            None \<Rightarrow> ret (reply 400 ''{"error":"JSON invalido."}'')
          | Some body \<Rightarrow>
              if \<not> json_contains body ''file'' \<or> \<not> json_contains body ''fileName''
              then ret (reply 400 ''{"error":"Campos 'file' e 'fileName' obrigatorios."}'')
              else
                bnd (of_sum (get_string (json_get body ''file''))) (\<lambda>fileBase64.
                bnd (of_sum (get_string (json_get body ''fileName''))) (\<lambda>fileName.
                handle_upload V E config bucket req body fileBase64 fileName))))))
       any_exn (\<lambda>e. ret (reply 500 ''{"error":"Excecao interna no upload."}''))\<close>

definition route_register :: "env \<Rightarrow> cdn_req \<Rightarrow> ('z cdn_world_scheme, cdn_res) act" where
  \<open>route_register E req =
     bnd (try_parse E (q_body req)) (\<lambda>parsed.
     case parsed of
       None \<Rightarrow> ret (reply 400 ''{"error":"JSON invalido."}'')
     | Some body \<Rightarrow>
         if \<not> json_contains body ''hash'' \<or> \<not> json_contains body ''url'' \<or> \<not> json_contains body ''file_id''
         then ret (reply 400 ''{"error":"Campos 'hash', 'url' e 'file_id' obrigatorios."}'')
         else
           bnd (of_sum (get_string (json_get body ''hash''))) (\<lambda>hash.
           bnd (of_sum (get_string (json_get body ''url''))) (\<lambda>url.
           bnd (of_sum (get_string (json_get body ''file_id''))) (\<lambda>fileId.
           bnd (of_sum (dump E (mk_obj [(''hash'', JStr hash), (''url'', JStr url), (''file_id'', JStr fileId)]))) (\<lambda>row.
           bnd (client_insert E ''midia_hashes'' row True) (\<lambda>status.
           if status \<ge> 200 \<and> status < 300 then ret (reply (- 1) ''{"ok":true}'')
           else ret (reply 500 ''{"error":"Falha ao registrar hash no banco."}'')))))))\<close>

section \<open>Lemmas\<close>

text \<open>
  A pool made by the program can be destroyed exactly when it has no threads, which is what
  \<open>pool_destroy\<close> says.
\<close>

lemma pool_destroy_returns:
  "(\<exists>p :: 'a pool. pool_steps (new_pool m n) p \<and> dtor p = Destroyed) \<longleftrightarrow> n = 0"
proof
  assume "\<exists>p :: 'a pool. pool_steps (new_pool m n) p \<and> dtor p = Destroyed"
  then obtain p :: "'a pool" where "pool_steps (new_pool m n) p" "dtor p = Destroyed" by blast
  then show "n = 0" using pool_invD(9)[OF pool_inv_reachable, of m n p] by auto
next
  assume n: "n = 0"
  let ?p = "new_pool m n :: 'a pool"
  have "pool_step ?p (?p\<lparr>dtor := Joining 0\<rparr>)"
    using pool_step.shutdown[of ?p] n by (simp add: new_pool_def)
  moreover have "pool_step (?p\<lparr>dtor := Joining 0\<rparr>) (?p\<lparr>dtor := Destroyed\<rparr>)"
    using destroyed[of "?p\<lparr>dtor := Joining 0\<rparr>" 0] n by (simp add: new_pool_def)
  ultimately have "pool_steps ?p (?p\<lparr>dtor := Destroyed\<rparr>)" by (meson r_into_rtranclp rtranclp_trans)
  then show "\<exists>p :: 'a pool. pool_steps (new_pool m n) p \<and> dtor p = Destroyed"
    by (intro exI[of _ "?p\<lparr>dtor := Destroyed\<rparr>"]) simp
qed

lemma LookupMedia_ext:
  assumes "LookupMedia ext = Some info"
  shows "lower ext = ext" "CHR ''.'' \<notin> set ext" "kind info \<noteq> NoMedia"
proof -
  have "list_all (\<lambda>(e, i). lower e = e \<and> CHR ''.'' \<notin> set e \<and> kind i \<noteq> NoMedia) MediaTable" by code_simp
  moreover have "(ext, info) \<in> set MediaTable"
    using assms by (simp add: LookupMedia_def map_of_SomeD)
  ultimately show "lower ext = ext" "CHR ''.'' \<notin> set ext" "kind info \<noteq> NoMedia"
    by (auto simp: list_all_iff)
qed

lemma GetFileExtension_key:
  assumes "LookupMedia ext = Some info" "stem \<noteq> []"
  shows "GetFileExtension (stem @ ''.'' @ ext) = ext"
  using LookupMedia_ext[OF assms(1)] assms(2) str_rfind_append[of "CHR ''.''" ext stem]
  by (simp add: GetFileExtension_def)

text \<open>
  What an upload may do to the world: draw random bytes, start the video encoder, and store non-empty
  data of a known media type, within the limit of that type, in the bucket.
\<close>

fun upload_event :: "app_config \<Rightarrow> string \<Rightarrow> event \<Rightarrow> bool" where
  "upload_event config bucket (EvS3 (PutObject b k ct d)) \<longleftrightarrow>
     b = bucket \<and> d \<noteq> [] \<and> LookupMedia (GetFileExtension k) \<noteq> None \<and>
     ct = GetContentType (GetFileExtension k) \<and>
     length d \<le> GetMaxSizeForExtension (GetFileExtension k) config"
| "upload_event config bucket EvRand \<longleftrightarrow> True"
| "upload_event config bucket (EvFork p a i) \<longleftrightarrow> a = []"
| "upload_event config bucket ev \<longleftrightarrow> False"

lemma GetMaxSize_pos: "GetMaxSizeForExtension ext config \<noteq> 0 \<Longrightarrow> \<exists>info. LookupMedia ext = Some info"
  by (cases "LookupMedia ext") (auto simp: GetMaxSizeForExtension_def)

lemma GetMaxSize_mp4: "IsVideoExtension ext \<Longrightarrow> GetMaxSizeForExtension ''mp4'' config = GetMaxSizeForExtension ext config" (is "_ \<Longrightarrow> ?thesis")
proof -
  assume "IsVideoExtension ext"
  then have "GetMaxSizeForExtension ext config = limitVideoBytes config"
    by (auto simp: IsVideoExtension_def GetMaxSizeForExtension_def split: option.splits)
  moreover have "LookupMedia ''mp4'' = Some \<lparr>kind = Video, contentType = ''video/mp4''\<rparr>"
    by (simp add: LookupMedia_def MediaTable_def)
  ultimately show ?thesis by (simp add: GetMaxSizeForExtension_def)
qed

lemma emits_GenerateRandomHex: "A EvRand \<Longrightarrow> emits A (GenerateRandomHex E n)"
  by (auto simp: emits_def GenerateRandomHex_run list_all_iff)

lemma emits_recompress: "(\<And>c. A (EvFork c [] d)) \<Longrightarrow> emits A (recompress V E d ext)"
  unfolding recompress_def Let_def by (intro emits)

text \<open>The extension the data is stored under has the same limit as the one of the file name.\<close>

lemma yields_recompress:
  "yields (\<lambda>(d, fe). GetMaxSizeForExtension fe config = GetMaxSizeForExtension ext config) (recompress V E d0 ext)"
  by (auto simp: yields_def recompress_def Let_def bnd_eq_Inr GetMaxSize_mp4)

lemma emits_S3PutObject:
  assumes "d \<noteq> [] \<Longrightarrow> A (EvS3 (PutObject bucket k ct d))"
  shows "emits A (S3PutObject E bucket k ct d)"
  unfolding S3PutObject_def s3_def using assms by (intro emits) auto

lemma emits_store_upload:
  assumes "length d \<le> GetMaxSizeForExtension ext config" "GetMaxSizeForExtension ext config \<noteq> 0"
  shows "emits (upload_event config bucket) (store_upload E bucket req body fileName d ext)"
proof -
  obtain info where info: "LookupMedia ext = Some info" using GetMaxSize_pos assms(2) by blast
  have "upload_event config bucket (EvS3 (PutObject bucket (f @ ''/'' @ h @ ''.'' @ ext) (GetContentType ext) d))"
    if "d \<noteq> []" for f h
    using that assms(1) GetFileExtension_key[OF info, of "f @ ''/'' @ h"] info by simp
  then show ?thesis
    unfolding store_upload_def Let_def
    by (intro emits emits_GenerateRandomHex emits_S3PutObject) auto
qed

lemma emits_handle_upload:
  "emits (upload_event config bucket) (handle_upload V E config bucket req body f64 fileName)"
  unfolding handle_upload_def Let_def
  by (rule emits_if[OF emits_ret], rule emits_if[OF emits_ret],
      rule emits_bnd_yields[OF emits_recompress yields_recompress[where config = config]])
     (auto intro!: emits emits_store_upload)

text \<open>The data an upload stores, and its answer.\<close>

definition upload_data :: "'i vips \<Rightarrow> string \<Rightarrow> string \<Rightarrow> string" where
  "upload_data V d ext =
     (let r = compressImage V d ext 0 1920 in if IsImageExtension ext \<and> ok r then data r else d)"

definition upload_answer :: "cdn_req \<Rightarrow> string \<Rightarrow> string \<Rightarrow> json" where
  "upload_answer req k fileName =
     mk_obj [(''url'', JStr (serve_url req k)), (''fileId'', JStr k), (''name'', JStr fileName)]"

lemma recompress_run:
  "\<exists>es. recompress V E d ext s = (Inr (upload_data V d ext, ext), s\<lparr>trace := es @ trace s\<rparr>)"
proof -
  obtain r where "compressVideo E d 28 1080 s =
      (Inr r, s\<lparr>trace := [EvFork (win_cmdline (video_args 28 1080)) [] d] @ trace s\<rparr>)" "\<not> ok r"
    using runffmpegpipe_win_fails[of E d "video_args 28 1080" s] by (auto simp: compressVideo_def)
  moreover have "\<exists>es. s = s\<lparr>trace := es @ trace s\<rparr>" by (rule exI[of _ "[]"]) simp
  moreover have "\<exists>es. s\<lparr>trace := ev # trace s\<rparr> = s\<lparr>trace := es @ trace s\<rparr>" for ev by (rule exI[of _ "[ev]"]) simp
  ultimately show ?thesis
    by (auto simp: recompress_def upload_data_def Let_def bnd_def)
qed

lemma store_upload_success:
  assumes "store_upload E bucket req body fileName d ext s = (Inr res, t)" "r_status res = - 1"
  shows "\<exists>stem k es. stem \<noteq> [] \<and> k = stem @ ''.'' @ ext \<and>
    t = s\<lparr>trace := EvS3 (PutObject bucket k (GetContentType ext) d) # es @ trace s\<rparr> \<and>
    \<not> s3_failed (s3_call E (es @ trace s) (PutObject bucket k (GetContentType ext) d)) \<and>
    dump E (upload_answer req k fileName) = Inr (r_body res)"
proof -
  from assms obtain f h where fh: "h = hex_encode (rand_bytes E (trace s) 16)"
    "t = s\<lparr>trace := EvS3 (PutObject bucket (f @ ''/'' @ h @ ''.'' @ ext) (GetContentType ext) d) # replicate 16 EvRand @ trace s\<rparr>"
    "\<not> s3_failed (s3_call E (replicate 16 EvRand @ trace s) (PutObject bucket (f @ ''/'' @ h @ ''.'' @ ext) (GetContentType ext) d))"
    "dump E (upload_answer req (f @ ''/'' @ h @ ''.'' @ ext) fileName) = Inr (r_body res)"
    by (auto simp: store_upload_def S3PutObject_def s3_def bnd_eq_Inr Let_def GenerateRandomHex_run reply_def upload_answer_def
      split: if_splits)
  then show ?thesis
    by (intro exI[of _ "f @ ''/'' @ h"] exI[of _ "f @ ''/'' @ h @ ''.'' @ ext"] exI[of _ "replicate 16 EvRand"]) simp
qed

lemma handle_upload_success:
  assumes "handle_upload V E config bucket req body f64 fileName s = (Inr res, t)" "r_status res = - 1"
    and "ext = GetFileExtension fileName" "d = upload_data V (Base64Decode f64) ext"
  shows "\<exists>k es. k \<noteq> [] \<and> GetFileExtension k = ext \<and>
    t = s\<lparr>trace := EvS3 (PutObject bucket k (GetContentType ext) d) # es @ trace s\<rparr> \<and>
    \<not> s3_failed (s3_call E (es @ trace s) (PutObject bucket k (GetContentType ext) d)) \<and>
    dump E (upload_answer req k fileName) = Inr (r_body res)"
proof -
  obtain es where es: "recompress V E (Base64Decode f64) ext s = (Inr (d, ext), s\<lparr>trace := es @ trace s\<rparr>)"
    using recompress_run assms(4) by blast
  with assms have max: "GetMaxSizeForExtension ext config \<noteq> 0"
    and st: "store_upload E bucket req body fileName d ext (s\<lparr>trace := es @ trace s\<rparr>) = (Inr res, t)"
    by (auto simp: handle_upload_def bnd_def of_sum_def Let_def reply_def split: if_splits sum.splits)
  obtain info where "LookupMedia ext = Some info" using GetMaxSize_pos max by blast
  note key = GetFileExtension_key[OF this]
  from store_upload_success[OF st assms(2)] obtain stem k es' where "stem \<noteq> []" "k = stem @ ''.'' @ ext"
    "t = s\<lparr>trace := EvS3 (PutObject bucket k (GetContentType ext) d) # (es' @ es) @ trace s\<rparr>"
    "\<not> s3_failed (s3_call E ((es' @ es) @ trace s) (PutObject bucket k (GetContentType ext) d))"
    "dump E (upload_answer req k fileName) = Inr (r_body res)" by auto
  with key have "k \<noteq> []" "GetFileExtension k = ext" by simp_all
  with \<open>t = _\<close> \<open>\<not> s3_failed _\<close> \<open>dump E _ = _\<close> show ?thesis by blast
qed

lemma try_parse_apply [simp]:
  "try_parse E t s = (Inr (case json_parse E t of Inl w \<Rightarrow> None | Inr j \<Rightarrow> Some j), s)"
  by (auto simp: try_parse_def parse_json_def try_catch_def bnd_def split: sum.splits)

lemma try_parse_returns [catchable]: "catchable (try_parse E t)"
  by (simp add: catchable_def)

lemma catchable_store_upload [catchable]: "catchable (store_upload E bucket req body fileName d ext)"
proof -
  have "catchable (of_sum (upload_folder body))"
    by (rule catchable_of_sum) (auto simp: upload_folder_def split: if_splits sum.splits dest: get_string_catchable)
  moreover have "catchable (GenerateRandomHex E n)" for n
    by (simp add: catchable_def GenerateRandomHex_run)
  ultimately show ?thesis
    unfolding store_upload_def S3PutObject_def s3_def by (intro catchable) auto
qed

lemma catchable_recompress [catchable]: "catchable (recompress V E d ext)"
  unfolding recompress_def compressVideo_def runffmpegpipe_win_def by (intro catchable)

lemma returns_route_upload: "returns (route_upload V E bucket req)"
  unfolding route_upload_def handle_upload_def
  by (intro returns_catch_all catchable returns_ret)

lemma route_upload_success:
  assumes "route_upload V E bucket req s = (Inr res, t)" "r_status res = - 1"
  shows "\<exists>body f64 fileName k d es. s3_context s \<and> json_parse E (q_body req) = Inr body \<and>
    get_string (json_get body ''file'') = Inr f64 \<and> get_string (json_get body ''fileName'') = Inr fileName \<and>
    k \<noteq> [] \<and> GetFileExtension k = GetFileExtension fileName \<and> d = upload_data V (Base64Decode f64) (GetFileExtension fileName) \<and>
    t = s\<lparr>trace := EvS3 (PutObject bucket k (GetContentType (GetFileExtension k)) d) # es @ trace s\<rparr> \<and>
    \<not> s3_failed (s3_call E (es @ trace s) (PutObject bucket k (GetContentType (GetFileExtension k)) d)) \<and>
    dump E (upload_answer req k fileName) = Inr (r_body res)"
proof -
  from assms obtain body f64 fileName where *: "s3_context s" "json_parse E (q_body req) = Inr body"
    "get_string (json_get body ''file'') = Inr f64" "get_string (json_get body ''fileName'') = Inr fileName"
    and h: "handle_upload V E (cdn_config s) bucket req body f64 fileName s = (Inr res, t)"
    by (auto simp: route_upload_def try_catch_def bnd_def reply_def
        split: if_splits option.splits prod.splits sum.splits)
  from handle_upload_success[OF h assms(2) refl refl] * show ?thesis by metis
qed

lemma emits_route_upload:
  "\<exists>es. trace (snd (route_upload V E bucket req s)) = es @ trace s \<and>
     list_all (upload_event (cdn_config s) bucket) es"
  by (auto simp: route_upload_def try_catch_def bnd_def split: prod.splits sum.splits option.splits
      elim!: emitsE[OF emits_handle_upload])

section \<open>An example store\<close>

text \<open>
  A store that keeps what was put last, a parser for one upload body, and the initial state of a
  started server: the setting of the concrete examples.
\<close>

fun s3_lookup :: "history \<Rightarrow> string \<Rightarrow> string \<Rightarrow> string option" where
  "s3_lookup [] b k = None"
| "s3_lookup (EvS3 (PutObject b' k' ct d) # h) b k = (if b' = b \<and> k' = k then Some d else s3_lookup h b k)"
| "s3_lookup (EvS3 (RemoveObject b' k') # h) b k = (if b' = b \<and> k' = k then None else s3_lookup h b k)"
| "s3_lookup (ev # h) b k = s3_lookup h b k"

definition keeping_s3 :: "history \<Rightarrow> s3_op \<Rightarrow> s3_res" where
  "keeping_s3 h c = (case c of
     BucketExists b \<Rightarrow> S3Exists True
   | GetObject b k \<Rightarrow> (case s3_lookup h b k of Some d \<Rightarrow> S3Data d | None \<Rightarrow> S3Err ''no such key'')
   | _ \<Rightarrow> S3Ok)"

definition one_upload :: json where
  "one_upload = mk_obj [(''file'', JStr ''aGk=''), (''fileName'', JStr ''a.png'')]"

definition upload_env :: env where
  "upload_env = silent_env\<lparr>s3_call := keeping_s3\<rparr>"

definition started_cdn :: cdn_world where
  "started_cdn = auth_world.extend auth_start (cdn_world.fields (default_config\<lparr>limitImageBytes := 10\<rparr>) True True True True True [])"

definition one_request :: cdn_req where
  "one_request = \<lparr>q_params = [], q_headers = [(''Host'', ''h'')], q_match = [], q_body = text_of one_upload\<rparr>"

lemma one_upload_parses: "json_parse upload_env (q_body one_request) = Inr one_upload"
  unfolding one_request_def one_upload_def mk_obj_def
  by (simp, rule json_parse_text_of) (simp_all add: upload_env_def sorted_keys_def)

lemma one_upload_ok:
  "\<exists>res t. route_upload halving_vips upload_env ''b'' one_request started_cdn = (Inr res, t) \<and> r_status res = - 1"
proof -
  have ext: "GetFileExtension ''a.png'' = ''png''" by code_simp
  have fields: "get_string (json_get one_upload ''file'') = Inr ''aGk=''" "get_string (json_get one_upload ''fileName'') = Inr ''a.png''"
    "json_contains one_upload ''file''" "json_contains one_upload ''fileName''" "\<not> json_contains one_upload ''folder''"
    by code_simp+
  have b64: "Base64Decode ''aGk='' = ''hi''" by code_simp
  have "\<exists>res t. handle_upload halving_vips upload_env (default_config\<lparr>limitImageBytes := 10\<rparr>) ''b'' one_request one_upload
      ''aGk='' ''a.png'' s = (Inr res, t) \<and> r_status res = - 1" for s :: cdn_world
  proof -
    have host: "get_header_value [(''Host'', ''h'')] ''Host'' = ''h''" by code_simp
    let ?k = "''posts/'' @ hex_encode (rand_bytes upload_env (trace s) 16) @ ''.png''"
    have "utf8 (hex_encode bs @ x)" if "utf8 x" for bs x
      using hex_encode_xdigits[of bs] that by (subst utf8_append) (auto intro!: utf8_ascii simp: isxdigit_def isdigit_def)
    then have "texts_utf8 (upload_answer one_request ?k ''a.png'')"
      by (simp add: upload_answer_def mk_obj_def serve_url_def one_request_def host)
    then obtain x where "dump upload_env (upload_answer one_request ?k ''a.png'') = Inr x" using dump_ok by blast
    moreover have "s3_call upload_env h (PutObject bk k ct d) = S3Ok" for h bk k ct d by (simp add: upload_env_def keeping_s3_def)
    ultimately show ?thesis
      by (simp add: handle_upload_def ext b64 fields GetMaxSizeForExtension_def LookupMedia_def MediaTable_def
          recompress_def IsImageExtension_def compressImage_def halving_vips_def sum_bind_def no_result_def Let_def
          store_upload_def upload_folder_def bnd_def GenerateRandomHex_run S3PutObject_def s3_def upload_answer_def reply_def)
  qed
  then obtain res t where "handle_upload halving_vips upload_env (default_config\<lparr>limitImageBytes := 10\<rparr>) ''b'' one_request one_upload
      ''aGk='' ''a.png'' started_cdn = (Inr res, t)" "r_status res = - 1" by blast
  moreover have "s3_context started_cdn" "cdn_config started_cdn = default_config\<lparr>limitImageBytes := 10\<rparr>"
    by (simp_all add: started_cdn_def auth_world.extend_def cdn_world.fields_def)
  ultimately show ?thesis
    using one_upload_parses by (simp add: route_upload_def try_catch_def bnd_def fields)
qed

section \<open>Properties\<close>

text \<open>
  C9. An upload always gets an answer, whatever the services do, and all it does to the world is to draw
  random bytes, start the video encoder and store non-empty data of a known media type, within that
  type's limit and with that type's content type, in the bucket; it answers 200 only when the last
  thing it did was such a store and the store confirmed it.
\<close>
theorem route_upload_safe:
  "\<exists>res t es. route_upload V E bucket req s = (Inr res, t) \<and> trace t = es @ trace s \<and>
     list_all (upload_event (cdn_config s) bucket) es \<and>
     (r_status res = - 1 \<longrightarrow>
        (\<exists>k ct d es'. es = EvS3 (PutObject bucket k ct d) # es' \<and>
           \<not> s3_failed (s3_call E (es' @ trace s) (PutObject bucket k ct d))))"
proof -
  obtain res t where run: "route_upload V E bucket req s = (Inr res, t)"
    using returns_route_upload by (metis returns_def)
  moreover obtain es where es: "trace t = es @ trace s" "list_all (upload_event (cdn_config s) bucket) es"
    using emits_route_upload[of V E bucket req s] run by auto
  moreover have "\<exists>k ct d es'. es = EvS3 (PutObject bucket k ct d) # es' \<and>
      \<not> s3_failed (s3_call E (es' @ trace s) (PutObject bucket k ct d))" if ok: "r_status res = - 1"
  proof -
    from route_upload_success[OF run ok] obtain k ct d es' where
      "trace t = (EvS3 (PutObject bucket k ct d) # es') @ trace s"
      "\<not> s3_failed (s3_call E (es' @ trace s) (PutObject bucket k ct d))" by auto
    with es(1) show ?thesis by (metis append_same_eq)
  qed
  ultimately show ?thesis by blast
qed

theorem route_upload_safe_witness:
  "\<exists>res t k ct d es. route_upload halving_vips upload_env ''b'' one_request started_cdn = (Inr res, t) \<and>
     r_status res = - 1 \<and> trace t = EvS3 (PutObject ''b'' k ct d) # es @ trace started_cdn"
proof -
  obtain res t where run: "route_upload halving_vips upload_env ''b'' one_request started_cdn = (Inr res, t)"
    "r_status res = - 1" using one_upload_ok by blast
  obtain k ct d es where "trace t = EvS3 (PutObject ''b'' k ct d) # es @ trace started_cdn"
    using route_upload_safe[of halving_vips upload_env "''b''" one_request started_cdn] run by auto
  with run show ?thesis by blast
qed

text \<open>
  What is assumed of the store: an object that was put successfully is there right afterwards.
\<close>

definition s3_keeps :: "env \<Rightarrow> bool" where
  "s3_keeps E \<longleftrightarrow>
     (\<forall>h b k ct d. \<not> s3_failed (s3_call E h (PutObject b k ct d)) \<longrightarrow>
        s3_call E (EvS3 (PutObject b k ct d) # h) (GetObject b k) = S3Data d)"

text \<open>
  C23. Upload and download agree: over a store that keeps what was put, after an upload answered with
  200 the answer names an object under which the serve route gives, with the content type of the
  uploaded file's extension, the decoded file itself or what the image library made of it.
\<close>
theorem upload_then_serve:
  assumes "s3_keeps E" and "route_upload V E bucket req s = (Inr res, t)" and "r_status res = - 1"
  shows "\<exists>body f64 fileName k u. json_parse E (q_body req) = Inr body \<and>
    get_string (json_get body ''file'') = Inr f64 \<and> get_string (json_get body ''fileName'') = Inr fileName \<and>
    dump E (upload_answer req k fileName) = Inr (r_body res) \<and>
    route_serve E bucket (req'\<lparr>q_match := k\<rparr>) t =
      (Inr \<lparr>r_status = - 1, r_body = upload_data V (Base64Decode f64) (GetFileExtension fileName),
            r_type = GetContentType (GetFileExtension fileName)\<rparr>, u)"
proof -
  from route_upload_success[OF assms(2,3)] obtain body f64 fileName k d es where
    b: "s3_context s" "json_parse E (q_body req) = Inr body" "get_string (json_get body ''file'') = Inr f64"
      "get_string (json_get body ''fileName'') = Inr fileName" "GetFileExtension k = GetFileExtension fileName"
      "d = upload_data V (Base64Decode f64) (GetFileExtension fileName)"
      "t = s\<lparr>trace := EvS3 (PutObject bucket k (GetContentType (GetFileExtension k)) d) # es @ trace s\<rparr>"
      "dump E (upload_answer req k fileName) = Inr (r_body res)" "k \<noteq> []"
    and put: "\<not> s3_failed (s3_call E (es @ trace s) (PutObject bucket k (GetContentType (GetFileExtension k)) d))"
    by blast
  have get: "s3_call E (trace t) (GetObject bucket k) = S3Data d"
    using assms(1) put b(7) by (simp add: s3_keeps_def)
  have "\<exists>u. route_serve E bucket (req'\<lparr>q_match := k\<rparr>) t =
      (Inr \<lparr>r_status = - 1, r_body = d, r_type = GetContentType (GetFileExtension fileName)\<rparr>, u)"
    using get b(1,5,7,9) by (simp add: route_serve_def bnd_def s3_def Let_def fresh_res_def)
  then show ?thesis using b(2,3,4,6,8) by blast
qed

theorem upload_then_serve_witness:
  "\<exists>res k t u. route_upload halving_vips upload_env ''b'' one_request started_cdn = (Inr res, t) \<and>
     route_serve upload_env ''b'' (one_request\<lparr>q_match := k\<rparr>) t =
       (Inr \<lparr>r_status = - 1, r_body = ''h'', r_type = ''image/png''\<rparr>, u)"
proof -
  obtain res t where run: "route_upload halving_vips upload_env ''b'' one_request started_cdn = (Inr res, t)"
    "r_status res = - 1" using one_upload_ok by blast
  have keeps: "s3_keeps upload_env" by (simp add: s3_keeps_def upload_env_def keeping_s3_def)
  have fields: "json_get one_upload ''file'' = JStr ''aGk=''" "json_get one_upload ''fileName'' = JStr ''a.png''"
    by code_simp+
  have ext: "GetFileExtension ''a.png'' = ''png''" by code_simp
  have b64: "Base64Decode ''aGk='' = ''hi''" by code_simp
  have stored: "upload_data halving_vips ''hi'' ''png'' = ''h''" "GetContentType ''png'' = ''image/png''"
    by (simp_all add: upload_data_def compressImage_def halving_vips_def sum_bind_def no_result_def IsImageExtension_def
        LookupMedia_def MediaTable_def GetContentType_def)
  from upload_then_serve[OF keeps run, of one_request] obtain k u where
    "route_serve upload_env ''b'' (one_request\<lparr>q_match := k\<rparr>) t = (Inr \<lparr>r_status = - 1, r_body = ''h'', r_type = ''image/png''\<rparr>, u)"
    by (auto simp: one_upload_parses fields ext b64 stored)
  with run(1) show ?thesis by blast
qed

lemma frames_EnsureBucket: "frames s3_context (EnsureBucket E bucket)"
  unfolding EnsureBucket_def s3_def by (intro frames) auto

text \<open>
  Once the media server has been started, shutting it down never ends: the S3 context is dropped
  with its worker pool, and in no interleaving does the destructor of that pool return. A second start
  hangs in the same way.
\<close>
theorem cdn_shutdown_hangs:
  assumes "cdn_start E ctor config s = (Inr True, t)"
  shows "fst (cdn_shutdown t) = Inl Blocks \<and> fst (cdn_start E (\<lambda>c. None) config t) = Inl Blocks \<and>
    (\<nexists>p :: 'a pool. pool_steps (new_pool m S3_POOL_THREADS) p \<and> dtor p = Destroyed)"
proof -
  have "cdn_running t \<and> s3_context t"
    using assms framesD[OF frames_EnsureBucket]
    by (fastforce simp: cdn_start_def bnd_def pool_destroy_def S3_POOL_THREADS_def
        split: option.splits if_splits prod.splits sum.splits)
  moreover have "\<nexists>p :: 'a pool. pool_steps (new_pool m S3_POOL_THREADS) p \<and> dtor p = Destroyed"
    by (simp add: pool_destroy_returns S3_POOL_THREADS_def)
  ultimately show ?thesis
    by (simp add: cdn_start_def cdn_shutdown_def bnd_def pool_destroy_def S3_POOL_THREADS_def)
qed

theorem cdn_shutdown_hangs_witness:
  "\<exists>t. cdn_start upload_env (\<lambda>c. None) default_config (started_cdn\<lparr>s3_context := False, cdn_thread := False\<rparr>) = (Inr True, t) \<and>
    fst (cdn_shutdown t) = Inl Blocks"
proof -
  let ?s = "started_cdn\<lparr>s3_context := False, cdn_thread := False\<rparr>"
  obtain t where "cdn_start upload_env (\<lambda>c. None) default_config ?s = (Inr True, t)"
    by (simp add: cdn_start_def bnd_def EnsureBucket_def s3_def upload_env_def keeping_s3_def)
  from cdn_shutdown_hangs[OF this] this show ?thesis by blast
qed

text \<open>
  The handler of the register route reads its three fields outside every \<^verbatim>\<open>try\<close> block: a field that is
  no string leaves it as an exception.
\<close>

lemma route_register_throws:
  assumes "json_parse E (q_body req) = Inr body"
    and "json_contains body ''hash''" "json_contains body ''url''" "json_contains body ''file_id''"
    and "get_string (json_get body ''hash'') = Inl e"
  shows "route_register E req s = (Inl e, s)"
  using assms by (simp add: route_register_def bnd_def)

end
