(* ===== verification/Server.thy ===== *)
theory Server
  imports Cdn Sanitize
begin

text \<open>
  \<^verbatim>\<open>backend/src/server/server.cpp\<close> and \<^verbatim>\<open>.h\<close>: the gRPC service. The messages of
  \<^verbatim>\<open>proto/social.proto\<close> the handlers read and fill, the helpers on database rows, the ten handlers, the
  start of the server with its rate limits, and the way the two interceptors and a handler make up one
  call. A handler is an action that gives the status and the response message; gRPC sends the message
  with an OK status only, so a failed call carries the empty message here.
\<close>

section \<open>Messages\<close>

record user_msg =
  usr_id :: string
  usr_username :: string
  usr_handle :: string
  usr_display_name :: string
  usr_avatar :: string
  usr_bio :: string
  usr_followers_count :: u32
  usr_following_count :: u32
  usr_posts_count :: u32
  usr_created_at :: string
  usr_is_following_me :: bool
  usr_is_followed_by_me :: bool

definition empty_user :: user_msg where
  "empty_user = \<lparr>usr_id = [], usr_username = [], usr_handle = [], usr_display_name = [], usr_avatar = [],
     usr_bio = [], usr_followers_count = 0, usr_following_count = 0, usr_posts_count = 0,
     usr_created_at = [], usr_is_following_me = False, usr_is_followed_by_me = False\<rparr>"

record post_msg =
  pst_id :: string
  pst_author :: "user_msg option"
  pst_title :: string
  pst_content :: string
  pst_image_url :: string
  pst_likes_count :: u32
  pst_comments_count :: u32
  pst_is_liked_by_me :: bool
  pst_created_at :: string

definition empty_post :: post_msg where
  "empty_post = \<lparr>pst_id = [], pst_author = None, pst_title = [], pst_content = [], pst_image_url = [],
     pst_likes_count = 0, pst_comments_count = 0, pst_is_liked_by_me = False, pst_created_at = []\<rparr>"

record create_post_request =
  cp_title :: string
  cp_content :: string
  cp_image_url :: string

record list_request =
  lr_user_id :: string      \<comment> \<open>of \<^verbatim>\<open>ListUserPostsRequest\<close> only\<close>
  lr_page :: u32
  lr_limit :: u32

record login_result =
  lg_access_token :: string
  lg_refresh_token :: string
  lg_expires_in :: u32
  lg_user :: "user_msg option"
  lg_id_token :: string

definition empty_login :: login_result where
  "empty_login = \<lparr>lg_access_token = [], lg_refresh_token = [], lg_expires_in = 0, lg_user = None, lg_id_token = []\<rparr>"

record like_result =
  is_liked :: bool
  updated_likes_count :: u32

section \<open>State\<close>

text \<open>
  The configuration behind \<^verbatim>\<open>app_\<close>, whether \<^verbatim>\<open>server_\<close> is set, and the state of the rate limiter.
\<close>

record server_world = cdn_world +
  app_cfg :: app_config
  grpc_server :: bool
  rl_usage :: "string \<Rightarrow> string \<Rightarrow> int list"
  rl_granted :: "(string \<times> string \<times> int) list"

definition MAX_CONTENT_CHARS :: nat where "MAX_CONTENT_CHARS = 5000"
definition MAX_TITLE_CHARS :: nat where "MAX_TITLE_CHARS = 256"
definition MAX_IMAGE_CHARS :: nat where "MAX_IMAGE_CHARS = 2048"

section \<open>Rows\<close>

definition json_or :: "(json \<Rightarrow> exn + 'a) \<Rightarrow> json \<Rightarrow> string \<Rightarrow> 'a \<Rightarrow> exn + 'a" where
  "json_or get j k d =
     (case json_find j k of Some v \<Rightarrow> if is_null v then Inr d else get v | None \<Rightarrow> Inr d)"

definition POST_SELECT :: string where
  "POST_SELECT =
     ''*,author:users!author_id(id,username,handle,display_name,avatar,bio,'' @
     ''followers_count,following_count,posts_count,created_at)''"

definition sanitize_handle :: "string \<Rightarrow> string" where
  "sanitize_handle name = map (\<lambda>c. if c = CHR '' '' then CHR ''_'' else c) (lower name)"

text \<open>The fields of a user after its identifier.\<close>

definition read_user :: "string \<Rightarrow> json \<Rightarrow> exn + user_msg" where
  "read_user i a =
     sum_bind (json_or get_string a ''username'' []) (\<lambda>username.
     sum_bind (json_or get_string a ''handle'' []) (\<lambda>hdl.
     sum_bind (json_or get_string a ''display_name'' []) (\<lambda>display_name.
     sum_bind (json_or get_string a ''avatar'' []) (\<lambda>avatar.
     sum_bind (json_or get_string a ''bio'' []) (\<lambda>bio.
     sum_bind (json_or get_word32 a ''followers_count'' 0) (\<lambda>followers_count.
     sum_bind (json_or get_word32 a ''following_count'' 0) (\<lambda>following_count.
     sum_bind (json_or get_word32 a ''posts_count'' 0) (\<lambda>posts_count.
     sum_bind (json_or get_string a ''created_at'' []) (\<lambda>created_at.
     Inr (empty_user\<lparr>usr_id := i, usr_username := username, usr_handle := hdl, usr_display_name := display_name,
       usr_avatar := avatar, usr_bio := bio, usr_followers_count := followers_count,
       usr_following_count := following_count, usr_posts_count := posts_count,
       usr_created_at := created_at\<rparr>))))))))))"

text \<open>Whether the row has an identifier.\<close>

definition has_id :: "json \<Rightarrow> bool" where
  "has_id row \<longleftrightarrow> json_contains row ''id'' \<and> \<not> is_null (json_get row ''id'')"

definition ParseUser :: "json \<Rightarrow> exn + bool \<times> user_msg" where
  "ParseUser row =
     (if \<not> has_id row then Inr (False, empty_user)
      else
        sum_bind (get_string (json_get row ''id'')) (\<lambda>i.
        sum_bind (read_user i row) (\<lambda>u. Inr (True, u))))"

definition read_author :: "json \<Rightarrow> exn + user_msg option" where
  "read_author row =
     (if json_contains row ''author'' \<and> \<not> is_null (json_get row ''author'')
      then
        let au = json_get row ''author'';
            a = (if is_array au \<and> \<not> json_empty au then hd (elements au) else au)
        in sum_bind (json_or get_string a ''id'' []) (\<lambda>i.
           sum_bind (read_user i a) (\<lambda>u. Inr (Some u)))
      else Inr None)"

definition ParsePost :: "json \<Rightarrow> exn + bool \<times> post_msg" where
  "ParsePost row =
     (if \<not> has_id row then Inr (False, empty_post)
      else
        sum_bind (get_string (json_get row ''id'')) (\<lambda>i.
        sum_bind (json_or get_string row ''title'' []) (\<lambda>ttl.
        sum_bind (json_or get_string row ''content'' []) (\<lambda>cnt.
        sum_bind (json_or get_string row ''image_url'' []) (\<lambda>image_url.
        sum_bind (json_or get_word32 row ''likes_count'' 0) (\<lambda>likes.
        sum_bind (json_or get_word32 row ''comments_count'' 0) (\<lambda>comments.
        sum_bind (json_or get_string row ''created_at'' []) (\<lambda>created_at.
        sum_bind (json_or get_bool row ''is_liked_by_me'' False) (\<lambda>liked.
        sum_bind (read_author row) (\<lambda>au.
        Inr (True, \<lparr>pst_id = i, pst_author = au, pst_title = ttl, pst_content = cnt, pst_image_url = image_url,
          pst_likes_count = likes, pst_comments_count = comments, pst_is_liked_by_me = liked,
          pst_created_at = created_at\<rparr>)))))))))))"

definition nonempty_array :: "json \<Rightarrow> bool" where
  "nonempty_array j \<longleftrightarrow> is_array j \<and> \<not> json_empty j"

definition UpsertUser :: "env \<Rightarrow> auth_user \<Rightarrow> ('z db_world_scheme, unit) act" where
  "UpsertUser E u =
     (if u_id u = [] then ret ()
      else
        bnd (execute E (qb_limit 1 (qb_eq ''id'' (u_id u) (qb_select ''id'' (from_table ''users''))))) (\<lambda>check.
        if nonempty_array (parse_nothrow E check)
        then
          let named = (if u_name u \<noteq> []
                       then mk_obj [(''username'', JStr (u_name u)), (''display_name'', JStr (u_name u)),
                                    (''handle'', JStr (sanitize_handle (u_name u)))]
                       else JNull);
              row = (if u_picture u \<noteq> [] then jset named ''avatar'' (JStr (u_picture u)) else named)
          in if json_empty row then ret ()
             else
               bnd (of_sum (dump E row)) (\<lambda>t.
               bnd (update_execute E t (qb_eq ''id'' (u_id u) (from_table ''users''))) (\<lambda>_. ret ()))
        else
          let hdl = sanitize_handle (u_name u) in
          bnd (execute E (qb_limit 1 (qb_eq ''handle'' hdl (qb_select ''id'' (from_table ''users''))))) (\<lambda>taken.
          bnd (if nonempty_array (parse_nothrow E taken)
               then bnd (GenerateRandomHex E 4) (\<lambda>hex. ret (hdl @ ''_'' @ hex))
               else ret hdl) (\<lambda>free_handle.
          bnd (of_sum (dump E (mk_obj [(''id'', JStr (u_id u)), (''username'', JStr (u_name u)),
                                       (''handle'', JStr free_handle), (''display_name'', JStr (u_name u)),
                                       (''avatar'', JStr (u_picture u))]))) (\<lambda>t.
          bnd (client_insert E ''users'' t False) (\<lambda>_. ret ()))))))"

text \<open>The key is read twice when it is cached; \<^verbatim>\<open>static_cast<int>\<close> keeps the low 32 bits.\<close>

definition CountUserPosts :: "env \<Rightarrow> string \<Rightarrow> ('z db_world_scheme, int) act" where
  "CountUserPosts E user_id =
     bnd (get_json E (post_count_key user_id)) (\<lambda>cached.
     if is_number cached then cache_get_int E (post_count_key user_id) 0
     else
       bnd (count_execute E (qb_eq ''author_id'' user_id (from_table ''posts''))) (\<lambda>total.
       let cnt = (if total \<ge> 0 then sint (word_of_int total :: u32) else 0) in
       bnd (set_json E (post_count_key user_id) (JInt (word_of_int cnt)) CACHE_TTL_POST_COUNT) (\<lambda>_.
       ret cnt)))"

section \<open>Handlers\<close>

text \<open>
  The frame of every handler: whatever \<^verbatim>\<open>std::exception\<close> the body throws becomes an \<open>INTERNAL\<close> status.
\<close>

definition guarded :: "'r \<Rightarrow> ('s, grpc_status \<times> 'r) act \<Rightarrow> ('s, grpc_status \<times> 'r) act" where
  "guarded dflt body = try_catch body any_exn (\<lambda>e. ret ((INTERNAL, what e), dflt))"

definition refuse :: "'r \<Rightarrow> status_code \<Rightarrow> string \<Rightarrow> ('s, grpc_status \<times> 'r) act" where
  "refuse dflt code msg = ret ((code, msg), dflt)"

text \<open>The checks of \<^verbatim>\<open>CreatePost\<close> on the raw fields, in order; \<open>None\<close> when all hold.\<close>

definition create_post_error :: "create_post_request \<Rightarrow> string option" where
  "create_post_error req =
     (if cp_title req = [] then Some ''Title cannot be empty''
      else if length (cp_title req) > MAX_TITLE_CHARS then Some ''Title exceeds maximum length of 256 characters''
      else if cp_content req = [] then Some ''Content cannot be empty''
      else if length (cp_content req) > MAX_CONTENT_CHARS
        then Some ''Content exceeds maximum length of 5000 characters''
      else None)"

definition no_id_message :: string where
  "no_id_message =
     ''Nao foi possivel obter o ID do post criado, ent'' @ [CHR 0xC3, CHR 0xA3] @ ''o '' @
     ''n'' @ [CHR 0xC3, CHR 0xA3] @ ''o foi postado o post. Mas n'' @ [CHR 0xC3, CHR 0xA3] @ ''o foi falha sua, e '' @
     ''sim dos nossos servidores :( ''"

text \<open>Inserting the row, reading it back, and dropping what the cache held: after the checks.\<close>

definition store_post ::
  "env \<Rightarrow> nat \<Rightarrow> auth_user \<Rightarrow> string \<Rightarrow> string \<Rightarrow> string \<Rightarrow> ('z db_world_scheme, grpc_status \<times> post_msg) act" where
  "store_post E fuel user clean_title clean_content clean_image =
     bnd (UpsertUser E user) (\<lambda>_.
     bnd (generateSecId E fuel) (\<lambda>idSec.
     bnd (of_sum (dump E (mk_obj [(''id'', JStr idSec), (''author_id'', JStr (u_id user)), (''title'', JStr clean_title),
                                  (''content'', JStr clean_content), (''image_url'', JStr clean_image)]))) (\<lambda>row.
     bnd (insert_return E ''posts'' row False) (\<lambda>created.
     bnd (of_sum (if created \<noteq> []
                  then (let created_json = parse_nothrow E created
                        in if is_object created_json then json_or get_string created_json ''id'' [] else Inr [])
                  else Inr [])) (\<lambda>post_id.
     if post_id = [] then refuse empty_post INTERNAL no_id_message
     else
       bnd (execute E (qb_limit 1 (qb_eq ''id'' post_id (qb_select POST_SELECT (from_table ''posts''))))) (\<lambda>result.
       let posts_arr = parse_nothrow E result in
       bnd (of_sum (if nonempty_array posts_arr then ParsePost (hd (elements posts_arr)) else Inr (False, empty_post))) (\<lambda>(_, response).
       bnd (invalidate_feed E) (\<lambda>_.
       bnd (invalidate_post_count E (u_id user)) (\<lambda>_.
       ret (status_ok, response))))))))))"

definition CreatePost ::
  "libxml \<Rightarrow> env \<Rightarrow> nat \<Rightarrow> context_ptr \<Rightarrow> create_post_request \<Rightarrow> ('z auth_world_scheme, grpc_status \<times> post_msg) act" where
  "CreatePost X E fuel ctx req =
     guarded empty_post
       (bnd (GetUser ctx) (\<lambda>u.
        case u of
          None \<Rightarrow> refuse empty_post UNAUTHENTICATED ''Not authenticated''
        | Some user \<Rightarrow>
            (case create_post_error req of
               Some msg \<Rightarrow> refuse empty_post INVALID_ARGUMENT msg
             | None \<Rightarrow>
                 bnd (of_sum (SanitizeString X (cp_title req))) (\<lambda>clean_title.
                 bnd (of_sum (SanitizeString X (cp_content req))) (\<lambda>clean_content.
                 let clean_image = SanitizeUrl (cp_image_url req) in
                 if clean_image \<noteq> [] \<and> length clean_image > MAX_IMAGE_CHARS
                 then refuse empty_post INVALID_ARGUMENT ''Image URL exceeds maximum length of 2048 characters''
                 else store_post E fuel user clean_title clean_content clean_image)))))"

definition GetPost :: "env \<Rightarrow> context_ptr \<Rightarrow> string \<Rightarrow> ('z auth_world_scheme, grpc_status \<times> post_msg) act" where
  "GetPost E ctx post_id =
     guarded empty_post
       (bnd (get_json E (post_key post_id)) (\<lambda>cached.
        if is_object cached
        then bnd (of_sum (ParsePost cached)) (\<lambda>(_, response). ret (status_ok, response))
        else
          bnd (GetUser ctx) (\<lambda>user.
          let user_id = (case user of Some u \<Rightarrow> u_id u | None \<Rightarrow> []) in
          bnd (of_sum (dump E (mk_obj [(''p_user_id'', JStr user_id), (''p_post_id'', JStr post_id)]))) (\<lambda>params.
          bnd (rpc E ''get_post'' params) (\<lambda>result.
          let parsed = parse_nothrow E result in
          if \<not> is_object parsed \<or> \<not> has_id parsed
          then refuse empty_post NOT_FOUND ''Post nao encontrado''
          else
            bnd (of_sum (ParsePost parsed)) (\<lambda>(_, response).
            bnd (set_json E (post_key post_id) parsed CACHE_TTL_POST) (\<lambda>_.
            ret (status_ok, response))))))))"

text \<open>The media of a removed post: its hash row and the object behind it.\<close>

definition delete_media :: "env \<Rightarrow> string \<Rightarrow> ('z server_world_scheme, unit) act" where
  "delete_media E image_url =
     (if image_url = [] then ret ()
      else
        bnd (execute E (qb_limit 1 (qb_eq ''url'' image_url (qb_select ''file_id'' (from_table ''midia_hashes''))))) (\<lambda>hash_result.
        let hash_arr = parse_nothrow E hash_result in
        if nonempty_array hash_arr
        then
          bnd (of_sum (json_or get_string (hd (elements hash_arr)) ''file_id'' [])) (\<lambda>file_id.
          bnd (delete_execute E (qb_eq ''url'' image_url (from_table ''midia_hashes''))) (\<lambda>_.
          if file_id \<noteq> [] then bnd (gets (cdnBucket \<circ> app_cfg)) (\<lambda>bucket. S3DeleteAsync bucket file_id)
          else ret ()))
        else ret ()))"

text \<open>Removing the post once its row has been read and the author compared.\<close>

definition remove_post ::
  "env \<Rightarrow> string \<Rightarrow> string \<Rightarrow> json \<Rightarrow> ('z server_world_scheme, grpc_status \<times> unit) act" where
  "remove_post E post_id author_id row =
     bnd (of_sum (json_or get_string row ''image_url'' [])) (\<lambda>image_url.
     bnd (delete_execute E (qb_eq ''id'' post_id (from_table ''posts''))) (\<lambda>del_status.
     if del_status < 200 \<or> del_status \<ge> 300 then refuse () INTERNAL ''Falha ao remover post''
     else
       bnd (delete_media E image_url) (\<lambda>_.
       bnd (invalidate_post E post_id) (\<lambda>_.
       bnd (invalidate_feed E) (\<lambda>_.
       bnd (invalidate_user_posts E author_id) (\<lambda>_.
       ret (status_ok, ())))))))"

definition DeletePost :: "env \<Rightarrow> context_ptr \<Rightarrow> string \<Rightarrow> ('z server_world_scheme, grpc_status \<times> unit) act" where
  "DeletePost E ctx post_id =
     guarded ()
       (bnd (GetUser ctx) (\<lambda>u.
        case u of
          None \<Rightarrow> refuse () UNAUTHENTICATED ''Not authenticated''
        | Some user \<Rightarrow>
            if post_id = [] then refuse () INVALID_ARGUMENT ''Post ID is required''
            else
              bnd (execute E (qb_limit 1 (qb_eq ''id'' post_id (qb_select ''id,author_id,image_url'' (from_table ''posts''))))) (\<lambda>result.
              let arr = parse_nothrow E result in
              if \<not> nonempty_array arr then refuse () NOT_FOUND ''Post nao encontrado''
              else
                bnd (of_sum (json_or get_string (hd (elements arr)) ''author_id'' [])) (\<lambda>author_id.
                if author_id \<noteq> u_id user
                then refuse () PERMISSION_DENIED ''Not authorized to delete this post''
                else remove_post E post_id author_id (hd (elements arr))))))"

text \<open>
  Paging: the defaults, and the offset as the 32-bit product, read as a signed number.
\<close>

definition page_of :: "u32 \<Rightarrow> u32" where
  "page_of p = (if p > 0 then p else 1)"

definition limit_of :: "u32 \<Rightarrow> u32" where
  "limit_of l = (if l > 0 then l else 20)"

definition page_offset :: "u32 \<Rightarrow> u32 \<Rightarrow> int" where
  "page_offset page limit = sint ((page - 1) * limit)"

text \<open>\<^verbatim>\<open>for (const auto &row : arr) ParsePost(row, response->add_posts());\<close>\<close>

definition parse_posts :: "json \<Rightarrow> ('s, post_msg list) act" where
  "parse_posts arr = mapA (\<lambda>row. bnd (of_sum (ParsePost row)) (\<lambda>(_, post). ret post)) (elements arr)"

text \<open>The common part of the two lists: the cached rows, or else those of a database function.\<close>

definition list_posts ::
  "env \<Rightarrow> string \<Rightarrow> string \<Rightarrow> json \<Rightarrow> ('z db_world_scheme, grpc_status \<times> post_msg list) act" where
  "list_posts E cache_key fn params_json =
     bnd (get_json E cache_key) (\<lambda>cached.
     if is_array cached
     then bnd (parse_posts cached) (\<lambda>posts. ret (status_ok, posts))
     else
       bnd (of_sum (dump E params_json)) (\<lambda>params.
       bnd (rpc E fn params) (\<lambda>result.
       let arr = parse_nothrow E result in
       if \<not> is_array arr then ret (status_ok, [])
       else
         bnd (parse_posts arr) (\<lambda>posts.
         bnd (set_json E cache_key arr CACHE_TTL_FEED) (\<lambda>_.
         ret (status_ok, posts))))))"

definition ListFeed ::
  "env \<Rightarrow> context_ptr \<Rightarrow> list_request \<Rightarrow> ('z auth_world_scheme, grpc_status \<times> post_msg list) act" where
  "ListFeed E ctx req =
     guarded []
       (bnd (GetUser ctx) (\<lambda>u.
        case u of
          None \<Rightarrow> refuse [] UNAUTHENTICATED ''Not authenticated''
        | Some user \<Rightarrow>
            let page = page_of (lr_page req); limit = limit_of (lr_limit req) in
            list_posts E (feed_key (sint page) (sint limit)) ''get_feed''
              (mk_obj [(''p_user_id'', JStr (u_id user)), (''p_limit'', JInt (word_of_int (sint limit))),
                       (''p_offset'', JInt (word_of_int (page_offset page limit)))])))"

definition ListUserPosts ::
  "env \<Rightarrow> context_ptr \<Rightarrow> list_request \<Rightarrow> ('z auth_world_scheme, grpc_status \<times> post_msg list) act" where
  "ListUserPosts E ctx req =
     guarded []
       (bnd (GetUser ctx) (\<lambda>u.
        case u of
          None \<Rightarrow> refuse [] UNAUTHENTICATED ''Not authenticated''
        | Some user \<Rightarrow>
            let page = page_of (lr_page req); limit = limit_of (lr_limit req) in
            list_posts E (user_posts_key (lr_user_id req) (sint page) (sint limit)) ''get_user_posts''
              (mk_obj [(''p_user_id'', JStr (u_id user)), (''p_author_id'', JStr (lr_user_id req)),
                       (''p_limit'', JInt (word_of_int (sint limit))),
                       (''p_offset'', JInt (word_of_int (page_offset page limit)))])))"

text \<open>The common part of the two user lookups: the cached row, or else the row of a query.\<close>

definition fetch_user ::
  "env \<Rightarrow> string \<Rightarrow> string \<Rightarrow> string \<Rightarrow> ('z db_world_scheme, grpc_status \<times> user_msg) act" where
  "fetch_user E cache_key query missing =
     bnd (get_json E cache_key) (\<lambda>cached.
     if is_object cached
     then bnd (of_sum (ParseUser cached)) (\<lambda>(_, response). ret (status_ok, response))
     else
       bnd (execute E query) (\<lambda>result.
       let arr = parse_nothrow E result in
       if \<not> nonempty_array arr then refuse empty_user NOT_FOUND missing
       else
         bnd (of_sum (ParseUser (hd (elements arr)))) (\<lambda>(_, response).
         bnd (set_json E cache_key (hd (elements arr)) CACHE_TTL_USER) (\<lambda>_.
         ret (status_ok, response)))))"

definition GetUserById :: "env \<Rightarrow> string \<Rightarrow> ('z db_world_scheme, grpc_status \<times> user_msg) act" where
  "GetUserById E user_id =
     guarded empty_user
       (if user_id = [] then refuse empty_user INVALID_ARGUMENT ''User ID is required''
        else fetch_user E (user_key user_id)
               (qb_limit 1 (qb_eq ''id'' user_id (qb_select ''*'' (from_table ''users'')))) ''User not found'')"

definition strip_at :: "string \<Rightarrow> string" where
  "strip_at h = (if h \<noteq> [] \<and> hd h = CHR ''@'' then drop 1 h else h)"

definition GetUserByHandle :: "env \<Rightarrow> string \<Rightarrow> ('z db_world_scheme, grpc_status \<times> user_msg) act" where
  "GetUserByHandle E requested =
     guarded empty_user
       (if requested = [] then refuse empty_user INVALID_ARGUMENT ''Handle is required''
        else
          let hdl = strip_at requested in
          fetch_user E (handle_key hdl)
            (qb_limit 1 (qb_eq ''handle'' hdl (qb_select ''*'' (from_table ''users'')))) ''User not found for this handle'')"

definition empty_like :: like_result where
  "empty_like = \<lparr>is_liked = False, updated_likes_count = 0\<rparr>"

definition ToggleLike :: "env \<Rightarrow> context_ptr \<Rightarrow> string \<Rightarrow> ('z auth_world_scheme, grpc_status \<times> like_result) act" where
  "ToggleLike E ctx post_id =
     guarded empty_like
       (bnd (GetUser ctx) (\<lambda>u.
        case u of
          None \<Rightarrow> refuse empty_like UNAUTHENTICATED ''Not authenticated''
        | Some user \<Rightarrow>
            if post_id = [] then refuse empty_like INVALID_ARGUMENT ''Post ID is required''
            else
              bnd (of_sum (dump E (mk_obj [(''p_user_id'', JStr (u_id user)), (''p_post_id'', JStr post_id)]))) (\<lambda>params.
              bnd (rpc E ''toggle_like'' params) (\<lambda>result.
              let res = parse_nothrow E result in
              if \<not> is_object res then refuse empty_like INTERNAL ''Toggle like failed''
              else
                bnd (of_sum (json_or get_bool res ''is_liked'' False)) (\<lambda>liked.
                bnd (of_sum (json_or get_int res ''likes_count'' 0)) (\<lambda>likes.
                bnd (invalidate_post E post_id) (\<lambda>_.
                bnd (invalidate_like E (u_id user) post_id) (\<lambda>_.
                bnd (invalidate_feed E) (\<lambda>_.
                ret (status_ok, \<lparr>is_liked = liked, updated_likes_count = word_of_int likes\<rparr>))))))))))"

text \<open>After both tokens are good: storing the user and filling the response.\<close>

definition finish_login ::
  "env \<Rightarrow> string \<Rightarrow> string \<Rightarrow> auth_user \<Rightarrow> ('z db_world_scheme, grpc_status \<times> login_result) act" where
  "finish_login E id_token refresh_token user =
     bnd (UpsertUser E user) (\<lambda>_.
     bnd (CountUserPosts E (u_id user)) (\<lambda>cnt.
     let proto_user = empty_user\<lparr>usr_id := u_id user, usr_username := u_name user,
           usr_display_name := u_name user, usr_avatar := u_picture user, usr_posts_count := word_of_int cnt\<rparr> in
     bnd (invalidate_user E (u_id user)) (\<lambda>_.
     ret (status_ok, empty_login\<lparr>lg_id_token := id_token, lg_refresh_token := refresh_token,
       lg_expires_in := word_of_int ID_ACCESS_TOKEN_EXPIRES_SECONDS, lg_user := Some proto_user\<rparr>))))"

definition Login ::
  "os \<Rightarrow> environ \<Rightarrow> openssl \<Rightarrow> env \<Rightarrow> string \<Rightarrow> string \<Rightarrow> ('z jwt_world_scheme, grpc_status \<times> login_result) act" where
  "Login os m L E authorization_code redirect_uri =
     guarded empty_login
       (if authorization_code = [] then refuse empty_login INVALID_ARGUMENT ''Authorization code is required''
        else if redirect_uri = [] then refuse empty_login INVALID_ARGUMENT ''Redirect URI is required''
        else
          bnd (ExchangeCodeForToken os m E authorization_code redirect_uri) (\<lambda>(status, id_token, refresh_token).
          if fst status \<noteq> OK then ret (status, empty_login)
          else
            bnd (ValidateIdToken L E id_token) (\<lambda>(user_status, user).
            if fst user_status \<noteq> OK then ret (user_status, empty_login)
            else finish_login E id_token refresh_token user)))"

definition RefreshAccessToken_rpc ::
  "os \<Rightarrow> environ \<Rightarrow> env \<Rightarrow> string \<Rightarrow> ('z world_scheme, grpc_status \<times> login_result) act" where
  "RefreshAccessToken_rpc os m E refresh_token =
     guarded empty_login
       (if refresh_token = [] then refuse empty_login INVALID_ARGUMENT ''Refresh token is required''
        else
          bnd (RefreshAccessToken os m E refresh_token) (\<lambda>(status, new_id_token).
          if fst status \<noteq> OK then ret (status, empty_login)
          else ret (status_ok, empty_login\<lparr>lg_id_token := new_id_token,
                 lg_expires_in := word_of_int ID_REFRESH_TOKEN_EXPIRES_SECONDS\<rparr>)))"

section \<open>Start and shutdown\<close>

definition server_routes :: "route_config list" where
  "server_routes =
     [\<lparr>rt_method = ''/social.PostService/CreatePost'', max_requests = 5, window = 60\<rparr>,
      \<lparr>rt_method = ''/social.InteractionService/ToggleLike'', max_requests = 10, window = 60\<rparr>,
      \<lparr>rt_method = ''/social.InteractionService/AddComment'', max_requests = 5, window = 60\<rparr>,
      \<lparr>rt_method = ''/social.SocialService/ToggleFollow'', max_requests = 5, window = 60\<rparr>]"

text \<open>
  \<open>init\<close> up to \<^verbatim>\<open>server_->Wait()\<close>; \<open>sodium\<close> is what \<^verbatim>\<open>sodium_init\<close> gives, \<open>built\<close> whether
  \<^verbatim>\<open>BuildAndStart\<close> gives a server. The interceptor factory starts with an empty limiter.
\<close>

definition server_init :: "env \<Rightarrow> int \<Rightarrow> bool \<Rightarrow> app_config \<Rightarrow> ('z server_world_scheme, bool) act" where
  "server_init E sodium built config =
     bnd (modify (\<lambda>s. s\<lparr>app_cfg := config\<rparr>)) (\<lambda>_.
     if sodium < 0 then raise (StdError ''Failed to initialize libsodium'')
     else
       bnd (if redisUrl config \<noteq> [] then bnd (cache_init E (redisUrl config)) (\<lambda>_. ret ()) else ret ()) (\<lambda>_.
       bnd (modify (\<lambda>s. s\<lparr>rl_usage := (\<lambda>ip mth. []), rl_granted := [], grpc_server := built\<rparr>)) (\<lambda>_.
       ret built)))"

text \<open>\<open>stop\<close>: whether there was a server to tell.\<close>

definition server_shutdown :: "('z server_world_scheme, bool) act" where
  "server_shutdown = gets grpc_server"

section \<open>Calls\<close>

text \<open>The limiter on the state of the server.\<close>

definition on_limiter :: "(rl_world, 'a) act \<Rightarrow> ('z server_world_scheme, 'a) act" where
  "on_limiter m = (\<lambda>s. case m \<lparr>trace = trace s, usage = rl_usage s, granted = rl_granted s\<rparr> of
     (r, l) \<Rightarrow> (r, s\<lparr>trace := trace l, rl_usage := usage l, rl_granted := granted l\<rparr>))"

definition at_receive :: hooks where
  "at_receive = \<lparr>post_recv_initial_metadata = True, pre_send_status = False\<rparr>"

definition at_send :: hooks where
  "at_send = \<lparr>post_recv_initial_metadata = False, pre_send_status = True\<rparr>"

text \<open>
  One call under the interceptors \<open>init\<close> registers, authentication first and the limiter second. gRPC
  runs them in reverse order when the call comes in and in order when its status goes out
  (\<^verbatim>\<open>ProceedServer\<close>, \<^verbatim>\<open>SetReverse\<close>); between the two the handler runs. Nothing an interceptor does at
  the first point can keep the handler from running.
\<close>

definition serve_call ::
  "openssl \<Rightarrow> env \<Rightarrow> string \<Rightarrow> context_ptr \<Rightarrow> metadata \<Rightarrow> ('z server_world_scheme, grpc_status \<times> 'r) act
     \<Rightarrow> ('z server_world_scheme, grpc_status \<times> 'r) act" where
  "serve_call L E method ctx md handler =
     bnd (on_limiter (ratelimit_Intercept server_routes E method (Some md) at_receive False status_ok)) (\<lambda>(rejected, _).
     bnd (auth_Intercept L E method ctx (Some md) at_receive True status_ok) (\<lambda>(token_valid, _).
     bnd handler (\<lambda>(st, r).
     bnd (auth_Intercept L E method ctx None at_send token_valid st) (\<lambda>(_, st').
     bnd (on_limiter (ratelimit_Intercept server_routes E method None at_send rejected st')) (\<lambda>(_, st'').
     ret (st'', r))))))"

text \<open>The requests of the ten handlers, and the handler of each, its result among all messages.\<close>

datatype call =
    CallCreatePost create_post_request
  | CallGetPost string
  | CallDeletePost string
  | CallListFeed list_request
  | CallListUserPosts list_request
  | CallGetUserById string
  | CallGetUserByHandle string
  | CallToggleLike string
  | CallLogin string string
  | CallRefreshAccessToken string

datatype message =
    MPost post_msg | MPosts "post_msg list" | MUser user_msg | MEmpty | MLike like_result | MLogin login_result

definition as_message :: "('r \<Rightarrow> message) \<Rightarrow> ('s, grpc_status \<times> 'r) act \<Rightarrow> ('s, grpc_status \<times> message) act" where
  "as_message f h = bnd h (\<lambda>(st, r). ret (st, f r))"

fun handle_call ::
  "os \<Rightarrow> environ \<Rightarrow> openssl \<Rightarrow> libxml \<Rightarrow> env \<Rightarrow> nat \<Rightarrow> context_ptr \<Rightarrow> call
     \<Rightarrow> ('z server_world_scheme, grpc_status \<times> message) act" where
  "handle_call os m L X E fuel ctx (CallCreatePost req) = as_message MPost (CreatePost X E fuel ctx req)"
| "handle_call os m L X E fuel ctx (CallGetPost pid) = as_message MPost (GetPost E ctx pid)"
| "handle_call os m L X E fuel ctx (CallDeletePost pid) = as_message (\<lambda>_. MEmpty) (DeletePost E ctx pid)"
| "handle_call os m L X E fuel ctx (CallListFeed req) = as_message MPosts (ListFeed E ctx req)"
| "handle_call os m L X E fuel ctx (CallListUserPosts req) = as_message MPosts (ListUserPosts E ctx req)"
| "handle_call os m L X E fuel ctx (CallGetUserById i) = as_message MUser (GetUserById E i)"
| "handle_call os m L X E fuel ctx (CallGetUserByHandle h) = as_message MUser (GetUserByHandle E h)"
| "handle_call os m L X E fuel ctx (CallToggleLike pid) = as_message MLike (ToggleLike E ctx pid)"
| "handle_call os m L X E fuel ctx (CallLogin code uri) = as_message MLogin (Login os m L E code uri)"
| "handle_call os m L X E fuel ctx (CallRefreshAccessToken t) = as_message MLogin (RefreshAccessToken_rpc os m E t)"

text \<open>The names under which gRPC registers the ten methods, and one call from arrival to answer.\<close>

fun method_of :: "call \<Rightarrow> string" where
  "method_of (CallGetUserById i) = ''/social.UserService/GetUserById''"
| "method_of (CallGetUserByHandle h) = ''/social.UserService/GetUserByHandle''"
| "method_of (CallLogin code uri) = ''/social.AuthService/Login''"
| "method_of (CallRefreshAccessToken t) = ''/social.AuthService/RefreshAccessToken''"
| "method_of (CallCreatePost req) = ''/social.PostService/CreatePost''"
| "method_of (CallGetPost pid) = ''/social.PostService/GetPost''"
| "method_of (CallDeletePost pid) = ''/social.PostService/DeletePost''"
| "method_of (CallListFeed req) = ''/social.PostService/ListFeed''"
| "method_of (CallListUserPosts req) = ''/social.PostService/ListUserPosts''"
| "method_of (CallToggleLike pid) = ''/social.InteractionService/ToggleLike''"

definition serve ::
  "os \<Rightarrow> environ \<Rightarrow> openssl \<Rightarrow> libxml \<Rightarrow> env \<Rightarrow> nat \<Rightarrow> context_ptr \<times> metadata \<times> call
     \<Rightarrow> ('z server_world_scheme, grpc_status \<times> message) act" where
  "serve os m L X E fuel = (\<lambda>(ctx, md, c). serve_call L E (method_of c) ctx md (handle_call os m L X E fuel ctx c))"

end
