(* ===== verification/Service.thy ===== *)
theory Service
  imports Server
begin

text \<open>
  The properties of the handlers of theory \<open>Server\<close>. The client of the database works with the anon key
  throughout, so a handler is judged on states in which it does: \<open>tame A X m\<close> says that from such a state
  the action stays among them, logs only events of the class \<open>A\<close> and is stopped only by what \<open>X\<close> allows.
  There is one introduction rule per combinator and per operation of the lower layers (collection
  \<open>tame\<close>).
\<close>

section \<open>A calculus of handlers\<close>

definition tame :: "(event \<Rightarrow> bool) \<Rightarrow> (exn \<Rightarrow> bool) \<Rightarrow> ('z db_world_scheme, 'a) act \<Rightarrow> bool" where
  "tame A X m \<longleftrightarrow>
     (\<forall>s. anonymous s \<longrightarrow>
        anonymous (snd (m s)) \<and> (\<forall>e. fst (m s) = Inl e \<longrightarrow> X e) \<and>
        (\<exists>es. trace (snd (m s)) = es @ trace s \<and> list_all A es))"

named_theorems tame \<open>well-behaved actions of the service\<close>

lemma tameE:
  assumes "tame A X m" "anonymous s" "m s = (r, t)"
  obtains es where "anonymous t" "\<forall>e. r = Inl e \<longrightarrow> X e" "trace t = es @ trace s" "list_all A es"
  using assms unfolding tame_def by (metis fst_conv snd_conv)

lemma tameI:
  assumes "\<And>s r t. anonymous s \<Longrightarrow> m s = (r, t) \<Longrightarrow>
    anonymous t \<and> (\<forall>e. r = Inl e \<longrightarrow> X e) \<and> (\<exists>es. trace t = es @ trace s \<and> list_all A es)"
  shows "tame A X m"
  using assms unfolding tame_def by (metis prod.collapse)

lemma tame_lift:
  "emits A m \<Longrightarrow> frames db m \<Longrightarrow> (\<And>s e t. m s = (Inl e, t) \<Longrightarrow> X e) \<Longrightarrow> tame A X m"
  unfolding tame_def emits_def frames_def by (metis prod.collapse)

lemma tame_lift_catchable:
  "emits A m \<Longrightarrow> frames db m \<Longrightarrow> catchable m \<Longrightarrow> (\<And>e. any_exn e \<Longrightarrow> X e) \<Longrightarrow> tame A X m"
  by (rule tame_lift) (auto simp: catchable_def)

lemma tame_ret [tame]: "tame A X (ret x)"
  and tame_gets [tame]: "tame A X (gets f)"
  by (simp_all add: tame_def)

lemma tame_refuse [tame]: "tame A X (refuse d c msg)"
  by (simp add: refuse_def tame_ret)

lemma tame_of_sum: "(\<And>e. r = Inl e \<Longrightarrow> X e) \<Longrightarrow> tame A X (of_sum r)"
  by (simp add: tame_def)

lemma tame_bnd_yields:
  assumes m: "tame A X m" and y: "yields P m" and f: "\<And>x. P x \<Longrightarrow> tame A X (f x)"
  shows "tame A X (bnd m f)"
proof (rule tameI)
  fix s and r t
  assume s: "anonymous s" and run: "bnd m f s = (r, t)"
  obtain r' u where mu: "m s = (r', u)" by (cases "m s")
  from tameE[OF m s mu] obtain es where es: "anonymous u" "\<forall>e. r' = Inl e \<longrightarrow> X e" "trace u = es @ trace s" "list_all A es" .
  show "anonymous t \<and> (\<forall>e. r = Inl e \<longrightarrow> X e) \<and> (\<exists>es. trace t = es @ trace s \<and> list_all A es)"
  proof (cases r')
    case (Inl e)
    with run mu es show ?thesis by (auto simp: bnd_def)
  next
    case (Inr x)
    have fx: "f x u = (r, t)" using run mu Inr by (simp add: bnd_def)
    have "P x" using y mu Inr by (auto simp: yields_def)
    from tameE[OF f[OF this] es(1) fx] obtain fs where "anonymous t" "\<forall>e. r = Inl e \<longrightarrow> X e"
      "trace t = fs @ trace u" "list_all A fs" .
    with es show ?thesis by (intro conjI exI[of _ "fs @ es"]) auto
  qed
qed

lemma tame_bnd [tame]: "tame A X m \<Longrightarrow> (\<And>x. tame A X (f x)) \<Longrightarrow> tame A X (bnd m f)"
  by (rule tame_bnd_yields[where P = "\<lambda>x. True"]) (simp_all add: yields_def)

lemma tame_try:
  assumes m: "tame A X m" and h: "\<And>e. X e \<Longrightarrow> p e \<Longrightarrow> tame A Y (h e)" and XY: "\<And>e. X e \<Longrightarrow> \<not> p e \<Longrightarrow> Y e"
  shows "tame A Y (try_catch m p h)"
proof (rule tameI)
  fix s and r t
  assume s: "anonymous s" and run: "try_catch m p h s = (r, t)"
  obtain r' u where mu: "m s = (r', u)" by (cases "m s")
  from tameE[OF m s mu] obtain es where es: "anonymous u" "\<forall>e. r' = Inl e \<longrightarrow> X e" "trace u = es @ trace s" "list_all A es" .
  show "anonymous t \<and> (\<forall>e. r = Inl e \<longrightarrow> Y e) \<and> (\<exists>es. trace t = es @ trace s \<and> list_all A es)"
  proof (cases "\<exists>e. r' = Inl e \<and> p e")
    case False
    with run mu es XY show ?thesis by (auto simp: try_catch_def split: sum.splits)
  next
    case True
    then obtain e where e: "r' = Inl e" "p e" by blast
    have he: "h e u = (r, t)" using run mu e by (simp add: try_catch_def)
    from tameE[OF h[OF es(2)[rule_format, OF e(1)] e(2)] es(1) he] obtain fs where "anonymous t" "\<forall>e. r = Inl e \<longrightarrow> Y e"
      "trace t = fs @ trace u" "list_all A fs" .
    with es show ?thesis by (intro conjI exI[of _ "fs @ es"]) auto
  qed
qed

text \<open>A handler turns every exception of its body into a status.\<close>

lemma tame_guarded: "tame A X m \<Longrightarrow> tame A (\<lambda>e. X e \<and> \<not> any_exn e) (guarded d m)"
  unfolding guarded_def by (rule tame_try[where X = X]) (auto intro: tame_ret)

lemma tame_if [tame]: "(b \<Longrightarrow> tame A X m) \<Longrightarrow> (\<not> b \<Longrightarrow> tame A X n) \<Longrightarrow> tame A X (if b then m else n)"
  by simp

lemma tame_Let [tame]: "(\<And>x. x = a \<Longrightarrow> tame A X (f x)) \<Longrightarrow> tame A X (let x = a in f x)"
  by simp

lemma tame_case_option [tame]:
  "(r = None \<Longrightarrow> tame A X n) \<Longrightarrow> (\<And>x. r = Some x \<Longrightarrow> tame A X (f x)) \<Longrightarrow>
   tame A X (case r of None \<Rightarrow> n | Some x \<Rightarrow> f x)"
  by (cases r) auto

lemma tame_case_prod [tame]: "(\<And>x y. tame A X (f x y)) \<Longrightarrow> tame A X (case r of (x, y) \<Rightarrow> f x y)"
  by (cases r) auto

lemma tame_mapA [tame]: "(\<And>x. tame A X (f x)) \<Longrightarrow> tame A X (mapA f xs)"
  by (induction xs) (auto intro!: tame)

lemma returns_guarded:
  assumes "tame A any_exn m" "anonymous s"
  shows "\<exists>st r t. guarded d m s = (Inr (st, r), t) \<and> anonymous t"
proof -
  obtain r t where run: "guarded d m s = (r, t)" by (cases "guarded d m s")
  from tameE[OF tame_guarded[OF assms(1)] assms(2) run] have "\<nexists>e. r = Inl e" "anonymous t" by auto
  then show ?thesis using run by (cases r) auto
qed

section \<open>The operations below\<close>

lemma tame_asked:
  fixes m :: "('z db_world_scheme, 'a) act"
  assumes "\<And>s. anonymous s \<Longrightarrow> m s = (Inr (g s), asked (q (db s)) s)" "\<And>c. A (EvHttp (q c))"
  shows "tame A X m"
  unfolding tame_def
proof (intro allI impI)
  fix s :: "'z db_world_scheme"
  assume s: "anonymous s"
  have "\<exists>es. EvHttp (q (db s)) # trace s = es @ trace s \<and> list_all A es"
    by (intro exI[of _ "[EvHttp (q (db s))]"]) (simp add: assms(2))
  then show "anonymous (snd (m s)) \<and> (\<forall>e. fst (m s) = Inl e \<longrightarrow> X e) \<and> (\<exists>es. trace (snd (m s)) = es @ trace s \<and> list_all A es)"
    using s by (simp add: assms(1))
qed

lemma tame_db [tame]:
  "(\<And>c. A (EvHttp (select_req c q))) \<Longrightarrow> tame A X (execute E q)"
  "(\<And>c. A (EvHttp (update_req c q b))) \<Longrightarrow> tame A X (update_execute E b q)"
  "(\<And>c. A (EvHttp (delete_req c q))) \<Longrightarrow> tame A X (delete_execute E q)"
  "(\<And>c. A (EvHttp (count_req c q))) \<Longrightarrow> tame A X (count_execute E q)"
  "(\<And>c. A (EvHttp (rpc_req c fn b))) \<Longrightarrow> tame A X (rpc E fn b)"
  "(\<And>c. A (EvHttp (insert_req c ''minimal'' tb b up))) \<Longrightarrow> tame A X (client_insert E tb b up)"
  "(\<And>c. A (EvHttp (insert_req c ''representation'' tb b up))) \<Longrightarrow> tame A X (insert_return E tb b up)"
  unfolding execute_def update_execute_def delete_execute_def count_execute_def
  by (rule tame_asked, erule do_select_run do_update_run do_delete_run do_count_run rpc_run client_insert_run insert_return_run, assumption)+

text \<open>The cache, the random source and the identity provider do not touch the client of the database.\<close>

lemma frames_cache [frames]:
  "frames db (cache_set E k v ttl)" "frames db (cache_get E k)" "frames db (del E k)" "frames db (del_pattern E pt)"
  unfolding cache_set_def cache_get_def del_def del_pattern_def if_connected_def is_connected_def redis_def
  by (intro frames frames_mapA frames_ask frames_if; auto intro!: frames split: prod.splits option.splits)+

lemma catchable_cache [catchable]:
  "catchable (cache_set E k v ttl)" "catchable (cache_get E k)" "catchable (del E k)" "catchable (del_pattern E pt)"
  unfolding cache_set_def cache_get_def del_def del_pattern_def if_connected_def is_connected_def redis_def
  by (intro catchable)+

lemma tame_cache [tame]:
  assumes "\<And>ev. is_redis ev \<Longrightarrow> A ev" and "\<And>e. any_exn e \<Longrightarrow> X e"
  shows "tame A X (set_json E k j ttl)" "tame A X (get_json E k)" "tame A X (cache_get_int E k d)"
    "tame A X (del E k)" "tame A X (del_pattern E pt)"
proof -
  have get: "tame A any_exn (cache_get E k)"
    by (rule tame_lift_catchable) (auto intro: emits_cacheI assms frames catchable)
  then have get': "tame A X (cache_get E k)"
    by (auto simp: tame_def assms(2))
  show "tame A X (set_json E k j ttl)"
    unfolding set_json_def
    by (intro tame_bnd tame_of_sum tame_lift_catchable)
      (auto intro: emits_cacheI assms frames catchable dest: dump_catchable)
  show "tame A X (get_json E k)"
    unfolding get_json_def
    by (intro tame_bnd get' tame_if tame_ret tame_try[where X = any_exn] tame_of_sum) (auto dest: parse_catchable)
  have "map_sum StdError id (stoi v) = Inl e \<Longrightarrow> any_exn e" for v e
    by (cases "stoi v") auto
  then show "tame A X (cache_get_int E k d)"
    unfolding cache_get_int_def
    by (intro tame_bnd get' tame_if tame_ret tame_try[where X = any_exn] tame_of_sum) auto
  show "tame A X (del E k)" "tame A X (del_pattern E pt)"
    by (rule tame_lift_catchable; auto intro: emits_cacheI assms frames catchable)+
qed

lemma tame_invalidate [tame]:
  assumes "\<And>ev. is_redis ev \<Longrightarrow> A ev" and "\<And>e. any_exn e \<Longrightarrow> X e"
  shows "tame A X (invalidate_post E i)" "tame A X (invalidate_user E i)" "tame A X (invalidate_feed E)"
    "tame A X (invalidate_user_posts E i)" "tame A X (invalidate_like E i j)" "tame A X (invalidate_post_count E i)"
  unfolding invalidate_post_def invalidate_user_def invalidate_feed_def invalidate_user_posts_def invalidate_like_def
    invalidate_post_count_def
  by (intro tame assms; assumption)+

lemma GenerateRandomHex_frames: "frames db (GenerateRandomHex E n)"
  by (simp add: frames_def GenerateRandomHex_run)

lemma tame_GenerateRandomHex [tame]: "A EvRand \<Longrightarrow> tame A X (GenerateRandomHex E n)"
  by (rule tame_lift[OF emits_GenerateRandomHex GenerateRandomHex_frames]) (simp_all add: GenerateRandomHex_run)

text \<open>The same for the readers of rows, which are no actions.\<close>

definition throws_only :: "exn + 'a \<Rightarrow> bool" where
  "throws_only r \<longleftrightarrow> (\<forall>e. r = Inl e \<longrightarrow> any_exn e)"

named_theorems throws_only \<open>readers stopped by exceptions only\<close>

lemma throws_only_Inr [throws_only]: "throws_only (Inr x)"
  by (simp add: throws_only_def)

lemma throws_only_bind [throws_only]: "throws_only r \<Longrightarrow> (\<And>x. throws_only (f x)) \<Longrightarrow> throws_only (sum_bind r f)"
  by (auto simp: throws_only_def sum_bind_def split: sum.splits)

lemma throws_only_if [throws_only]: "throws_only r \<Longrightarrow> throws_only r' \<Longrightarrow> throws_only (if b then r else r')"
  by simp

lemma throws_only_Let [throws_only]: "(\<And>x. throws_only (f x)) \<Longrightarrow> throws_only (let x = a in f x)"
  by simp

lemma throws_only_get [throws_only]:
  "throws_only (get_string j)" "throws_only (get_bool j)" "throws_only (get_word32 j)" "throws_only (get_int j)"
  by (auto simp: throws_only_def dest: get_string_catchable get_bool_catchable get_word32_catchable get_int_catchable)

lemma throws_only_dump [throws_only]: "throws_only (dump E j)"
  by (auto simp: throws_only_def dest: dump_catchable)

lemma throws_only_json_or [throws_only]: "(\<And>v. throws_only (g v)) \<Longrightarrow> throws_only (json_or g j k d)"
  by (auto simp: throws_only_def json_or_def split: option.splits if_splits)

lemma throws_only_rows [throws_only]:
  "throws_only (read_user i a)" "throws_only (ParseUser row)" "throws_only (read_author row)" "throws_only (ParsePost row)"
  unfolding ParseUser_def read_author_def ParsePost_def read_user_def by (intro throws_only)+

lemma tame_throws_only [tame]: "throws_only r \<Longrightarrow> (\<And>e. any_exn e \<Longrightarrow> X e) \<Longrightarrow> tame A X (of_sum r)"
  by (rule tame_of_sum) (auto simp: throws_only_def)

section \<open>The helpers of the service\<close>

lemma tame_UpsertUser [tame]:
  assumes "A EvRand" "\<And>e. any_exn e \<Longrightarrow> X e" and "\<And>c q. A (EvHttp (select_req c (''users?'' @ q)))"
    "\<And>c q b. A (EvHttp (update_req c (''users?'' @ q) b))" "\<And>c b. A (EvHttp (insert_req c ''minimal'' ''users'' b False))"
  shows "tame A X (UpsertUser E u)"
proof -
  have q: "\<exists>r. qb_eq c v (from_table ''users'') = ''users?'' @ r"
    "\<exists>r. qb_limit 1 (qb_eq c v (qb_select cs (from_table ''users''))) = ''users?'' @ r" for c v cs
    by (auto simp: qb_defs check_last_string_def from_table_def)
  have s: "A (EvHttp (select_req c (qb_limit 1 (qb_eq cl v (qb_select cs (from_table ''users''))))))" for c cl v cs
    using q(2)[of cl v cs] assms(3) by metis
  have u: "A (EvHttp (update_req c (qb_eq cl v (from_table ''users'')) b))" for c cl v b
    using q(1)[of cl v] assms(4) by metis
  show ?thesis
    unfolding UpsertUser_def by (intro tame throws_only s u assms)
qed

lemma tame_CountUserPosts [tame]:
  assumes "\<And>ev. is_redis ev \<Longrightarrow> A ev" "\<And>e. any_exn e \<Longrightarrow> X e" "\<And>c q. A (EvHttp (count_req c q))"
  shows "tame A X (CountUserPosts E i)"
  unfolding CountUserPosts_def by (intro tame throws_only assms; assumption)

lemma tame_parse_posts [tame]: "(\<And>e. any_exn e \<Longrightarrow> X e) \<Longrightarrow> tame A X (parse_posts j)"
  unfolding parse_posts_def by (intro tame throws_only)

lemma tame_S3DeleteAsync [tame]: "tame A X (S3DeleteAsync b k)"
  by (simp add: tame_def S3DeleteAsync_def deleteObjectAsync_def bnd_def)

lemma frames_db_jwt [frames]:
  "frames db (fetchGoogleKeys E)" "frames db (lookup_key E k)" "frames db (validateToken L E tok)"
proof -
  show f: "frames db (fetchGoogleKeys E)" for E
    unfolding fetchGoogleKeys_def by (auto intro!: frames split: option.splits json.splits)
  show l: "frames db (lookup_key E k)" for k
    unfolding lookup_key_def needsRefresh_def by (intro frames f) (auto intro!: frames f split: option.splits)
  have "frames db (parse_part L E t)" for t
    by (simp add: frames_def)
  then show "frames db (validateToken L E tok)"
    unfolding validateToken_def check_claims_def by (auto intro!: frames l split: option.splits)
qed

lemma catchable_fetchGoogleKeys [catchable]: "catchable (fetchGoogleKeys E)"
proof -
  have "catchable (of_sum (parse_key c))" for c
    by (rule catchable_of_sum)
      (auto simp: parse_key_def json_value_def split: sum.splits if_splits option.splits dest: get_string_catchable)
  then show ?thesis
    unfolding fetchGoogleKeys_def steady_def
    by (auto intro!: catchable split: option.splits json.splits)
qed

text \<open>
  What can stop the validation of a token besides an exception: the decoder of base64url writing past the end
  of its buffer.
\<close>

definition overruns :: "openssl \<Rightarrow> bool" where
  "overruns L \<longleftrightarrow> (\<exists>x. base64urlDecode L x = Inl Undefined)"

definition stops_token :: "openssl \<Rightarrow> exn \<Rightarrow> bool" where
  "stops_token L e \<longleftrightarrow> any_exn e \<or> e = Undefined \<and> overruns L"

lemma base64urlDecode_stops: "base64urlDecode L x = Inl e \<Longrightarrow> stops_token L e"
  using base64urlDecode_Inl[of L x e] by (auto simp: stops_token_def overruns_def)

lemma verifySignature_stops: "verifySignature L d g n e = Inl x \<Longrightarrow> stops_token L x"
  by (auto simp: verifySignature_def split: sum.splits dest: base64urlDecode_stops)

lemma catchable_lookup_key [catchable]: "catchable (lookup_key E k)"
  unfolding lookup_key_def needsRefresh_def steady_def by (intro catchable)

lemma catchable_check_claims [catchable]: "catchable (check_claims E payload)"
  unfolding check_claims_def system_clock_def
  by (intro catchable get_string_catchable get_int_catchable; assumption)

lemma emits_validateToken:
  assumes "A (EvHttp certs_req)" "A EvSteady" "A EvSystem"
  shows "emits A (validateToken L E tok)"
proof -
  have f: "emits A (fetchGoogleKeys E)"
    unfolding fetchGoogleKeys_def by (auto intro!: emits assms split: option.splits json.splits)
  have "emits A (parse_part L E t)" for t
    by (simp add: emits_def)
  then show ?thesis
    unfolding validateToken_def check_claims_def lookup_key_def needsRefresh_def by (intro emits f assms) (auto intro: assms)
qed

lemma validateToken_stops:
  assumes "validateToken L E tok s = (Inl e, t)"
  shows "stops_token L e"
proof -
  have any: "any_exn e \<Longrightarrow> stops_token L e" for e by (simp add: stops_token_def)
  have jval: "json_value get_string j k d = Inl e \<Longrightarrow> stops_token L e" for j k d e
    by (auto simp: json_value_def stops_token_def split: if_splits option.splits dest: get_string_catchable)
  have lookup: "lookup_key E k s = (Inl e, t) \<Longrightarrow> stops_token L e" for k s e and t :: "'a jwt_world_scheme"
    using catchable_lookup_key[of E k] any unfolding catchable_def by blast
  have claims: "check_claims E j s = (Inl e, t) \<Longrightarrow> stops_token L e" for j s e and t :: "'a jwt_world_scheme"
    using catchable_check_claims[of E j] any unfolding catchable_def by blast
  show ?thesis
    using assms
    by (auto simp: validateToken_def bnd_eq_Inl split: option.splits prod.splits sum.splits if_splits
        dest: base64urlDecode_stops verifySignature_stops jval lookup claims)
qed

lemma tame_ValidateIdToken [tame]: "tame (\<lambda>_. True) (stops_token L) (ValidateIdToken L E tok)"
  unfolding ValidateIdToken_def
  by (intro tame_bnd tame_ret tame_lift[OF emits_validateToken frames_db_jwt(3)] TrueI validateToken_stops; assumption)

lemma throws_only_error_message [throws_only]: "throws_only (error_message E body d)"
  by (auto simp: throws_only_def error_message_def json_value_def Let_def split: if_splits option.splits sum.splits
      dest: get_string_catchable)

lemma throws_only_value [throws_only]: "(\<And>v. throws_only (g v)) \<Longrightarrow> throws_only (json_value g j k d)"
  by (auto simp: throws_only_def json_value_def split: if_splits option.splits)

lemma tame_http [tame]: "A (EvHttp q) \<Longrightarrow> (\<And>e. any_exn e \<Longrightarrow> X e) \<Longrightarrow> tame A X (http E q)"
  by (rule tame_lift_catchable[OF emits_http frames_http catchable_http]) auto

lemma tame_raise [tame]: "X e \<Longrightarrow> tame A X (raise e)"
  by (simp add: tame_def)

lemma tame_case_sum [tame]:
  "(\<And>x. r = Inl x \<Longrightarrow> tame A X (f x)) \<Longrightarrow> (\<And>x. tame A X (g x)) \<Longrightarrow> tame A X (case r of Inl x \<Rightarrow> f x | Inr x \<Rightarrow> g x)"
  by (cases r) auto

lemma tame_oauth [tame]:
  assumes "\<And>e. any_exn e \<Longrightarrow> X e"
  shows "tame (\<lambda>_. True) X (ExchangeCodeForToken os m E code uri)" "tame (\<lambda>_. True) X (RefreshAccessToken os m E tok)"
  unfolding ExchangeCodeForToken_def RefreshAccessToken_def
  by (intro tame throws_only TrueI assms; (assumption | erule parse_catchable))+

section \<open>When a handler answers\<close>

text \<open>
  What \<^verbatim>\<open>CreatePost\<close> relies on: the root of a parsed document is an element the filter allows (libxml2
  makes it \<^verbatim>\<open>html\<close>), and the random source delivers 27 acceptable bytes within the fuel. Then \<open>may_stop\<close>: how a
  call can end without an answer.
\<close>

definition html_rooted :: "libxml \<Rightarrow> bool" where
  "html_rooted X \<longleftrightarrow> (\<forall>t root sibs. html_read X t = Doc root sibs \<longrightarrow> lower (node_tag root) \<in> set kAllowedTags)"

definition fair_source :: "env \<Rightarrow> nat \<Rightarrow> bool" where
  "fair_source E fuel \<longleftrightarrow> (\<forall>h. ID_LENGTH \<le> length (Crypt.accepted (rand_bytes E h fuel)))"

fun may_stop :: "openssl \<Rightarrow> libxml \<Rightarrow> env \<Rightarrow> nat \<Rightarrow> call \<Rightarrow> exn \<Rightarrow> bool" where
  "may_stop L X E fuel (CallLogin code uri) e \<longleftrightarrow> e = Undefined \<and> overruns L"
| "may_stop L X E fuel (CallCreatePost req) e \<longleftrightarrow>
     e = Undefined \<and> \<not> html_rooted X \<or> e = OutOfFuel \<and> \<not> fair_source E fuel"
| "may_stop L X E fuel c e \<longleftrightarrow> False"

lemma tame_SanitizeString: "(\<not> html_rooted X \<Longrightarrow> Y Undefined) \<Longrightarrow> tame A Y (of_sum (SanitizeString X t))"
  by (rule tame_of_sum) (auto simp: html_rooted_def SanitizeString_def Let_def split: html_result.splits if_splits)

lemma sec_id_loop_emits: "A EvRand \<Longrightarrow> emits A (sec_id_loop E fuel i)"
  by (induction fuel arbitrary: i) (auto intro!: emits)

lemma sec_id_loop_frames: "frames db (sec_id_loop E fuel i)"
  by (induction fuel arbitrary: i) (auto simp: random_byte_def intro!: frames)

lemma tame_generateSecId:
  assumes "A EvRand" "\<And>e. e = OutOfFuel \<Longrightarrow> X e"
  shows "tame A X (generateSecId E fuel)"
  unfolding generateSecId_def
proof (rule tame_lift[OF sec_id_loop_emits sec_id_loop_frames])
  fix s e and t :: "'a db_world_scheme"
  assume "sec_id_loop E fuel [] s = (Inl e, t)"
  then have "fst (sec_id_loop E fuel [] s) = Inl e" by simp
  then have "e = OutOfFuel" by (subst (asm) sec_id_loop_run) (auto simp: Let_def split: if_splits)
  then show "X e" by (rule assms(2))
qed (rule assms(1))

lemma tame_generateSecId_fair [tame]:
  assumes "A EvRand" "\<not> fair_source E fuel \<Longrightarrow> X OutOfFuel"
  shows "tame A X (generateSecId E fuel)"
  unfolding generateSecId_def
proof (rule tame_lift[OF sec_id_loop_emits sec_id_loop_frames])
  fix s e and t :: "'a db_world_scheme"
  assume "sec_id_loop E fuel [] s = (Inl e, t)"
  then have "fst (sec_id_loop E fuel [] s) = Inl e" by simp
  then show "X e" using assms(2) by (subst (asm) sec_id_loop_run) (auto simp: Let_def fair_source_def split: if_splits)
qed (rule assms(1))

lemma tame_GetUser [tame]: "tame A X (GetUser ctx)"
  unfolding GetUser_def by (rule tame_gets)

lemma tame_handler:
  assumes "tame (\<lambda>_. True) X m" "\<And>e. X e \<Longrightarrow> \<not> any_exn e \<Longrightarrow> Y e"
  shows "tame (\<lambda>_. True) Y (as_message f (guarded d m))"
  unfolding as_message_def guarded_def
  by (intro tame_bnd tame_case_prod tame_ret tame_try[OF assms(1)] assms(2))

lemmas handler_defs = CreatePost_def GetPost_def DeletePost_def ListFeed_def ListUserPosts_def GetUserById_def
  GetUserByHandle_def ToggleLike_def Login_def RefreshAccessToken_rpc_def

lemmas helper_defs = store_post_def remove_post_def delete_media_def list_posts_def fetch_user_def finish_login_def

lemma tame_handle_call: "tame (\<lambda>_. True) (may_stop L X E fuel c) (handle_call os m L X E fuel ctx c)"
proof (cases c)
  case (CallLogin code uri)
  show ?thesis
    unfolding CallLogin handle_call.simps handler_defs helper_defs
    by (intro tame_handler[where X = "stops_token L"] tame throws_only TrueI) (auto simp: stops_token_def)
next
  case (CallCreatePost req)
  show ?thesis
    unfolding CallCreatePost handle_call.simps handler_defs helper_defs
    by (intro tame_handler[where X = "\<lambda>e. any_exn e \<or> may_stop L X E fuel (CallCreatePost req) e"]
        tame_SanitizeString tame throws_only TrueI) auto
qed (simp_all only: handle_call.simps handler_defs helper_defs,
     (intro tame_handler[where X = any_exn] tame throws_only TrueI; (assumption | simp))+)

section \<open>Calls under the interceptors\<close>

lemma auth_at_send:
  "auth_Intercept L E method ctx None at_send valid st s =
     (Inr (valid, if valid then st else (UNAUTHENTICATED, ''Invalid or missing token'')), s)"
  by (simp add: auth_Intercept_def at_send_def bnd_def)

lemma limiter_at_send:
  "on_limiter (ratelimit_Intercept rs E method None at_send rejected st) s =
     (Inr (rejected, if rejected then (RESOURCE_EXHAUSTED, ''Rate limit exceeded. Try again later.'') else st), s)"
  by (simp add: on_limiter_def ratelimit_Intercept_def at_send_def bnd_def)

lemma serve_call_run:
  assumes lim: "on_limiter (ratelimit_Intercept server_routes E method (Some md) at_receive False status_ok) s = (Inr (rejected, st0), u)"
    and auth: "auth_Intercept L E method ctx (Some md) at_receive True status_ok u = (Inr (valid, st1), v)"
    and handler: "handler v = (Inr (st, r), t)"
  shows "serve_call L E method ctx md handler s =
    (Inr (if rejected then (RESOURCE_EXHAUSTED, ''Rate limit exceeded. Try again later.'')
          else if \<not> valid then (UNAUTHENTICATED, ''Invalid or missing token'') else st, r), t)"
  using assms by (simp add: serve_call_def bnd_def auth_at_send limiter_at_send)

text \<open>The decision of the limiter for a call, on the state of the server.\<close>

definition over_limit :: "env \<Rightarrow> string \<Rightarrow> metadata \<Rightarrow> 'z server_world_scheme \<Rightarrow> bool" where
  "over_limit E method md s \<longleftrightarrow>
     fst (allowRequest server_routes E method (getClientIp (Some md))
       \<lparr>trace = trace s, usage = rl_usage s, granted = rl_granted s\<rparr>) = Inr False"

lemma limiter_at_receive:
  assumes "over_limit E method md s"
  shows "\<exists>u. on_limiter (ratelimit_Intercept server_routes E method (Some md) at_receive False status_ok) s =
      (Inr (True, status_ok), u) \<and> users u = users s \<and> db u = db s"
proof -
  let ?l = "\<lparr>trace = trace s, usage = rl_usage s, granted = rl_granted s\<rparr>"
  obtain l where "allowRequest server_routes E method (getClientIp (Some md)) ?l = (Inr False, l)"
    using assms unfolding over_limit_def by (metis prod.collapse)
  then show ?thesis
    by (simp add: on_limiter_def ratelimit_Intercept_def at_receive_def bnd_def)
qed

lemma serve_call_cases:
  assumes "serve_call L E method ctx md handler s = (Inr (st', r), t)"
  shows "\<exists>v st valid. handler v = (Inr (st, r), t) \<and>
    (\<not> isPublicMethod method \<and> call_token md = [] \<longrightarrow> \<not> valid \<and> users v = users s) \<and>
    st' = (if over_limit E method md s then (RESOURCE_EXHAUSTED, ''Rate limit exceeded. Try again later.'')
           else if \<not> valid then (UNAUTHENTICATED, ''Invalid or missing token'') else st)"
proof -
  from assms obtain rejected st0 u valid st1 v st where
    lim: "on_limiter (ratelimit_Intercept server_routes E method (Some md) at_receive False status_ok) s = (Inr (rejected, st0), u)"
    and auth: "auth_Intercept L E method ctx (Some md) at_receive True status_ok u = (Inr (valid, st1), v)"
    and handler: "handler v = (Inr (st, r), t)"
    by (auto simp: serve_call_def bnd_eq_Inr auth_at_send limiter_at_send)
  have rej: "rejected = over_limit E method md s \<and> users u = users s"
    using lim by (auto simp: on_limiter_def ratelimit_Intercept_def at_receive_def bnd_def over_limit_def
        split: prod.splits sum.splits if_splits)
  have "\<not> valid \<and> users v = users u" if "\<not> isPublicMethod method" "call_token md = []"
    using auth that by (auto simp: auth_Intercept_def at_receive_def interceptor_validateToken_def bnd_def)
  with serve_call_run[where handler = handler, OF lim auth handler] handler rej assms show ?thesis
    by (intro exI[of _ v] exI[of _ st] exI[of _ valid]) auto
qed

section \<open>Removing posts\<close>

text \<open>The row \<^verbatim>\<open>DeletePost\<close> reads before it decides, and whether it names the user as author.\<close>

definition owner_query :: "string \<Rightarrow> string" where
  "owner_query pid = qb_limit 1 (qb_eq ''id'' pid (qb_select ''id,author_id,image_url'' (from_table ''posts'')))"

definition owner_rows :: "env \<Rightarrow> string \<Rightarrow> 'z server_world_scheme \<Rightarrow> json" where
  "owner_rows E pid s =
     parse_nothrow E (select_answer (net E (trace s) (select_req (db s) (owner_query pid))))"

definition owns :: "env \<Rightarrow> string \<Rightarrow> auth_user \<Rightarrow> 'z server_world_scheme \<Rightarrow> bool" where
  "owns E pid user s \<longleftrightarrow>
     nonempty_array (owner_rows E pid s) \<and>
     json_or get_string (hd (elements (owner_rows E pid s))) ''author_id'' [] = Inr (u_id user)"

lemma DeletePost_refused:
  assumes "anonymous s" "\<nexists>user. users s ctx = Some user \<and> pid \<noteq> [] \<and> owns E pid user s"
  shows "\<exists>st t. DeletePost E ctx pid s = (Inr (st, ()), t) \<and> fst st \<noteq> OK \<and>
    (t = s \<or> t = asked (select_req (db s) (owner_query pid)) s)"
proof (cases "users s ctx")
  case None
  then show ?thesis
    by (simp add: DeletePost_def guarded_def try_catch_def bnd_def GetUser_def refuse_def)
next
  case (Some user)
  show ?thesis
  proof (cases "pid = []")
    case True
    with Some show ?thesis
      by (simp add: DeletePost_def guarded_def try_catch_def bnd_def GetUser_def refuse_def)
  next
    case False
    with assms(2) Some have no: "\<not> owns E pid user s" by simp
    note run = DeletePost_def guarded_def try_catch_def bnd_def GetUser_def refuse_def execute_def do_select_run[OF assms(1)]
    show ?thesis
    proof (cases "json_or get_string (hd (elements (owner_rows E pid s))) ''author_id'' []")
      case (Inl e)
      have "any_exn e"
        using Inl throws_only_json_or[OF throws_only_get(1)] by (simp add: throws_only_def)
      with Inl False Some show ?thesis
        by (simp add: run owner_rows_def owner_query_def Let_def)
    next
      case (Inr a)
      with no False Some show ?thesis
        by (auto simp: run owns_def owner_rows_def owner_query_def Let_def)
    qed
  qed
qed

lemma DeletePost_owner:
  assumes "anonymous s" "users s ctx = Some user" "pid \<noteq> []" "owns E pid user s"
  shows "DeletePost E ctx pid s =
    guarded () (remove_post E pid (u_id user) (hd (elements (owner_rows E pid s)))) (asked (select_req (db s) (owner_query pid)) s)"
  using assms
  by (simp add: DeletePost_def guarded_def try_catch_def bnd_def GetUser_def execute_def do_select_run
      owns_def owner_rows_def owner_query_def Let_def)

text \<open>The two requests of a successful removal of a post without media.\<close>

definition owner_row :: json where
  "owner_row = JArr [JObj [(''author_id'', JStr ''u1'')]]"

definition delete_env :: env where
  "delete_env = silent_env\<lparr>net := (\<lambda>h q. Response \<lparr>rs_status = 200, rs_headers = [], rs_body = text_of owner_row\<rparr>)\<rparr>"

lemma parse_owner_row: "floats E = no_floats \<Longrightarrow> parse_nothrow E (text_of owner_row) = owner_row"
  by (subst parse_nothrow_def, subst json_parse_text_of) (simp_all add: owner_row_def sorted_keys_def)

definition fresh_server :: server_world where
  "fresh_server = cdn_world.extend started_cdn (server_world.fields default_config True (\<lambda>ip mth. []) [])"

definition some_user :: auth_user where
  "some_user = \<lparr>u_id = ''u1'', u_email = ''a@b'', u_name = ''A'', u_picture = []\<rparr>"

definition used_server :: server_world where
  "used_server = fresh_server\<lparr>users := [7 \<mapsto> some_user]\<rparr>"

lemma used_server_simps [simp]:
  "anonymous used_server" "users used_server = [7 \<mapsto> some_user]" "trace used_server = []" "\<not> connected used_server"
  "rl_usage used_server = (\<lambda>ip mth. [])" "rl_granted used_server = []"
  by (simp_all add: used_server_def fresh_server_def cdn_world.extend_def server_world.fields_def started_cdn_def
      auth_world.extend_def cdn_world.fields_def auth_start_def jwt_world.extend_def jwt_start_def new_client_def)

lemma delete_env_owns: "owns delete_env ''p1'' some_user used_server"
  by (simp add: owns_def owner_rows_def delete_env_def select_answer_def is_2xx_def parse_owner_row)
    (simp add: owner_row_def nonempty_array_def json_or_def some_user_def)

definition deleted :: "string \<Rightarrow> server_world" where
  "deleted pid = (let c = db used_server in
     asked (delete_req c (qb_eq ''id'' pid (from_table ''posts''))) (asked (select_req c (owner_query pid)) used_server))"

lemma cache_offline:
  assumes "\<not> connected s"
  shows "invalidate_post E i s = (Inr False, s)" "invalidate_feed E s = (Inr False, s)"
    "invalidate_user_posts E i s = (Inr False, s)"
  using assms
  by (simp_all add: invalidate_post_def invalidate_feed_def invalidate_user_posts_def del_def del_pattern_def
      if_connected_def is_connected_def bnd_def)

lemma delete_run: "DeletePost delete_env 7 ''p1'' used_server = (Inr (status_ok, ()), deleted ''p1'')"
proof -
  have rows: "elements (owner_rows delete_env ''p1'' used_server) = [JObj [(''author_id'', JStr ''u1'')]]"
    by (simp add: owner_rows_def delete_env_def select_answer_def is_2xx_def parse_owner_row) (simp add: owner_row_def)
  have net: "status_answer (net delete_env h q) = 200" for h q
    by (simp add: delete_env_def status_answer_def)
  have run: "DeletePost delete_env 7 ''p1'' used_server =
      guarded () (remove_post delete_env ''p1'' (u_id some_user) (hd (elements (owner_rows delete_env ''p1'' used_server))))
        (asked (select_req (db used_server) (owner_query ''p1'')) used_server)"
    by (rule DeletePost_owner[OF _ _ _ delete_env_owns]) simp_all
  show ?thesis
    unfolding run rows
    by (simp add: guarded_def try_catch_def remove_post_def bnd_def json_or_def
        delete_execute_def do_delete_run net delete_media_def cache_offline deleted_def Let_def)
qed

lemma remove_post_sends:
  fixes u :: "'z server_world_scheme"
  assumes u: "anonymous u"
  shows "\<exists>st t es. guarded () (remove_post E pid a row) u = (Inr (st, ()), t) \<and>
    (case json_or get_string row ''image_url'' [] of
       Inl e \<Rightarrow> fst st = INTERNAL \<and> trace t = trace u
     | Inr img \<Rightarrow> trace t = es @ EvHttp (delete_req (db u) (qb_eq ''id'' pid (from_table ''posts''))) # trace u)"
proof (cases "json_or get_string row ''image_url'' []")
  case (Inl e)
  then have "any_exn e"
    using throws_only_json_or[OF throws_only_get(1)] by (simp add: throws_only_def)
  with Inl show ?thesis by (simp add: guarded_def try_catch_def remove_post_def bnd_def)
next
  case (Inr img)
  define K :: "int \<Rightarrow> ('z server_world_scheme, grpc_status \<times> unit) act" where
    "K st = (if st < 200 \<or> st \<ge> 300 then refuse () INTERNAL ''Falha ao remover post''
       else bnd (delete_media E img) (\<lambda>_. bnd (invalidate_post E pid) (\<lambda>_. bnd (invalidate_feed E) (\<lambda>_.
         bnd (invalidate_user_posts E a) (\<lambda>_. ret (status_ok, ()))))))" for st
  let ?q = "delete_req (db u) (qb_eq ''id'' pid (from_table ''posts''))"
  have "tame (\<lambda>_. True) any_exn (K st)" for st
    unfolding K_def delete_media_def by (intro tame throws_only TrueI; assumption)
  moreover have "anonymous (asked ?q u)" using u by simp
  moreover have run: "guarded () (remove_post E pid a row) u =
      guarded () (K (status_answer (net E (trace u) ?q))) (asked ?q u)"
    using Inr u by (simp add: guarded_def try_catch_def remove_post_def bnd_def delete_execute_def do_delete_run K_def)
  ultimately obtain st t where t: "guarded () (K (status_answer (net E (trace u) ?q))) (asked ?q u) = (Inr (st, ()), t)"
    using returns_guarded by (metis (full_types) old.unit.exhaust)
  from tameE[OF tame_guarded[OF \<open>\<And>st. tame (\<lambda>_. True) any_exn (K st)\<close>] \<open>anonymous (asked ?q u)\<close> t]
  obtain es where "trace t = es @ EvHttp ?q # trace u" by auto
  with Inr run t show ?thesis by (intro exI[of _ st] exI[of _ t] exI[of _ es]) simp
qed

section \<open>Creating posts\<close>

definition post_row :: "string \<Rightarrow> auth_user \<Rightarrow> string \<Rightarrow> string \<Rightarrow> string \<Rightarrow> json" where
  "post_row idSec user ttl cnt img =
     mk_obj [(''id'', JStr idSec), (''author_id'', JStr (u_id user)), (''title'', JStr ttl), (''content'', JStr cnt),
       (''image_url'', JStr img)]"

text \<open>
  An event of a call that creates a post: what is sent to the table of posts is one row with a fresh identifier, the
  user as author and the cleaned fields.
\<close>

definition clean_event :: "env \<Rightarrow> auth_user \<Rightarrow> string \<Rightarrow> string \<Rightarrow> string \<Rightarrow> event \<Rightarrow> bool" where
  "clean_event E user ttl cnt img ev \<longleftrightarrow>
     (\<forall>q. ev = EvHttp q \<and> rq_path q = ''/rest/v1/posts'' \<longrightarrow>
        rq_verb q = POST \<and>
        (\<exists>idSec. length idSec = ID_LENGTH \<and> set idSec \<subseteq> set ALPHABET \<and> dump E (post_row idSec user ttl cnt img) = Inr (rq_body q)))"

lemma yields_of_sum: "yields (\<lambda>x. r = Inr x) (of_sum r)"
  by (simp add: yields_def)

lemma yields_generateSecId: "yields (\<lambda>i. length i = ID_LENGTH \<and> set i \<subseteq> set ALPHABET) (generateSecId E fuel)"
  unfolding yields_def
proof (intro allI impI)
  fix s :: "'a world_scheme" and i t
  assume "generateSecId E fuel s = (Inr i, t)"
  then have "fst (sec_id_loop E fuel [] s) = Inr i" by (simp add: generateSecId_def)
  then have "i = take ID_LENGTH (Crypt.accepted (rand_bytes E (trace s) fuel))"
    "ID_LENGTH \<le> length (Crypt.accepted (rand_bytes E (trace s) fuel))"
    using sec_id_loop_run[of "[]" E fuel s] by (simp_all add: Let_def split: if_splits)
  then show "length i = ID_LENGTH \<and> set i \<subseteq> set ALPHABET"
    using set_accepted set_take_subset by fastforce
qed

lemma tame_store_post: "tame (clean_event E user ttl cnt img) (\<lambda>e. True) (store_post E fuel user ttl cnt img)"
proof -
  let ?A = "clean_event E user ttl cnt img"
  have redis: "is_redis ev \<Longrightarrow> ?A ev" for ev by (cases ev) (simp_all add: clean_event_def)
  have rand: "?A EvRand" by (simp add: clean_event_def)
  have users: "?A (EvHttp (select_req c (''users?'' @ q)))" "?A (EvHttp (update_req c (''users?'' @ q) b))"
    "?A (EvHttp (insert_req c ''minimal'' ''users'' b False))" for c q b
    by (simp_all add: clean_event_def select_req_def update_req_def insert_req_def)
  have sel: "?A (EvHttp (select_req c (qb_limit 1 (qb_eq cl v (qb_select cs (from_table ''posts''))))))" for c cl v cs
    by (simp add: clean_event_def select_req_def qb_defs check_last_string_def from_table_def)
  have ins: "?A (EvHttp (insert_req c ''representation'' ''posts'' row False))"
    if "length i = ID_LENGTH \<and> set i \<subseteq> set ALPHABET" "dump E (post_row i user ttl cnt img) = Inr row" for c i row
    using that by (auto simp: clean_event_def insert_req_def)
  show ?thesis
    unfolding store_post_def post_row_def[symmetric]
    by (intro tame_bnd_yields[OF tame_generateSecId yields_generateSecId]
        tame_bnd_yields[OF tame_throws_only[OF throws_only_dump] yields_of_sum] tame throws_only users rand redis sel ins TrueI; assumption)
qed

section \<open>Properties\<close>

text \<open>
  With a database client that works with the anon key, whatever the other services do, each of the ten handlers
  ends with a status or in one of the ways \<open>may_stop\<close> lists for it, and leaves the client as it was in
  that respect.
\<close>

interpretation handlers: answering "\<lambda>(ctx, c). handle_call os m L X E fuel ctx c"
  "anonymous :: 'z server_world_scheme \<Rightarrow> bool" "\<lambda>(ctx, c). may_stop L X E fuel c" for os m L X E fuel
proof unfold_locales
  fix s t :: "'z server_world_scheme" and c r
  assume run: "anonymous s" "(case c of (ctx, c) \<Rightarrow> handle_call os m L X E fuel ctx c) s = (r, t)"
  obtain ctx k where c: "c = (ctx, k)" by fastforce
  from tameE[OF tame_handle_call run(1)] run(2)
  show "anonymous t \<and> (\<forall>e. r = Inl e \<longrightarrow> (case c of (ctx, c) \<Rightarrow> may_stop L X E fuel c) e)"
    unfolding c prod.case by metis
qed

lemma fair_silent: "fair_source silent_env 30"
proof -
  have "rand_bytes silent_env h n = replicate n 0" for h n
    by (induction n arbitrary: h) (auto simp: silent_env_def)
  then show ?thesis by (simp add: fair_source_def Crypt.accepted_def)
qed

lemma rooted_plain: "html_rooted plain_xml"
proof -
  have "lower ''html'' \<in> set kAllowedTags" by code_simp
  then show ?thesis by (simp add: html_rooted_def plain_xml_def)
qed

text \<open>
  C7. Only its author removes a post: a call of \<^verbatim>\<open>DeletePost\<close> whose context has no user, whose identifier is
  empty, or for which the row just read does not name the user as author, is refused with an error, has
  sent at most that one read and schedules no deletion of media. For the author the next thing sent is the deletion of exactly that post,
  unless the image address in the row is no string, which ends the call with \<open>INTERNAL\<close>.
\<close>
theorem DeletePost_authorised:
  assumes "anonymous s"
  shows "if (case users s ctx of Some user \<Rightarrow> pid \<noteq> [] \<and> owns E pid user s | None \<Rightarrow> False)
    then \<exists>st t es. DeletePost E ctx pid s = (Inr (st, ()), t) \<and>
      (case json_or get_string (hd (elements (owner_rows E pid s))) ''image_url'' [] of
         Inl e \<Rightarrow> fst st = INTERNAL \<and> trace t = EvHttp (select_req (db s) (owner_query pid)) # trace s
       | Inr img \<Rightarrow> trace t = es @ EvHttp (delete_req (db s) (qb_eq ''id'' pid (from_table ''posts''))) #
           EvHttp (select_req (db s) (owner_query pid)) # trace s)
    else \<exists>st t. DeletePost E ctx pid s = (Inr (st, ()), t) \<and> fst st \<noteq> OK \<and> s3_jobs t = s3_jobs s \<and>
      (trace t = trace s \<or> trace t = EvHttp (select_req (db s) (owner_query pid)) # trace s)"
proof (cases "\<exists>user. users s ctx = Some user \<and> pid \<noteq> [] \<and> owns E pid user s")
  case True
  then obtain user where u: "users s ctx = Some user" "pid \<noteq> []" "owns E pid user s" by blast
  have "anonymous (asked (select_req (db s) (owner_query pid)) s)" using assms by simp
  from remove_post_sends[OF this, of E pid "u_id user" "hd (elements (owner_rows E pid s))", unfolded asked_simps] u
  show ?thesis by (simp add: DeletePost_owner[OF assms u])
next
  case False
  from DeletePost_refused[OF assms False] obtain st t where "DeletePost E ctx pid s = (Inr (st, ()), t)" "fst st \<noteq> OK"
    "t = s \<or> t = asked (select_req (db s) (owner_query pid)) s" by blast
  with False show ?thesis by (auto simp: asked_def split: option.splits)
qed

theorem DeletePost_authorised_witness:
  "\<exists>st t. DeletePost delete_env 8 ''p1'' used_server = (Inr (st, ()), t) \<and> fst st \<noteq> OK \<and> s3_jobs t = s3_jobs used_server"
proof -
  have "anonymous used_server" by simp
  from DeletePost_authorised[OF this, where ctx = 8 and pid = "''p1''" and E = delete_env, simplified] show ?thesis by auto
qed

text \<open>
  C13. A refused call runs all the same. The interceptors only replace the status on the way out: every call that is
  answered has run its handler to the end, and its effects stay, also when the limit is exceeded or the
  token is missing. In the second case the handler sees the user an earlier call at the same context
  address had.
\<close>
theorem refused_call_still_runs:
  assumes "serve_call L E method ctx md handler s = (Inr (st', r), t)"
  shows "\<exists>v st. handler v = (Inr (st, r), t) \<and>
    (over_limit E method md s \<longrightarrow> st' = (RESOURCE_EXHAUSTED, ''Rate limit exceeded. Try again later.'')) \<and>
    (\<not> isPublicMethod method \<and> call_token md = [] \<longrightarrow>
       users v = users s \<and> (over_limit E method md s \<or> st' = (UNAUTHENTICATED, ''Invalid or missing token'')))"
proof -
  from serve_call_cases[OF assms] obtain v st valid where "handler v = (Inr (st, r), t)"
    "\<not> isPublicMethod method \<and> call_token md = [] \<longrightarrow> \<not> valid \<and> users v = users s"
    "st' = (if over_limit E method md s then (RESOURCE_EXHAUSTED, ''Rate limit exceeded. Try again later.'')
           else if \<not> valid then (UNAUTHENTICATED, ''Invalid or missing token'') else st)" by blast
  then show ?thesis by (intro exI[of _ v] exI[of _ st]) simp
qed

theorem refused_call_still_runs_witness:
  "\<exists>t r. serve_call model_openssl delete_env ''/social.PostService/DeletePost'' 7 [] (DeletePost delete_env 7 ''p1'') used_server =
      (Inr ((UNAUTHENTICATED, ''Invalid or missing token''), r), t) \<and>
    EvHttp (delete_req (db used_server) (qb_eq ''id'' ''p1'' (from_table ''posts''))) \<in> set (trace t)"
proof -
  let ?m = "''/social.PostService/DeletePost''"
  have pub: "\<not> isPublicMethod ?m" by code_simp
  have route: "findRoute server_routes ?m = None" by code_simp
  have lim: "on_limiter (ratelimit_Intercept server_routes delete_env ?m (Some []) at_receive False status_ok) used_server =
      (Inr (False, status_ok), used_server)"
    by (simp add: on_limiter_def ratelimit_Intercept_def allowRequest_def route bnd_def at_receive_def)
  have auth: "auth_Intercept model_openssl delete_env ?m 7 (Some []) at_receive True status_ok used_server =
      (Inr (False, status_ok), used_server)"
    using pub by (simp add: auth_Intercept_def interceptor_validateToken_def call_token_def bnd_def at_receive_def)
  have run: "serve_call model_openssl delete_env ?m 7 [] (DeletePost delete_env 7 ''p1'') used_server =
      (Inr ((UNAUTHENTICATED, ''Invalid or missing token''), ()), deleted ''p1'')"
    by (simp add: serve_call_run[where handler = "DeletePost delete_env 7 ''p1''", OF lim auth delete_run])
  from refused_call_still_runs[OF run] have "\<exists>v st. DeletePost delete_env 7 ''p1'' v = (Inr (st, ()), deleted ''p1'')" by blast
  with run show ?thesis by (simp add: deleted_def Let_def)
qed

definition post_in_bounds :: "create_post_request \<Rightarrow> bool" where
  "post_in_bounds req \<longleftrightarrow>
     cp_title req \<noteq> [] \<and> length (cp_title req) \<le> 256 \<and> cp_content req \<noteq> [] \<and> length (cp_content req) \<le> 5000"

lemma create_post_error_None: "create_post_error req = None \<longleftrightarrow> post_in_bounds req"
  by (simp add: create_post_error_def post_in_bounds_def MAX_TITLE_CHARS_def MAX_CONTENT_CHARS_def)

text \<open>
  C12. Creating a post: a call without a user or with a field out of bounds is refused with the stated status and does nothing at
  all; otherwise whatever is sent to the table of posts is a row with an identifier of 27 symbols of the
  alphabet, the user of the call as author, and the fields as the filters leave them, the image address
  within its bound.
\<close>
theorem CreatePost_correct:
  assumes "anonymous s" and "html_rooted X"
  shows "case users s ctx of
      None \<Rightarrow> CreatePost X E fuel ctx req s = (Inr ((UNAUTHENTICATED, ''Not authenticated''), empty_post), s)
    | Some user \<Rightarrow>
        if cp_title req = [] \<or> 256 < length (cp_title req) \<or> cp_content req = [] \<or> 5000 < length (cp_content req) \<or>
          2048 < length (SanitizeUrl (cp_image_url req))
        then \<exists>msg. CreatePost X E fuel ctx req s = (Inr ((INVALID_ARGUMENT, msg), empty_post), s)
        else \<exists>ttl cnt es. SanitizeString X (cp_title req) = Inr ttl \<and> SanitizeString X (cp_content req) = Inr cnt \<and>
          trace (snd (CreatePost X E fuel ctx req s)) = es @ trace s \<and>
          list_all (clean_event E user ttl cnt (SanitizeUrl (cp_image_url req))) es"
proof (cases "users s ctx")
  case None
  then show ?thesis by (simp add: CreatePost_def guarded_def try_catch_def bnd_def GetUser_def refuse_def)
next
  case user: (Some user)
  show ?thesis
  proof (cases "create_post_error req")
    case (Some msg)
    then have "\<not> post_in_bounds req" using create_post_error_None[of req] by simp
    moreover from Some user have "CreatePost X E fuel ctx req s = (Inr ((INVALID_ARGUMENT, msg), empty_post), s)"
      by (simp add: CreatePost_def guarded_def try_catch_def bnd_def GetUser_def refuse_def)
    ultimately show ?thesis using user by (auto simp: post_in_bounds_def not_le)
  next
    case None
    then have ok: "post_in_bounds req" by (simp add: create_post_error_None)
    have "\<exists>t. SanitizeString X i = Inr t" for i
      using assms(2) by (auto simp: SanitizeString_def html_rooted_def Let_def split: html_result.splits)
    then obtain ttl cnt where clean: "SanitizeString X (cp_title req) = Inr ttl" "SanitizeString X (cp_content req) = Inr cnt" by blast
    let ?img = "SanitizeUrl (cp_image_url req)"
    have run: "CreatePost X E fuel ctx req s =
        guarded empty_post
          (if ?img \<noteq> [] \<and> length ?img > MAX_IMAGE_CHARS
           then refuse empty_post INVALID_ARGUMENT ''Image URL exceeds maximum length of 2048 characters''
           else store_post E fuel user ttl cnt ?img) s"
      using user None clean by (simp add: CreatePost_def guarded_def try_catch_def bnd_def GetUser_def Let_def)
    show ?thesis
    proof (cases "length ?img > MAX_IMAGE_CHARS")
      case True
      then have "?img \<noteq> []" by auto
      with True user run show ?thesis by (simp add: guarded_def try_catch_def refuse_def MAX_IMAGE_CHARS_def)
    next
      case False
      obtain r t where rt: "guarded empty_post (store_post E fuel user ttl cnt ?img) s = (r, t)"
        by (cases "guarded empty_post (store_post E fuel user ttl cnt ?img) s")
      from tameE[OF tame_guarded[OF tame_store_post] assms(1) rt]
      obtain es where "trace t = es @ trace s" "list_all (clean_event E user ttl cnt ?img) es" .
      with False user ok run clean rt show ?thesis by (simp add: MAX_IMAGE_CHARS_def post_in_bounds_def)
    qed
  qed
qed

theorem CreatePost_correct_witness:
  "let req = \<lparr>cp_title = ''t'', cp_content = ''c'', cp_image_url = []\<rparr> in
   \<exists>ttl cnt es. SanitizeString plain_xml ''t'' = Inr ttl \<and> SanitizeString plain_xml ''c'' = Inr cnt \<and>
     trace (snd (CreatePost plain_xml silent_env 30 7 req used_server)) = es \<and>
     list_all (clean_event silent_env some_user ttl cnt []) es"
proof -
  have "SanitizeUrl [] = []" by code_simp
  with rooted_plain show ?thesis
    using CreatePost_correct[where s = used_server and X = plain_xml and ctx = 7 and E = silent_env and fuel = 30 and
      req = "\<lparr>cp_title = ''t'', cp_content = ''c'', cp_image_url = []\<rparr>"]
    by (simp add: Let_def)
qed

section \<open>Paging\<close>

lemma page_limit_pos: "1 \<le> uint (page_of p)" "1 \<le> uint (limit_of l)"
proof -
  have "0 < uint w" if "0 < w" for w :: u32 using that by (simp add: word_less_def)
  then show "1 \<le> uint (page_of p)" "1 \<le> uint (limit_of l)"
    by (fastforce simp: page_of_def limit_of_def)+
qed

lemma sint_of_int_u32: "sint (word_of_int x :: u32) = signed_take_bit 31 x"
  by (simp only: sint_sbintrunc') simp

lemma stb_small: "0 \<le> x \<Longrightarrow> x < 2 ^ 31 \<Longrightarrow> signed_take_bit 31 x = (x :: int)"
  by (rule signed_take_bit_int_eq_self) auto

lemma page_offset_eq: "page_offset page limit = signed_take_bit 31 ((uint page - 1) * uint limit)"
proof -
  have "(page - 1) * limit = word_of_int ((uint page - 1) * uint limit)" by simp
  then show ?thesis unfolding page_offset_def by (simp only: sint_of_int_u32)
qed

text \<open>
  C38. Paging: the page and the limit are at least one; the offset sent to the database is the exact
  \<open>(page - 1) * limit\<close> and the pages of one size follow each other without gap or overlap, as long as
  the product fits in 31 bits; in general it is that product reduced to 32 signed bits.
\<close>
theorem paging_correct:
  "let page = page_of p; limit = limit_of l; exact = (uint page - 1) * uint limit in
     1 \<le> uint page \<and> 1 \<le> uint limit \<and>
     - (2 ^ 31) \<le> page_offset page limit \<and> page_offset page limit < 2 ^ 31 \<and>
     page_offset page limit mod 2 ^ 32 = exact mod 2 ^ 32 \<and>
     (exact < 2 ^ 31 \<longrightarrow> page_offset page limit = exact) \<and>
     (exact + uint limit < 2 ^ 31 \<longrightarrow> page_offset (page + 1) limit = page_offset page limit + uint limit)"
proof -
  let ?p = "page_of p" and ?l = "limit_of l"
  let ?x = "(uint ?p - 1) * uint ?l"
  have pos: "1 \<le> uint ?p" "1 \<le> uint ?l" by (rule page_limit_pos)+
  then have nn: "0 \<le> ?x" by simp
  have off: "page_offset ?p ?l = signed_take_bit 31 ?x" by (rule page_offset_eq)
  have "(?p + 1 - 1) * ?l = word_of_int (uint ?p * uint ?l)" by simp
  moreover have "uint ?p * uint ?l = ?x + uint ?l" by (simp add: algebra_simps)
  ultimately have "page_offset (?p + 1) ?l = signed_take_bit 31 (?x + uint ?l)"
    unfolding page_offset_def by (simp only: sint_of_int_u32)
  then have next_page: "page_offset (?p + 1) ?l = page_offset ?p ?l + uint ?l" if "?x + uint ?l < 2 ^ 31"
    using that nn pos off stb_small[of ?x] stb_small[of "?x + uint ?l"] by linarith
  have "take_bit 32 (signed_take_bit 31 ?x) = take_bit 32 ?x" by (simp add: take_bit_signed_take_bit)
  then have "page_offset ?p ?l mod 2 ^ 32 = ?x mod 2 ^ 32" by (simp add: off take_bit_eq_mod)
  then show ?thesis
    using pos next_page nn signed_take_bit_int_greater_eq_minus_exp[of 31 ?x] signed_take_bit_int_less_exp[of 31 ?x]
      stb_small[of ?x]
    by (simp add: Let_def off)
qed

theorem paging_correct_witness:
  "page_offset 3 20 = 40 \<and> page_offset 2 20 = 20"
proof -
  have "page_of 2 = 2" "limit_of 0 = 20" by (simp_all add: page_of_def limit_of_def)
  with paging_correct[of 2 0] show ?thesis by (simp add: Let_def)
qed

section \<open>Cached lists\<close>

text \<open>
  What the cached lists rely on: Redis gives back what has just been stored successfully, and a row that was printed and read
  back gives the same post.
\<close>

definition redis_keeps :: "env \<Rightarrow> bool" where
  "redis_keeps E \<longleftrightarrow>
     (\<forall>h k ttl v. fst (redis_request E h (RSetex k ttl v)) = 0 \<longrightarrow>
        redis_request E (EvRedis (RSetex k ttl v) # h) (RGet k) = (0, Some (RespBulk (Some v))))"

lemma json_or_reread: "(\<And>v. g (reread v) = g v) \<Longrightarrow> json_or g (reread j) k d = json_or g j k d"
  by (simp add: json_or_def split: option.split)

lemma json_get_reread: "json_get (reread j) k = reread (json_get j k)"
  by (simp add: json_get_def split: option.split)

lemma ParsePost_reread: "ParsePost (reread row) = ParsePost row"
proof -
  have "read_user i (reread a) = read_user i a" for i a by (simp add: read_user_def json_or_reread)
  moreover have "hd (map reread (elements au)) = reread (hd (elements au))" if "is_array au \<and> \<not> json_empty au" for au
    using that by (auto simp: array_nonempty_iff)
  ultimately have "read_author (reread row) = read_author row"
    by (simp add: read_author_def json_get_reread json_or_reread Let_def)
  then show ?thesis by (simp add: ParsePost_def has_id_def json_get_reread json_or_reread)
qed

lemma mapA_map: "mapA f (map g xs) = mapA (\<lambda>x. f (g x)) xs"
  by (induction xs) simp_all

lemma parse_posts_reread: "parse_posts (reread j) = parse_posts j"
  by (simp add: parse_posts_def mapA_map ParsePost_reread)

lemma get_json_run:
  assumes "connected s"
  shows "\<exists>j. get_json E key s = (Inr j, s\<lparr>trace := EvRedis (RGet (c_str key)) # trace s\<rparr>)"
proof -
  obtain v where "cache_get E key s = (Inr v, s\<lparr>trace := EvRedis (RGet (c_str key)) # trace s\<rparr>)"
    using assms
    by (cases "redis_request E (trace s) (RGet (c_str key))") (simp add: cache_get_def cache_defs bnd_def)
  then show ?thesis
    by (auto simp: get_json_def bnd_def try_catch_def split: sum.splits dest: parse_catchable)
qed

lemma get_json_hit:
  assumes "connected s" "redis_request E (trace s) (RGet (c_str key)) = (0, Some (RespBulk (Some t)))"
    and "t \<noteq> []" "CHR 0x00 \<notin> set t" "json_parse E t = Inr j"
  shows "get_json E key s = (Inr j, s\<lparr>trace := EvRedis (RGet (c_str key)) # trace s\<rparr>)"
proof -
  have "c_str t = t" using assms(4) by (simp add: c_str_def takeWhile_eq_all_conv) metis
  then show ?thesis
    using assms by (simp add: get_json_def cache_get_def cache_defs bnd_def try_catch_def parse_json_def)
qed

lemma parse_posts_pure:
  assumes "parse_posts j s = (r, t)"
  shows "t = s" "parse_posts j s' = (r, s')"
proof -
  have "(\<exists>r. mapA (\<lambda>row. bnd (of_sum (ParsePost row)) (\<lambda>(_, post). ret post)) js s = (r, s) \<and>
      mapA (\<lambda>row. bnd (of_sum (ParsePost row)) (\<lambda>(_, post). ret post)) js s' = (r, s'))" for js
  proof (induction js)
    case (Cons row js)
    then show ?case by (cases "ParsePost row") (auto simp: bnd_def split: sum.splits)
  qed simp
  from this[of "elements j"] assms show "t = s" "parse_posts j s' = (r, s')"
    by (auto simp: parse_posts_def)
qed

lemma list_posts_stored:
  assumes an: "anonymous s" and co: "connected s" and fl: "floats_ok (floats E)"
    and run: "list_posts E key fn pj s = (Inr (st, posts), t)"
    and stored: "trace t = EvRedis (RSetex k ttl v) # h"
  shows "\<exists>arr. st = status_ok \<and> k = c_str key \<and> v \<noteq> [] \<and> CHR 0x00 \<notin> set v \<and> json_parse E v = Inr arr \<and> is_array arr \<and>
    parse_posts arr t = (Inr posts, t) \<and> connected t \<and> users t = users s"
proof -
  let ?u = "s\<lparr>trace := EvRedis (RGet (c_str key)) # trace s\<rparr>"
  obtain cached where gj: "get_json E key s = (Inr cached, ?u)" using get_json_run[OF co] by blast
  have na: "\<not> is_array cached"
  proof
    assume "is_array cached"
    with run gj have "t = ?u" by (auto simp: list_posts_def bnd_eq_Inr dest: parse_posts_pure(1))
    with stored show False by simp
  qed
  define params where "params = (case dump E pj of Inr p \<Rightarrow> p | Inl e \<Rightarrow> [])"
  let ?q = "rpc_req (db s) fn params"
  let ?w = "asked ?q ?u"
  let ?arr = "parse_nothrow E (rpc_answer (net E (trace ?u) ?q))"
  have "anonymous ?u" using an by simp
  note rpc = rpc_run[OF this, of E fn params, simplified]
  have arr: "is_array ?arr"
  proof (rule ccontr)
    assume "\<not> is_array ?arr"
    with run gj na rpc have "t = ?w"
      by (auto simp: list_posts_def bnd_eq_Inr params_def Let_def)
    with stored show False by simp
  qed
  with run gj na rpc obtain b x where pp: "parse_posts ?arr ?w = (Inr posts, x)"
    and sj: "set_json E key ?arr CACHE_TTL_FEED x = (Inr b, t)" and st: "st = status_ok"
    by (auto simp: list_posts_def bnd_eq_Inr params_def Let_def)
  have xw: "x = ?w" by (rule parse_posts_pure(1)[OF pp])
  from sj[unfolded xw] co obtain tx where d: "dump E ?arr = Inr tx"
    and t: "t = ?w\<lparr>trace := EvRedis (RSetex (c_str key) (to_string CACHE_TTL_FEED) (c_str tx)) # trace ?w\<rparr>"
    by (auto simp: set_json_def bnd_eq_Inr cache_set_run set_cmd_def CACHE_TTL_FEED_def asked_def Let_def)
  obtain src where src: "json_parse E src = Inr ?arr"
    using arr by (auto simp: parse_nothrow_def split: sum.splits)
  have jd: "json_dump E ?arr = Inr tx" using d by (cases "json_dump E ?arr") (auto simp: dump_def)
  have "printable (floats E) ?arr" using parse_text_printable[OF fl] src by (simp add: json_parse_def)
  from printed_reread[OF this] have good: "tx \<noteq> []" "CHR 0x00 \<notin> set tx" "json_parse E tx = Inr (reread ?arr)"
    using jd by (auto simp: json_parse_def json_dump_def)
  then have "c_str tx = tx" by (simp add: c_str_def takeWhile_eq_all_conv) metis
  then have "v = tx" "k = c_str key" using stored t by simp_all
  with good st arr parse_posts_pure(2)[OF pp, of t] t co show ?thesis
    by (intro exI[of _ "reread ?arr"]) (simp add: asked_def parse_posts_reread)
qed

lemma list_posts_cached:
  assumes co: "connected t" and hit: "redis_request E (trace t) (RGet (c_str key)) = (0, Some (RespBulk (Some v)))"
    and v: "v \<noteq> []" "CHR 0x00 \<notin> set v" "json_parse E v = Inr arr" "is_array arr" and p: "parse_posts arr t = (Inr posts, t)"
  shows "list_posts E key fn pj t = (Inr (status_ok, posts), t\<lparr>trace := EvRedis (RGet (c_str key)) # trace t\<rparr>)"
  using get_json_hit[OF co hit v(1,2,3)] v(4) parse_posts_pure(2)[OF p, of "t\<lparr>trace := EvRedis (RGet (c_str key)) # trace t\<rparr>"]
  by (simp add: list_posts_def bnd_def)

lemma ListFeed_user:
  "users s ctx = Some user \<Longrightarrow>
   ListFeed E ctx req s =
     (let page = page_of (lr_page req); limit = limit_of (lr_limit req) in
      guarded [] (list_posts E (feed_key (sint page) (sint limit)) ''get_feed''
        (mk_obj [(''p_user_id'', JStr (u_id user)), (''p_limit'', JInt (word_of_int (sint limit))),
                 (''p_offset'', JInt (word_of_int (page_offset page limit)))])) s)"
  by (simp add: ListFeed_def guarded_def try_catch_def bnd_def GetUser_def Let_def)

lemma guarded_OK: "guarded d m s = (Inr (status_ok, r), t) \<Longrightarrow> m s = (Inr (status_ok, r), t)"
  by (auto simp: guarded_def try_catch_def status_ok_def split: prod.splits sum.splits if_splits)

text \<open>
  C22. The cached feed stands for the database: when a call has just read a page from the database and stored it, a second
  call for the same page gives exactly the same posts without asking the database. It does so for
  \<^emph>\<open>every\<close> user, although the posts carry the first user's likes.
\<close>
theorem ListFeed_cached_equiv:
  assumes "anonymous s" and "connected s" and "redis_keeps E" and "floats_ok (floats E)" and "users s ctx = Some user"
    and "ListFeed E ctx req s = (Inr (status_ok, posts), t)"
    and "trace t = EvRedis (RSetex k ttl v) # h" and "fst (redis_request E h (RSetex k ttl v)) = 0"
    and "users s ctx' = Some user'"
  shows "\<exists>k'. ListFeed E ctx' req t = (Inr (status_ok, posts), t\<lparr>trace := EvRedis (RGet k') # trace t\<rparr>)"
proof -
  let ?key = "feed_key (sint (page_of (lr_page req))) (sint (limit_of (lr_limit req)))"
  have "\<exists>pj. ListFeed E ctx req s = guarded [] (list_posts E ?key ''get_feed'' pj) s"
    unfolding ListFeed_user[OF assms(5)] Let_def by (rule exI, rule refl)
  then obtain pj where "guarded [] (list_posts E ?key ''get_feed'' pj) s = (Inr (status_ok, posts), t)"
    using assms(6) by auto
  note run = guarded_OK[OF this]
  from list_posts_stored[OF assms(1,2,4) run assms(7)] obtain arr where
    arr: "k = c_str ?key" "v \<noteq> []" "CHR 0x00 \<notin> set v" "json_parse E v = Inr arr" "is_array arr"
      "parse_posts arr t = (Inr posts, t)" "connected t" "users t = users s" by blast
  have "redis_request E (trace t) (RGet (c_str ?key)) = (0, Some (RespBulk (Some v)))"
    using assms(3,7,8) arr(1) by (simp add: redis_keeps_def)
  from list_posts_cached[OF arr(7) this arr(2-6)]
  have "list_posts E ?key fn pj' t = (Inr (status_ok, posts), t\<lparr>trace := EvRedis (RGet (c_str ?key)) # trace t\<rparr>)" for fn pj' .
  moreover have "users t ctx' = Some user'" using arr(8) assms(9) by simp
  ultimately have "ListFeed E ctx' req t = (Inr (status_ok, posts), t\<lparr>trace := EvRedis (RGet (c_str ?key)) # trace t\<rparr>)"
    using ListFeed_user[of t ctx' user' E req] by (simp add: guarded_def try_catch_def Let_def)
  then show ?thesis by blast
qed

definition feed_env :: env where
  "feed_env = silent_env\<lparr>redis_request := memory_redis,
     net := (\<lambda>h q. Response \<lparr>rs_status = 200, rs_headers = [], rs_body = text_of (JArr [])\<rparr>)\<rparr>"

definition two_users :: server_world where
  "two_users = used_server\<lparr>connected := True, users := [7 \<mapsto> some_user, 8 \<mapsto> some_user\<lparr>u_id := ''u2''\<rparr>]\<rparr>"

definition first_page :: list_request where
  "first_page = \<lparr>lr_user_id = [], lr_page = 1, lr_limit = 20\<rparr>"

theorem ListFeed_cached_equiv_witness:
  "\<exists>t k'. ListFeed feed_env 7 first_page two_users = (Inr (status_ok, []), t) \<and>
     ListFeed feed_env 8 first_page t = (Inr (status_ok, []), t\<lparr>trace := EvRedis (RGet k') # trace t\<rparr>)"
proof -
  have u: "anonymous two_users" "connected two_users" "users two_users 7 = Some some_user"
    "users two_users 8 = Some (some_user\<lparr>u_id := ''u2''\<rparr>)" "trace two_users = []"
    by (simp_all add: two_users_def)
  let ?key = "feed_key (sint (page_of (lr_page first_page))) (sint (limit_of (lr_limit first_page)))"
  let ?u = "two_users\<lparr>trace := [EvRedis (RGet (c_str ?key))]\<rparr>"
  have keeps: "redis_keeps feed_env" by (simp add: redis_keeps_def feed_env_def memory_redis_def)
  have floats: "floats_ok (floats feed_env)" by (simp add: floats_ok_def no_floats_def feed_env_def)
  have miss: "get_json feed_env k two_users = (Inr JNull, two_users\<lparr>trace := [EvRedis (RGet (c_str k))]\<rparr>)" for k
    using u by (simp add: get_json_def cache_get_def cache_defs bnd_def feed_env_def memory_redis_def)
  have parse: "parse_nothrow feed_env (rpc_answer (net feed_env h q)) = JArr []" for h q
  proof -
    have "json_parse feed_env (text_of (JArr [])) = Inr (JArr [])" by (rule json_parse_text_of) (simp_all add: feed_env_def)
    then show ?thesis by (simp add: parse_nothrow_def feed_env_def rpc_answer_def is_2xx_def)
  qed
  obtain pj where feed: "ListFeed feed_env 7 first_page two_users = guarded [] (list_posts feed_env ?key ''get_feed'' pj) two_users"
    and "texts_utf8 pj"
    by (rule that[OF ListFeed_user[OF u(3), unfolded Let_def]]) (simp add: mk_obj_def some_user_def)
  then obtain pt where dump: "dump feed_env pj = Inr pt" using dump_ok by blast
  obtain q where rpc: "rpc feed_env ''get_feed'' pt ?u = (Inr (rpc_answer (net feed_env (trace ?u) q)), asked q ?u)"
    using rpc_run[of ?u feed_env "''get_feed''" pt] u by auto
  obtain ct where "dump feed_env (JArr []) = Inr ct" using dump_ok[of "JArr []"] by auto
  then have "\<exists>ttl v. list_posts feed_env ?key ''get_feed'' pj two_users =
      (Inr (status_ok, []), asked q ?u\<lparr>trace := EvRedis (RSetex (c_str ?key) ttl v) # trace (asked q ?u)\<rparr>)"
    using u by (simp add: list_posts_def bnd_def miss dump parse rpc parse_posts_def set_json_def cache_set_run set_cmd_def CACHE_TTL_FEED_def
        Let_def) blast
  then obtain ttl v where
    "list_posts feed_env ?key ''get_feed'' pj two_users =
      (Inr (status_ok, []), asked q ?u\<lparr>trace := EvRedis (RSetex (c_str ?key) ttl v) # trace (asked q ?u)\<rparr>)" by blast
  then have run: "ListFeed feed_env 7 first_page two_users =
      (Inr (status_ok, []), asked q ?u\<lparr>trace := EvRedis (RSetex (c_str ?key) ttl v) # trace (asked q ?u)\<rparr>)"
    unfolding feed guarded_def try_catch_def by simp
  obtain t where t: "ListFeed feed_env 7 first_page two_users = (Inr (status_ok, []), t)"
    "trace t = EvRedis (RSetex (c_str ?key) ttl v) # trace (asked q ?u)"
    using run by auto
  have "fst (redis_request feed_env h c) = 0" for h c by (simp add: feed_env_def memory_redis_def)
  from ListFeed_cached_equiv[OF u(1,2) keeps floats u(3) t this u(4)] t(1) show ?thesis by blast
qed

end
