(* ===== verification/Chain.thy ===== *)
theory Chain
  imports Service
begin

text \<open>
  Whole calls: what the interceptors of \<^verbatim>\<open>backend/src/middlewares\<close> and the handlers of
  \<^verbatim>\<open>backend/src/server/server.cpp\<close> guarantee together. No handler touches the state of the limiter, and the
  history only grows (\<open>quiet\<close>, with one introduction rule per combinator), so the limiter's bound
  carries over to the service; and the user a handler sees was put there by the interceptor of that
  call when the context's address is new.
\<close>

section \<open>Actions that leave the limiter alone\<close>

definition quiet :: "('z server_world_scheme, 'a) act \<Rightarrow> bool" where
  "quiet m \<longleftrightarrow>
     (\<forall>s. rl_usage (snd (m s)) = rl_usage s \<and> rl_granted (snd (m s)) = rl_granted s \<and>
        (\<exists>es. trace (snd (m s)) = es @ trace s))"

named_theorems quiet \<open>actions that leave the limiter alone\<close>

lemma quietD:
  assumes "quiet m" "m s = (r, t)"
  shows "rl_usage t = rl_usage s" "rl_granted t = rl_granted s" "\<exists>es. trace t = es @ trace s"
  using assms unfolding quiet_def by (metis snd_conv)+

lemma quiet_pure [quiet]: "quiet (ret x)" "quiet (raise e)" "quiet (of_sum r)" "quiet (gets g)"
  by (simp_all add: quiet_def)

lemma quiet_modify [quiet]:
  "(\<And>s. rl_usage (g s) = rl_usage s) \<Longrightarrow> (\<And>s. rl_granted (g s) = rl_granted s) \<Longrightarrow> (\<And>s. trace (g s) = trace s) \<Longrightarrow>
   quiet (modify g)"
  by (simp add: quiet_def)

lemma quiet_ask [quiet]: "quiet (ask g ev)"
  by (simp add: quiet_def)

lemma quiet_bnd [quiet]:
  assumes "quiet m" "\<And>x. quiet (f x)"
  shows "quiet (bnd m f)"
  unfolding quiet_def
proof
  fix s
  obtain r u where u: "m s = (r, u)" by fastforce
  note m = quietD[OF assms(1) u]
  show "rl_usage (snd (bnd m f s)) = rl_usage s \<and> rl_granted (snd (bnd m f s)) = rl_granted s \<and>
    (\<exists>es. trace (snd (bnd m f s)) = es @ trace s)"
  proof (cases r)
    case (Inr x)
    obtain r' t where t: "f x u = (r', t)" by fastforce
    from m quietD[OF assms(2) t] u t Inr show ?thesis by (auto simp: bnd_def)
  qed (use m u in \<open>simp add: bnd_def\<close>)
qed

lemma quiet_try_catch [quiet]:
  assumes "quiet m" "\<And>e. quiet (h e)"
  shows "quiet (try_catch m p h)"
  unfolding quiet_def
proof
  fix s
  obtain r u where u: "m s = (r, u)" by fastforce
  note m = quietD[OF assms(1) u]
  show "rl_usage (snd (try_catch m p h s)) = rl_usage s \<and> rl_granted (snd (try_catch m p h s)) = rl_granted s \<and>
    (\<exists>es. trace (snd (try_catch m p h s)) = es @ trace s)"
  proof (cases r)
    case (Inl e)
    obtain r' t where t: "h e u = (r', t)" by fastforce
    from m quietD[OF assms(2) t] u t Inl show ?thesis by (auto simp: try_catch_def)
  qed (use m u in \<open>simp add: try_catch_def\<close>)
qed

lemma quiet_mapA [quiet]: "(\<And>x. quiet (f x)) \<Longrightarrow> quiet (mapA f xs)"
  by (induction xs) (auto intro!: quiet)

lemma quiet_branch [quiet]:
  "quiet m \<Longrightarrow> quiet n \<Longrightarrow> quiet (if b then m else n)"
  "(\<And>x. quiet (f x)) \<Longrightarrow> quiet (let x = a in f x)"
  "quiet n \<Longrightarrow> (\<And>x. quiet (f x)) \<Longrightarrow> quiet (case c of None \<Rightarrow> n | Some x \<Rightarrow> f x)"
  "(\<And>x. quiet (l x)) \<Longrightarrow> (\<And>x. quiet (f x)) \<Longrightarrow> quiet (case d of Inl x \<Rightarrow> l x | Inr x \<Rightarrow> f x)"
  "(\<And>x y. quiet (g x y)) \<Longrightarrow> quiet (case p of (x, y) \<Rightarrow> g x y)"
  by (simp_all split: option.split sum.split prod.split)

lemma quiet_http [quiet]: "quiet (http E q)"
  by (simp add: quiet_def http_apply)

lemma quiet_world [quiet]: "quiet (steady E)" "quiet (system_clock E)" "quiet (random_byte E)" "quiet (redis E c)"
  by (simp_all add: quiet_def redis_def)

lemma quiet_guarded [quiet]: "quiet m \<Longrightarrow> quiet (guarded d m)" "quiet (refuse d c msg)"
  unfolding guarded_def refuse_def by (intro quiet; assumption)+

section \<open>The operations below the handlers\<close>

lemma quiet_refresh [quiet]: "quiet (refresh_if_expired E)"
  unfolding refresh_if_expired_def login_process_def accept_login_def current_time_ms_def
  by (auto intro!: quiet split: option.splits json.splits)

lemma quiet_db [quiet]:
  "quiet (execute E q)" "quiet (update_execute E b q)" "quiet (delete_execute E q)" "quiet (count_execute E q)"
  "quiet (rpc E fn b)" "quiet (client_insert E tb b u)" "quiet (insert_return E tb b u)"
  unfolding execute_def update_execute_def delete_execute_def count_execute_def do_select_def do_update_def do_delete_def
    do_count_def rpc_def client_insert_def insert_return_def auth_or_anon_def auth_else_anon_def auth_only_def token_header_def
  by (intro quiet; auto intro!: quiet split: json.split list.split)+

lemma quiet_cache [quiet]:
  "quiet (cache_set E k v ttl)" "quiet (cache_get E k)" "quiet (del E k)" "quiet (del_pattern E pt)"
  "quiet (set_json E k j ttl)" "quiet (get_json E k)" "quiet (cache_get_int E k d)"
  unfolding set_json_def get_json_def cache_get_int_def cache_set_def cache_get_def del_def del_pattern_def if_connected_def is_connected_def
  by (intro quiet)+

lemma quiet_invalidate [quiet]:
  "quiet (invalidate_post E i)" "quiet (invalidate_user E i)" "quiet (invalidate_feed E)" "quiet (invalidate_user_posts E i)"
  "quiet (invalidate_like E i j)" "quiet (invalidate_post_count E i)"
  unfolding invalidate_post_def invalidate_user_def invalidate_feed_def invalidate_user_posts_def invalidate_like_def
    invalidate_post_count_def
  by (intro quiet)+

lemma quiet_random [quiet]: "quiet (GenerateRandomHex E n)" "quiet (generateSecId E fuel)"
proof -
  show "quiet (GenerateRandomHex E n)" by (simp add: quiet_def GenerateRandomHex_run)
  have "quiet (sec_id_loop E fuel i)" for i
    by (induction fuel arbitrary: i) (auto intro!: quiet)
  then show "quiet (generateSecId E fuel)" unfolding generateSecId_def .
qed

lemma quiet_jwt [quiet]: "quiet (fetchGoogleKeys E)" "quiet (lookup_key E k)" "quiet (check_claims E j)" "quiet (validateToken L E tok)"
proof -
  show f: "quiet (fetchGoogleKeys E)"
    unfolding fetchGoogleKeys_def by (auto intro!: quiet split: option.splits json.splits)
  show l: "quiet (lookup_key E k)" for k
    unfolding lookup_key_def needsRefresh_def by (intro quiet f)
  show c: "quiet (check_claims E j)" for j
    unfolding check_claims_def by (intro quiet)
  have "quiet (parse_part L E x)" for x by (simp add: quiet_def)
  then show "quiet (validateToken L E tok)"
    unfolding validateToken_def by (intro quiet l c)
qed

lemma quiet_auth [quiet]:
  "quiet (GetUser ctx)" "quiet (SetUser ctx u)" "quiet (ValidateIdToken L E tok)" "quiet (ExchangeCodeForToken os m E code uri)"
  "quiet (RefreshAccessToken os m E tok)" "quiet (S3DeleteAsync b k)"
  unfolding GetUser_def SetUser_def ValidateIdToken_def ExchangeCodeForToken_def RefreshAccessToken_def S3DeleteAsync_def
    deleteObjectAsync_def
  by (intro quiet; simp?)+

lemma quiet_helpers [quiet]:
  "quiet (UpsertUser E u)" "quiet (CountUserPosts E i)" "quiet (parse_posts arr)"
  unfolding UpsertUser_def CountUserPosts_def parse_posts_def by (intro quiet)+

lemma quiet_handlers [quiet]:
  "quiet (CreatePost X E fuel ctx cp)" "quiet (GetPost E ctx i)" "quiet (DeletePost E ctx i)" "quiet (ListFeed E ctx lr)"
  "quiet (ListUserPosts E ctx lr)" "quiet (GetUserById E i)" "quiet (GetUserByHandle E i)" "quiet (ToggleLike E ctx i)"
  "quiet (Login os m L E code uri)" "quiet (RefreshAccessToken_rpc os m E tok)"
  unfolding handler_defs helper_defs by (intro quiet)+

lemma quiet_handle_call [quiet]: "quiet (handle_call os m L X E fuel ctx call)"
  by (cases call) (simp_all only: handle_call.simps as_message_def, (intro quiet)+)

section \<open>The limiter over a sequence of calls\<close>

definition limiter_of :: "'z server_world_scheme \<Rightarrow> rl_world" where
  "limiter_of s = \<lparr>trace = trace s, usage = rl_usage s, granted = rl_granted s\<rparr>"

lemma clock_later: "steady_monotone E \<Longrightarrow> clock E h \<le> clock E (es @ h)"
proof (induction es)
  case (Cons e es)
  then show ?case using clock_mono[of E "es @ h" e] by simp
qed simp

lemma rl_inv_quiet:
  assumes "steady_monotone E" "quiet a" "a s = (r, t)" "rl_inv routes E (limiter_of s)"
  shows "rl_inv routes E (limiter_of t)"
proof -
  note q = quietD[OF assms(2,3)]
  then obtain es where "trace t = es @ trace s" by blast
  then have "clock E (trace s) \<le> clock E (trace t)" using clock_later[OF assms(1)] by simp
  with assms(4) q(1,2) show ?thesis
    by (auto simp: rl_inv_def limiter_of_def intro: limiter.tracks_later)
qed

lemma server_routes_ok: "\<forall>r \<in> set server_routes. route_ok r"
  by (simp add: server_routes_def route_ok_def)

lemma rl_inv_receive:
  assumes "steady_monotone E" "rl_inv server_routes E (limiter_of s)"
    and "on_limiter (ratelimit_Intercept server_routes E method (Some md) at_receive False st) s = (r, t)"
  shows "rl_inv server_routes E (limiter_of t)"
proof -
  have "limiter_of t = snd (allowRequest server_routes E method (getClientIp (Some md)) (limiter_of s))"
    using assms(3)
    by (auto simp: on_limiter_def limiter_of_def ratelimit_Intercept_def at_receive_def bnd_def split: prod.splits sum.splits)
  then show ?thesis using rl_inv_allowRequest[OF assms(1,2) server_routes_ok] by simp
qed

text \<open>The part of a call before its handler, and the rest: where the state of an answer comes from.\<close>

definition arrival :: "openssl \<Rightarrow> env \<Rightarrow> string \<Rightarrow> context_ptr \<Rightarrow> metadata \<Rightarrow> ('z server_world_scheme, bool \<times> bool) act" where
  "arrival L E method ctx md =
     bnd (on_limiter (ratelimit_Intercept server_routes E method (Some md) at_receive False status_ok)) (\<lambda>(rejected, _).
     bnd (auth_Intercept L E method ctx (Some md) at_receive True status_ok) (\<lambda>(token_valid, _).
     ret (rejected, token_valid)))"

lemma serve_call_arrival:
  "serve_call L E method ctx md handler =
     bnd (arrival L E method ctx md) (\<lambda>(rejected, token_valid).
     bnd handler (\<lambda>(st, r).
     ret (if rejected then (RESOURCE_EXHAUSTED, ''Rate limit exceeded. Try again later.'')
          else if \<not> token_valid then (UNAUTHENTICATED, ''Invalid or missing token'') else st, r)))"
  by (rule ext)
    (auto simp: serve_call_def arrival_def bnd_def auth_at_send limiter_at_send split: prod.splits sum.splits)

lemma serve_call_end:
  assumes "serve_call L E method ctx md handler s = (r, t)"
  obtains e where "arrival L E method ctx md s = (Inl e, t)"
  | b v r' where "arrival L E method ctx md s = (Inr b, v)" "handler v = (r', t)"
  using assms unfolding serve_call_arrival
  by (auto simp: bnd_def split: prod.splits sum.splits)

lemma quiet_auth_Intercept [quiet]: "quiet (auth_Intercept L E method ctx md hk v st)"
  unfolding auth_Intercept_def interceptor_validateToken_def by (intro quiet)

lemma rl_inv_serve:
  assumes mono: "steady_monotone E" and inv: "rl_inv server_routes E (limiter_of s)"
    and run: "serve os m L X E fuel c s = (r, t)"
  shows "rl_inv server_routes E (limiter_of t)"
proof -
  obtain ctx md k where c: "c = (ctx, md, k)" by (cases c)
  have arr: "rl_inv server_routes E (limiter_of u)"
    if "arrival L E (method_of k) ctx md s = (r', u)" for r' u
  proof -
    obtain x v where v: "on_limiter (ratelimit_Intercept server_routes E (method_of k) (Some md) at_receive False status_ok) s = (x, v)"
      by fastforce
    note inv_v = rl_inv_receive[OF mono inv v]
    show ?thesis
    proof (cases x)
      case (Inr y)
      have "quiet (bnd (auth_Intercept L E (method_of k) ctx (Some md) at_receive True status_ok) (\<lambda>(token_valid, _). ret (fst y, token_valid)))"
        by (intro quiet)
      moreover have "bnd (auth_Intercept L E (method_of k) ctx (Some md) at_receive True status_ok) (\<lambda>(token_valid, _). ret (fst y, token_valid)) v = (r', u)"
        using that v Inr by (cases y) (simp add: arrival_def bnd_def)
      ultimately show ?thesis using rl_inv_quiet[OF mono _ _ inv_v] by blast
    qed (use that v inv_v in \<open>simp add: arrival_def bnd_def\<close>)
  qed
  from run have "serve_call L E (method_of k) ctx md (handle_call os m L X E fuel ctx k) s = (r, t)"
    by (simp add: serve_def c)
  then show ?thesis
    by (cases rule: serve_call_end) (auto dest: arr intro: rl_inv_quiet[OF mono quiet_handle_call])
qed

fun serve_all ::
  "os \<Rightarrow> environ \<Rightarrow> openssl \<Rightarrow> libxml \<Rightarrow> env \<Rightarrow> nat \<Rightarrow> (context_ptr \<times> metadata \<times> call) list
     \<Rightarrow> 'z server_world_scheme \<Rightarrow> 'z server_world_scheme" where
  "serve_all os m L X E fuel [] s = s"
| "serve_all os m L X E fuel (c # cs) s = serve_all os m L X E fuel cs (snd (serve os m L X E fuel c s))"

lemma rl_inv_serve_all:
  "steady_monotone E \<Longrightarrow> rl_inv server_routes E (limiter_of s) \<Longrightarrow>
   rl_inv server_routes E (limiter_of (serve_all os m L X E fuel cs s))"
  by (induction cs arbitrary: s) (auto intro: rl_inv_serve[OF _ _ prod.collapse[symmetric]])

lemma arrival_grants:
  assumes "arrival L E method ctx md s = (x, v)"
  shows "rl_granted v = granted (snd (allowRequest server_routes E method (getClientIp (Some md)) (limiter_of s)))"
    and "x = Inr (rejected, valid) \<Longrightarrow>
      rejected = (fst (allowRequest server_routes E method (getClientIp (Some md)) (limiter_of s)) = Inr False)"
proof -
  let ?a = "allowRequest server_routes E method (getClientIp (Some md)) (limiter_of s)"
  obtain y u where u: "on_limiter (ratelimit_Intercept server_routes E method (Some md) at_receive False status_ok) s = (y, u)"
    by fastforce
  have g: "rl_granted u = granted (snd ?a)" and y: "y = Inr (b, st) \<Longrightarrow> b = (fst ?a = Inr False)" for b st
    using u by (auto simp: on_limiter_def limiter_of_def ratelimit_Intercept_def at_receive_def bnd_def
        split: prod.splits sum.splits if_splits)
  obtain z w where w: "auth_Intercept L E method ctx (Some md) at_receive True status_ok u = (z, w)" by fastforce
  have "rl_granted w = rl_granted u" using quietD(2)[OF quiet_auth_Intercept w] .
  then show "rl_granted v = granted (snd ?a)"
    and "x = Inr (rejected, valid) \<Longrightarrow> rejected = (fst ?a = Inr False)"
    using assms u w g y by (auto simp: arrival_def bnd_def split: sum.splits)
qed

lemma serve_decides:
  assumes mono: "steady_monotone E" and inv: "rl_inv server_routes E (limiter_of s)"
    and r: "findRoute server_routes (method_of c) = Some r" and run: "serve os m L X E fuel (ctx, md, c) s = (Inr (st, msg), t)"
  shows "if int (length (in_window (window r) (clock E (trace s)) (grants (getClientIp (Some md)) (method_of c) (rl_granted s)))) < max_requests r
    then \<exists>T. rl_granted t = rl_granted s @ [(getClientIp (Some md), method_of c, T)]
    else st = (RESOURCE_EXHAUSTED, ''Rate limit exceeded. Try again later.'') \<and> rl_granted t = rl_granted s"
proof -
  let ?ip = "getClientIp (Some md)"
  from run obtain rejected valid v st0 where
    v: "arrival L E (method_of c) ctx md s = (Inr (rejected, valid), v)"
    and h: "handle_call os m L X E fuel ctx c v = (Inr (st0, msg), t)"
    and st: "rejected \<longrightarrow> st = (RESOURCE_EXHAUSTED, ''Rate limit exceeded. Try again later.'')"
    by (auto simp: serve_def serve_call_arrival bnd_eq_Inr split: if_splits)
  have "route_ok r" using r findRoute_mem server_routes_ok by blast
  note a = allowRequest_run[OF mono inv r this, of ?ip]
  have "rl_granted t = granted (snd (allowRequest server_routes E (method_of c) ?ip (limiter_of s)))"
    using quietD(2)[OF quiet_handle_call h] arrival_grants(1)[OF v] by simp
  moreover have "rejected = (fst (allowRequest server_routes E (method_of c) ?ip (limiter_of s)) = Inr False)"
    by (rule arrival_grants(2)[OF v refl])
  ultimately show ?thesis
    using st unfolding a by (auto simp: limiter_of_def admitted_def refused_def set_usage_def Let_def split: if_splits)
qed

section \<open>Who the handler works for\<close>

text \<open>On the way in nothing is deleted, and only a validated token gives a call its user.\<close>

definition no_delete :: "event \<Rightarrow> bool" where
  "no_delete ev \<longleftrightarrow> (\<forall>q. ev = EvHttp q \<longrightarrow> rq_verb q \<noteq> DELETE)"

lemma emits_auth_Intercept: "emits no_delete (auth_Intercept L E method ctx md hk v st)"
proof -
  have "emits no_delete (validateToken L E tok)" for tok
    by (rule emits_validateToken) (simp_all add: no_delete_def certs_req_def)
  moreover have "emits no_delete (SetUser c u)" for c u
    unfolding SetUser_def by (rule emits_modify) simp
  ultimately show ?thesis
    unfolding auth_Intercept_def interceptor_validateToken_def ValidateIdToken_def Let_def
    by (intro emits)
qed

lemma frames_cases:
  "frames f n \<Longrightarrow> (\<And>x. frames f (g x)) \<Longrightarrow> frames f (case c of None \<Rightarrow> n | Some x \<Rightarrow> g x)"
  "(\<And>x y. frames f (h x y)) \<Longrightarrow> frames f (case p of (x, y) \<Rightarrow> h x y)"
  by (simp_all split: option.split prod.split)

lemma frames_auth_Intercept: "frames db (auth_Intercept L E method ctx md hk v st)"
  unfolding auth_Intercept_def interceptor_validateToken_def ValidateIdToken_def SetUser_def Let_def
  by (intro frames frames_cases) simp

lemma emits_allowRequest: "A EvSteady \<Longrightarrow> emits A (allowRequest routes E mth ip)"
  unfolding allowRequest_def nowSeconds_def set_usage_def by (intro emits) simp_all

lemma on_limiter_receive:
  assumes "on_limiter (ratelimit_Intercept server_routes E method (Some md) at_receive False status_ok) s = (r, t)"
  shows "users t = users s" "db t = db s" "\<exists>es. trace t = es @ trace s \<and> list_all no_delete es"
proof -
  obtain y l where l: "allowRequest server_routes E method (getClientIp (Some md)) (limiter_of s) = (y, l)" by fastforce
  have t: "t = s\<lparr>trace := trace l, rl_usage := usage l, rl_granted := granted l\<rparr>"
    using assms l by (auto simp: on_limiter_def limiter_of_def ratelimit_Intercept_def at_receive_def bnd_def split: sum.splits)
  obtain es where "trace l = es @ trace (limiter_of s)" "list_all no_delete es"
    using emitsE[OF emits_allowRequest[of no_delete] l] by (auto simp: no_delete_def)
  then show "users t = users s" "db t = db s" "\<exists>es. trace t = es @ trace s \<and> list_all no_delete es"
    by (auto simp: t limiter_of_def)
qed

lemma arrival_user:
  assumes "arrival L E method ctx md s = (x, v)"
  shows "db v = db s" "\<exists>es. trace v = es @ trace s \<and> list_all no_delete es"
    and "\<not> isPublicMethod method \<Longrightarrow> x = Inr b \<Longrightarrow> \<exists>y u valid.
      on_limiter (ratelimit_Intercept server_routes E method (Some md) at_receive False status_ok) s = (Inr y, u) \<and>
      auth_Intercept L E method ctx (Some md) at_receive True status_ok u = (Inr (valid, status_ok), v) \<and>
      (if valid then \<exists>user h. users v = (users s)(ctx \<mapsto> user) \<and>
         token_ok L E (keys_cache v) (system_s E h) (call_token md) user \<and> trace v = EvSystem # h
       else users v = users s)"
proof -
  obtain y u where u: "on_limiter (ratelimit_Intercept server_routes E method (Some md) at_receive False status_ok) s = (y, u)"
    by fastforce
  note lim = on_limiter_receive[OF u]
  obtain z w where w: "auth_Intercept L E method ctx (Some md) at_receive True status_ok u = (z, w)" by fastforce
  note wdb = framesD[OF frames_auth_Intercept w]
  obtain es where wes: "trace w = es @ trace u" "list_all no_delete es" using emitsE[OF emits_auth_Intercept w] .
  have v: "v = u \<or> v = w" using assms u w by (auto simp: arrival_def bnd_def split: sum.splits prod.splits)
  show "db v = db s" using v lim(2) wdb by auto
  show "\<exists>es. trace v = es @ trace s \<and> list_all no_delete es" using v lim(3) wes by auto
  show "\<exists>y u valid.
      on_limiter (ratelimit_Intercept server_routes E method (Some md) at_receive False status_ok) s = (Inr y, u) \<and>
      auth_Intercept L E method ctx (Some md) at_receive True status_ok u = (Inr (valid, status_ok), v) \<and>
      (if valid then \<exists>user h. users v = (users s)(ctx \<mapsto> user) \<and>
         token_ok L E (keys_cache v) (system_s E h) (call_token md) user \<and> trace v = EvSystem # h
       else users v = users s)"
    if prot: "\<not> isPublicMethod method" and x: "x = Inr b"
  proof -
    have "\<exists>y'. y = Inr y'" "v = w" and z: "\<exists>valid st. z = Inr (valid, st)"
      using assms u w x by (auto simp: arrival_def bnd_def split: sum.splits prod.splits)
    then obtain y' where y: "y = Inr y'" and vw: "v = w" by blast
    from z obtain valid st where zv: "z = Inr (valid, st)" by blast
    have z: "z = Inr (valid, status_ok)" and "interceptor_validateToken L E method ctx md True u = (Inr valid, w)"
      using w unfolding zv by (simp_all add: auth_Intercept_def at_receive_def bnd_eq_Inr)
    from interceptor_valid[OF prot this(2)] lim(1)
    have r: "if valid then \<exists>user h. users v = (users s)(ctx \<mapsto> user) \<and>
         token_ok L E (keys_cache v) (system_s E h) (call_token md) user \<and> trace v = EvSystem # h
       else users v = users s" unfolding vw lim(1) by (cases valid) auto
    show ?thesis
      by (rule exI[of _ y'], rule exI[of _ u], rule exI[of _ valid], intro conjI u[unfolded y] w[unfolded z vw[symmetric]] r)
  qed
qed

lemma fresh_server_simps:
  "anonymous fresh_server" "users fresh_server = Map.empty" "keys_cache fresh_server = keys_cache jwt_start"
  "lastFetch fresh_server = 0" "trace fresh_server = []" "rl_usage fresh_server = (\<lambda>ip mth. [])" "rl_granted fresh_server = []"
  by (simp_all add: fresh_server_def cdn_world.extend_def server_world.fields_def started_cdn_def
      auth_world.extend_def cdn_world.fields_def auth_start_def jwt_world.extend_def jwt_start_def new_client_def)

section \<open>Properties\<close>

text \<open>
  C3. The limits of the service: over any sequence of calls of the ten methods by any clients, with a clock that
  does not go back, every window of a limited method holds at most its number of admitted calls per
  client; a further call in a full window is answered with \<^verbatim>\<open>RESOURCE_EXHAUSTED\<close>, one in a window with
  room is counted. In between, handlers and the authentication leave the limiter alone.
\<close>
theorem served_rate_limit:
  assumes "steady_monotone E" and "rl_usage s = (\<lambda>ip mth. [])" and "rl_granted s = []"
    and "findRoute server_routes (method_of c) = Some r" and "t = serve_all os m L X E fuel cs s"
  shows "int (length (in_window (window r) T (grants ip (method_of c) (rl_granted t)))) \<le> max_requests r \<and>
    (serve os m L X E fuel (ctx, md, c) t = (Inr (st, msg), u) \<longrightarrow>
      (if int (length (in_window (window r) (clock E (trace t)) (grants (getClientIp (Some md)) (method_of c) (rl_granted t)))) < max_requests r
       then \<exists>T'. rl_granted u = rl_granted t @ [(getClientIp (Some md), method_of c, T')]
       else st = (RESOURCE_EXHAUSTED, ''Rate limit exceeded. Try again later.'') \<and> rl_granted u = rl_granted t))"
proof -
  have "rl_inv server_routes E (limiter_of s)"
    using assms(2,3) server_routes_ok
    by (auto simp: rl_inv_def limiter_of_def grants_def limiter.tracks_def windows_ok_def in_window_def route_ok_def
        dest!: findRoute_mem)
  from rl_inv_serve_all[OF assms(1) this] have inv: "rl_inv server_routes E (limiter_of t)" by (simp add: assms(5))
  then have "int (length (in_window (window r) T (grants ip (method_of c) (rl_granted t)))) \<le> max_requests r"
    using assms(4) by (auto simp: rl_inv_def windows_ok_def limiter_of_def)
  with serve_decides[OF assms(1) inv assms(4)] show ?thesis by blast
qed

theorem served_rate_limit_witness:
  "\<forall>cs T. int (length (in_window 60 T (grants ''1.2.3.4'' ''/social.PostService/CreatePost''
     (rl_granted (serve_all Posix Map.empty model_openssl plain_xml silent_env 30 cs fresh_server))))) \<le> 5"
proof (intro allI)
  fix cs T
  let ?c = "CallCreatePost \<lparr>cp_title = ''t'', cp_content = ''c'', cp_image_url = []\<rparr>"
  have m: "method_of ?c = ''/social.PostService/CreatePost''" by simp
  have "findRoute server_routes ''/social.PostService/CreatePost'' =
      Some \<lparr>rt_method = ''/social.PostService/CreatePost'', max_requests = 5, window = 60\<rparr>" by code_simp
  then have r: "findRoute server_routes (method_of ?c) =
      Some \<lparr>rt_method = ''/social.PostService/CreatePost'', max_requests = 5, window = 60\<rparr>" by (simp only: m)
  from conjunct1[OF served_rate_limit[OF silent_monotone fresh_server_simps(6,7) r refl]]
  show "int (length (in_window 60 T (grants ''1.2.3.4'' ''/social.PostService/CreatePost''
     (rl_granted (serve_all Posix Map.empty model_openssl plain_xml silent_env 30 cs fresh_server))))) \<le> 5"
    unfolding m by simp
qed

text \<open>
  C6. From token to deletion: when the address of a call's context was not in use before, a served
  call of \<^verbatim>\<open>DeletePost\<close> sends a deletion to the database only if, for whatever OpenSSL, Google, the clocks and the
  database answer, the limiter and then the authentication of this very call ran to the state \<open>v\<close>: its token was valid
  under the keys held in \<open>v\<close> at the time the clock had just shown, the validated user was attached to the context, and the
  row read from \<open>v\<close>, the next thing asked, names that user as the author. The request after that is the
  deletion of exactly this post.
\<close>
theorem served_delete_authorised:
  fixes s :: "'z server_world_scheme"
  assumes "anonymous s" and "users s ctx = None"
    and "serve os m L X E fuel (ctx, md, CallDeletePost pid) s = (r, t)"
    and "trace t = es @ trace s" and "EvHttp q \<in> set es" and "rq_verb q = DELETE"
  shows "\<exists>y u v user h es'.
    on_limiter (ratelimit_Intercept server_routes E (method_of (CallDeletePost pid)) (Some md) at_receive False status_ok) s = (Inr y, u) \<and>
    auth_Intercept L E (method_of (CallDeletePost pid)) ctx (Some md) at_receive True status_ok u = (Inr (True, status_ok), v) \<and>
    trace v = EvSystem # h \<and> token_ok L E (keys_cache v) (system_s E h) (call_token md) user \<and>
    users v = (users s)(ctx \<mapsto> user) \<and> owns E pid user v \<and>
    trace t = es' @ EvHttp (delete_req (db v) (qb_eq ''id'' pid (from_table ''posts''))) #
      EvHttp (select_req (db v) (owner_query pid)) # trace v"
proof -
  let ?m = "method_of (CallDeletePost pid)"
  have prot: "\<not> isPublicMethod ?m" by code_simp
  have del: "\<not> (trace t = es' @ trace s \<and> list_all no_delete es')" for es'
    using assms(4-6) by (auto simp: list_all_iff no_delete_def)
  from assms(3) have "serve_call L E ?m ctx md (as_message (\<lambda>_. MEmpty) (DeletePost E ctx pid)) s = (r, t)"
    by (simp add: serve_def)
  then show ?thesis
  proof (cases rule: serve_call_end)
    case (1 e)
    with arrival_user(2)[OF 1] del show ?thesis by blast
  next
    case (2 b v r')
    from arrival_user(1,2)[OF 2(1)] assms(1) obtain es1 where
      v: "anonymous v" "trace v = es1 @ trace s" "list_all no_delete es1" by auto
    have quiet: False if "t = v \<or> trace t = trace (asked (select_req (db v) (owner_query pid)) v)"
      using del[of es1] del[of "EvHttp (select_req (db v) (owner_query pid)) # es1"] that v(2,3)
      by (auto simp: no_delete_def select_req_def)
    have run: "\<exists>x. DeletePost E ctx pid v = (x, t)"
      using 2(2) by (auto simp: as_message_def bnd_def split: prod.splits sum.splits)
    have "\<exists>user. users v ctx = Some user \<and> pid \<noteq> [] \<and> owns E pid user v"
    proof (rule ccontr)
      assume "\<nexists>user. users v ctx = Some user \<and> pid \<noteq> [] \<and> owns E pid user v"
      from DeletePost_refused[OF v(1) this] run quiet show False by auto
    qed
    then obtain user where user: "users v ctx = Some user" "pid \<noteq> []" "owns E pid user v" by blast
    have "anonymous (asked (select_req (db v) (owner_query pid)) v)" using v(1) by simp
    from remove_post_sends[OF this, of E pid "u_id user" "hd (elements (owner_rows E pid v))"] run quiet
    obtain es' where sent: "trace t = es' @ EvHttp (delete_req (db v) (qb_eq ''id'' pid (from_table ''posts''))) #
        EvHttp (select_req (db v) (owner_query pid)) # trace v"
      by (cases "json_or get_string (hd (elements (owner_rows E pid v))) ''image_url'' []")
        (auto simp: DeletePost_owner[OF v(1) user])
    from arrival_user(3)[OF 2(1) prot refl] user(1) assms(2) obtain y u h where
      "on_limiter (ratelimit_Intercept server_routes E ?m (Some md) at_receive False status_ok) s = (Inr y, u)"
      "auth_Intercept L E ?m ctx (Some md) at_receive True status_ok u = (Inr (True, status_ok), v)"
      "users v = (users s)(ctx \<mapsto> user)" "token_ok L E (keys_cache v) (system_s E h) (call_token md) user"
      "trace v = EvSystem # h"
      by (auto split: if_splits)
    with user(3) sent show ?thesis by blast
  qed
qed

text \<open>A service in which the token and the row belong to one user.\<close>

definition owner_env :: env where
  "owner_env = silent_env\<lparr>net := (\<lambda>h q. Response \<lparr>rs_status = 200, rs_headers = [], rs_body = text_of owner_row\<rparr>)\<rparr>"

definition owner_user :: auth_user where
  "owner_user = \<lparr>u_id = ''u1'', u_email = ''a@b'', u_name = [], u_picture = []\<rparr>"

definition owner_md :: metadata where
  "owner_md = [(''authorization'', ''Bearer '' @ jwt_token)]"

lemma call_token_owner: "call_token owner_md = jwt_token"
  by (simp add: call_token_def owner_md_def jwt_token_def)

lemma validateToken_owner:
  assumes "keys_cache s = keys_cache jwt_start" "lastFetch s = 0"
  shows "validateToken model_openssl owner_env jwt_token s = (Inr (Some owner_user), s\<lparr>trace := EvSystem # EvSteady # trace s\<rparr>)"
  using validateToken_sample[OF _ _ _ assms, of owner_env] by (simp add: owner_env_def owner_user_def)

lemma owner_arrives:
  "\<exists>v. arrival model_openssl owner_env (method_of (CallDeletePost ''p1'')) 7 owner_md fresh_server = (Inr (False, True), v) \<and>
     anonymous v \<and> users v = [7 \<mapsto> owner_user] \<and> trace v = [EvSystem, EvSteady] @ trace fresh_server"
proof -
  let ?m = "method_of (CallDeletePost ''p1'')"
  have pub: "\<not> isPublicMethod ?m" and route: "findRoute server_routes ?m = None" by code_simp+
  have lim: "on_limiter (ratelimit_Intercept server_routes owner_env ?m (Some owner_md) at_receive False status_ok) fresh_server =
      (Inr (False, status_ok), fresh_server)"
    by (simp add: on_limiter_def ratelimit_Intercept_def allowRequest_def route bnd_def at_receive_def del: method_of.simps)
  have tok: "jwt_token \<noteq> []" by (simp add: jwt_token_def)
  have "auth_Intercept model_openssl owner_env ?m 7 (Some owner_md) at_receive True status_ok fresh_server =
      (Inr (True, status_ok), fresh_server\<lparr>trace := [EvSystem, EvSteady], users := [7 \<mapsto> owner_user]\<rparr>)"
    using pub tok fresh_server_simps validateToken_owner[of fresh_server]
    by (simp add: auth_Intercept_def interceptor_validateToken_def ValidateIdToken_def call_token_owner SetUser_def bnd_def
        at_receive_def status_ok_def del: method_of.simps)
  with lim show ?thesis using fresh_server_simps
    by (simp add: arrival_def bnd_def del: method_of.simps)
qed

theorem served_delete_authorised_witness:
  "\<exists>(v :: server_world) user h. trace v = EvSystem # h \<and>
    token_ok model_openssl owner_env (keys_cache v) (system_s owner_env h) (call_token owner_md) user \<and>
    users v = [7 \<mapsto> user] \<and> owns owner_env ''p1'' user v"
proof -
  let ?q = "\<lambda>v. delete_req (db v) (qb_eq ''id'' ''p1'' (from_table ''posts''))"
  let ?es = "\<lambda>v es. es @ [EvHttp (?q v), EvHttp (select_req (db v) (owner_query ''p1'')), EvSystem, EvSteady]"
  obtain v where v: "arrival model_openssl owner_env (method_of (CallDeletePost ''p1'')) 7 owner_md fresh_server = (Inr (False, True), v)"
    "anonymous v" "users v 7 = Some owner_user" "trace v = [EvSystem, EvSteady] @ trace fresh_server"
    using owner_arrives by auto
  have own: "owns owner_env ''p1'' owner_user v"
    by (simp add: owns_def owner_rows_def owner_env_def select_answer_def is_2xx_def parse_owner_row)
      (simp add: owner_row_def nonempty_array_def json_or_def owner_user_def)
  have row: "json_or get_string (hd (elements (owner_rows owner_env ''p1'' v))) ''image_url'' [] = Inr []"
    by (simp add: owner_rows_def owner_env_def select_answer_def is_2xx_def parse_owner_row) (simp add: owner_row_def json_or_def)
  have "anonymous (asked (select_req (db v) (owner_query ''p1'')) v)" using v(2) by simp
  from remove_post_sends[OF this, of owner_env "''p1''" "u_id owner_user" "hd (elements (owner_rows owner_env ''p1'' v))"]
  obtain st t es where "DeletePost owner_env 7 ''p1'' v = (Inr (st, ()), t)"
    and t: "trace t = es @ EvHttp (?q v) # EvHttp (select_req (db v) (owner_query ''p1'')) # trace v"
    unfolding row by (auto simp: DeletePost_owner[OF v(2,3) _ own])
  then have run: "serve Posix Map.empty model_openssl plain_xml owner_env 30 (7, owner_md, CallDeletePost ''p1'') fresh_server =
      (Inr (st, MEmpty), t)"
    using v(1) by (simp add: serve_def serve_call_arrival bnd_def as_message_def del: method_of.simps)
  moreover have "trace t = ?es v es @ trace fresh_server"
    using t v(4) by simp
  moreover have "rq_verb (?q v) = DELETE" by (simp add: delete_req_def)
  moreover have "EvHttp (?q v) \<in> set (?es v es)" by simp
  moreover have "users fresh_server 7 = None" by (simp add: fresh_server_simps)
  ultimately have "\<exists>(v :: server_world) user h. trace v = EvSystem # h \<and>
      token_ok model_openssl owner_env (keys_cache v) (system_s owner_env h) (call_token owner_md) user \<and>
      users v = (users fresh_server)(7 \<mapsto> user) \<and> owns owner_env ''p1'' user v"
    using served_delete_authorised[OF fresh_server_simps(1) _ run] by blast
  then show ?thesis using fresh_server_simps(2) by auto
qed

end
