(* ===== verification/Lifecycle.thy ===== *)
theory Lifecycle
  imports Service
begin

text \<open>
  \<^verbatim>\<open>backend/src/main.cpp\<close>, \<^verbatim>\<open>backend/src/command/command.h\<close> and the class \<^verbatim>\<open>AppContext\<close> of \<^verbatim>\<open>backend/src/app.h\<close>: the
  console, the request for shutdown, and the three threads that start and stop the servers. The
  console is a function of the lines typed; the threads are a step relation over a record with
  their positions, whose steps run the actions of the components on the shared state.
\<close>

section \<open>The console\<close>

definition erase_front :: "string \<Rightarrow> string" where
  "erase_front s = (case find_first_not_of s ws_chars of Some i \<Rightarrow> drop i s | None \<Rightarrow> [])"

definition erase_back :: "string \<Rightarrow> string" where
  "erase_back s = (case find_last_not_of s ws_chars of Some i \<Rightarrow> take (i + 1) s | None \<Rightarrow> [])"

text \<open>What one line makes the reader do: leave its loop, run a command, complain, or nothing.\<close>

datatype console_act = Leave | Exit_command | Unknown string | Ignore

definition commands :: "(string \<times> console_act) list" where
  "commands = [(''exit'', Exit_command)]"

definition console_line :: "app_config \<Rightarrow> string \<Rightarrow> console_act" where
  "console_line cfg input =
     (let line = erase_back (erase_front input) in
      if line = [] then Leave
      else if serverPrefix cfg \<noteq> [] \<and> starts_with line (serverPrefix cfg)
      then (let command = lower (erase_front (drop (length (serverPrefix cfg)) line)) in
            case map_of commands command of Some act \<Rightarrow> act | None \<Rightarrow> Unknown line)
      else Ignore)"

section \<open>The application\<close>

definition AppContext :: "app_config \<Rightarrow> ('z db_world_scheme, unit) act" where
  "AppContext config =
     (if supabaseHost config \<noteq> [] \<and> supabaseKey config \<noteq> []
      then sb_begin (supabaseHost config) (supabaseKey config) else ret ())"

text \<open>The configuration \<^verbatim>\<open>main\<close> runs with: the file is loaded into the environment first.\<close>

definition main_config :: "os \<Rightarrow> string option \<Rightarrow> environ \<Rightarrow> app_config" where
  "main_config os file m = FromEnv os (fst (LoadEnv os file m))"

section \<open>The threads\<close>

text \<open>
  The reader of the console: at its loop with the lines still to come, between the two statements of
  \<^verbatim>\<open>RequestShutdown\<close>, or ended. The watcher: about to test the flag inside \<^verbatim>\<open>wait\<close>, having found it
  unset, asleep, then before each of its two calls, hanging in the first, or ended. The main
  thread: before each of its calls, waiting in \<^verbatim>\<open>server_->Wait()\<close>, joining the watcher, hanging in
  \<^verbatim>\<open>shutdown\<close>, returning, or dead because an exception met the joinable thread.
\<close>

datatype console_pc = C_Read "string list" | C_Notify "string list" | C_Done

datatype watcher_pc = W_Check | W_ToSleep | W_Asleep | W_Cdn | W_Server | W_Hangs | W_Done

datatype main_pc = M_Start | M_Init | M_Wait | M_Join | M_Stop | M_Hangs | M_Terminated | M_Exit

record life =
  app_state :: server_world
  shutting_down :: bool       \<comment> \<open>\<^verbatim>\<open>g_shuttingDown\<close>\<close>
  server_stopped :: bool      \<comment> \<open>\<^verbatim>\<open>Shutdown\<close> was called on \<^verbatim>\<open>server_\<close>\<close>
  console :: console_pc
  watcher :: watcher_pc
  main :: main_pc

definition life_start :: "string list \<Rightarrow> server_world \<Rightarrow> life" where
  "life_start input s =
     \<lparr>app_state = s, shutting_down = False, server_stopped = False, console = C_Read input, watcher = W_Check, main = M_Start\<rparr>"

text \<open>
  \<open>K\<close> collects what the run depends on: the services, what the constructor of the S3 context and
  \<^verbatim>\<open>sodium_init\<close> give, whether the gRPC server can be built, and the configuration.
\<close>

record setting =
  k_env :: env
  k_ctor :: "app_config \<Rightarrow> string option"
  k_sodium :: int
  k_built :: bool
  k_config :: app_config

inductive life_step :: "setting \<Rightarrow> life \<Rightarrow> life \<Rightarrow> bool" for K :: setting where
  read_eof: "console l = C_Read [] \<Longrightarrow> life_step K l (l\<lparr>console := C_Done\<rparr>)"
| read_leave: "console l = C_Read (x # xs) \<Longrightarrow> console_line default_config x = Leave \<Longrightarrow>
    life_step K l (l\<lparr>console := C_Done\<rparr>)"
| read_exit: "console l = C_Read (x # xs) \<Longrightarrow> console_line default_config x = Exit_command \<Longrightarrow>
    life_step K l (l\<lparr>console := C_Notify xs, shutting_down := True\<rparr>)"
| read_other: "console l = C_Read (x # xs) \<Longrightarrow> console_line default_config x \<notin> {Leave, Exit_command} \<Longrightarrow>
    life_step K l (l\<lparr>console := C_Read xs\<rparr>)"
| notify: "console l = C_Notify xs \<Longrightarrow>
    life_step K l (l\<lparr>console := C_Read xs, watcher := (if watcher l = W_Asleep then W_Check else watcher l)\<rparr>)"
| check: "watcher l = W_Check \<Longrightarrow>
    life_step K l (l\<lparr>watcher := (if shutting_down l then W_Cdn else W_ToSleep)\<rparr>)"
| sleep: "watcher l = W_ToSleep \<Longrightarrow> life_step K l (l\<lparr>watcher := W_Asleep\<rparr>)"
| spurious: "watcher l = W_Asleep \<Longrightarrow> life_step K l (l\<lparr>watcher := W_Check\<rparr>)"
| stop_cdn: "watcher l = W_Cdn \<Longrightarrow> cdn_shutdown (app_state l) = (r, s) \<Longrightarrow>
    life_step K l (l\<lparr>app_state := s, watcher := (if r = Inr () then W_Server else W_Hangs)\<rparr>)"
| stop_server: "watcher l = W_Server \<Longrightarrow> server_shutdown (app_state l) = (Inr b, s) \<Longrightarrow>
    life_step K l (l\<lparr>app_state := s, server_stopped := (server_stopped l \<or> b), watcher := W_Done\<rparr>)"
| start_cdn: "main l = M_Start \<Longrightarrow> cdn_start (k_env K) (k_ctor K) (k_config K) (app_state l) = (Inr b, s) \<Longrightarrow>
    life_step K l (l\<lparr>app_state := s\<lparr>g_cdn := b\<rparr>, main := M_Init\<rparr>)"
| init_ok: "main l = M_Init \<Longrightarrow>
    server_init (k_env K) (k_sodium K) (k_built K) (k_config K) (app_state l) = (Inr b, s) \<Longrightarrow>
    life_step K l (l\<lparr>app_state := s, main := (if b then M_Wait else M_Join)\<rparr>)"
| init_throws: "main l = M_Init \<Longrightarrow>
    server_init (k_env K) (k_sodium K) (k_built K) (k_config K) (app_state l) = (Inl e, s) \<Longrightarrow>
    life_step K l (l\<lparr>app_state := s, main := M_Terminated\<rparr>)"
| served: "main l = M_Wait \<Longrightarrow> server_stopped l \<Longrightarrow> life_step K l (l\<lparr>main := M_Join\<rparr>)"
| join_watcher: "main l = M_Join \<Longrightarrow> watcher l = W_Done \<Longrightarrow>
    life_step K l (l\<lparr>app_state := (app_state l)\<lparr>g_cdn := False\<rparr>, main := M_Stop\<rparr>)"
| final_stop: "main l = M_Stop \<Longrightarrow> cdn_shutdown (app_state l) = (r, s) \<Longrightarrow>
    life_step K l (l\<lparr>app_state := s, main := (if r = Inr () then M_Exit else M_Hangs)\<rparr>)"

inductive_cases life_stepE: "life_step K l l'"

abbreviation life_steps :: "setting \<Rightarrow> life \<Rightarrow> life \<Rightarrow> bool" where
  "life_steps K \<equiv> (life_step K)\<^sup>*\<^sup>*"

section \<open>What the console asks for\<close>

text \<open>Whether the reader ever asks for shutdown, given all the lines it will see.\<close>

fun requests :: "string list \<Rightarrow> bool" where
  "requests [] = False"
| "requests (x # xs) =
     (case console_line default_config x of Leave \<Rightarrow> False | Exit_command \<Rightarrow> True | _ \<Rightarrow> requests xs)"

lemma erase_front_dropWhile: "erase_front s = dropWhile (\<lambda>c. c \<in> set ws_chars) s"
proof (cases "find_first_not_of s ws_chars")
  case None
  then have "\<forall>c \<in> set s. c \<in> set ws_chars" by (auto simp: find_first_not_of_None)
  with None show ?thesis by (simp add: erase_front_def dropWhile_eq_Nil_conv[THEN iffD2])
qed (simp add: erase_front_def find_first_not_of_drop)

lemma erase_back_dropWhile: "erase_back s = rev (dropWhile (\<lambda>c. c \<in> set ws_chars) (rev s))"
proof (cases "find_last_not_of s ws_chars")
  case None
  then have "\<forall>c \<in> set (rev s). c \<in> set ws_chars" by (auto simp: find_last_not_of_None)
  with None show ?thesis by (simp add: erase_back_def dropWhile_eq_Nil_conv[THEN iffD2])
next
  case (Some i)
  from find_last_not_of_SomeD[OF this] dropWhile_rev_take[of i s ws_chars] Some
  show ?thesis by (simp add: erase_back_def)
qed

lemma line_strip: "erase_back (erase_front s) = strip_both ws_chars s"
  by (simp add: erase_front_dropWhile erase_back_dropWhile strip_both_def)

text \<open>A line under the default prefix, over the reference definition of trimming.\<close>

definition slash_command :: "string \<Rightarrow> console_act" where
  "slash_command line =
     (if line = [] then Leave
      else if hd line = CHR ''/''
      then (if lower (dropWhile (\<lambda>c. c \<in> set ws_chars) (tl line)) = ''exit'' then Exit_command else Unknown line)
      else Ignore)"

lemma console_line_slash: "console_line default_config x = slash_command (strip_both ws_chars x)"
proof -
  have "serverPrefix default_config = ''/''" by (simp add: default_config_def)
  then show ?thesis
    unfolding console_line_def line_strip Let_def slash_command_def commands_def
    by (cases "strip_both ws_chars x") (simp_all add: erase_front_dropWhile)
qed

lemma lower_exit_split:
  "lower (dropWhile (\<lambda>c. c \<in> set ws_chars) s) = ''exit'' \<longleftrightarrow>
   (\<exists>bl cmd. s = bl @ cmd \<and> set bl \<subseteq> set ws_chars \<and> lower cmd = ''exit'')"
proof
  let ?bl = "takeWhile (\<lambda>c. c \<in> set ws_chars) s" and ?cmd = "dropWhile (\<lambda>c. c \<in> set ws_chars) s"
  assume "lower ?cmd = ''exit''"
  moreover have "set ?bl \<subseteq> set ws_chars" by (auto dest: set_takeWhileD)
  ultimately show "\<exists>bl cmd. s = bl @ cmd \<and> set bl \<subseteq> set ws_chars \<and> lower cmd = ''exit''"
    by (intro exI[of _ ?bl] exI[of _ ?cmd] conjI) simp_all
next
  assume "\<exists>bl cmd. s = bl @ cmd \<and> set bl \<subseteq> set ws_chars \<and> lower cmd = ''exit''"
  then obtain bl cmd where s: "s = bl @ cmd" "set bl \<subseteq> set ws_chars" "lower cmd = ''exit''" by (elim exE conjE)
  obtain c cs where c: "cmd = c # cs" "tolower c = CHR ''e''" using s(3) by (cases cmd) auto
  have "CHR ''e'' \<notin> set ws_chars" by code_simp
  then have "c \<notin> set ws_chars" using c(2) tolower_ws by metis
  then have "dropWhile (\<lambda>c. c \<in> set ws_chars) s = cmd"
    unfolding s(1) c(1) using s(2) by (subst dropWhile_append2) auto
  with s(3) show "lower (dropWhile (\<lambda>c. c \<in> set ws_chars) s) = ''exit''" by simp
qed

section \<open>Lemmas\<close>

lemma cdn_shutdown_run:
  "cdn_shutdown s =
     (if \<not> cdn_running s then (Inr (), s)
      else (if s3_context s then Inl Blocks else Inr (),
            s\<lparr>cdn_running := False, cdn_thread := False, svr := False, s3_context := False\<rparr>))"
  by (simp add: cdn_shutdown_def bnd_def pool_destroy_def S3_POOL_THREADS_def)

lemma cdn_start_fails: "ctor config = Some e \<Longrightarrow> cdn_start E ctor config s = (Inr False, s\<lparr>cdn_config := config\<rparr>)"
  by (simp add: cdn_start_def bnd_def)

lemma cdn_start_succeeds:
  assumes "ctor config = None" "cdn_start E ctor config s = (Inr b, t)"
  shows "b \<and> cdn_running t \<and> s3_context t"
  using assms framesD[OF frames_EnsureBucket]
  by (fastforce simp: cdn_start_def bnd_def pool_destroy_def S3_POOL_THREADS_def
      split: option.splits if_splits prod.splits sum.splits)

lemma server_init_keeps_cdn:
  "server_init E sodium built config s = (r, t) \<Longrightarrow>
   cdn_running t = cdn_running s \<and> s3_context t = s3_context s \<and> cdn_thread t = cdn_thread s"
  by (auto simp: server_init_def cache_init_def bnd_def split: if_splits option.splits)

lemma server_init_total: "0 \<le> sodium \<Longrightarrow> \<exists>t. server_init E sodium built config s = (Inr built, t)"
  by (auto simp: server_init_def cache_init_def bnd_def split: option.splits)

lemma server_init_value:
  "server_init E sodium built config s = (Inr b, t) \<Longrightarrow> 0 \<le> sodium \<and> b = built \<and> grpc_server t = built"
  by (auto simp: server_init_def bnd_def split: if_splits prod.splits sum.splits)

text \<open>
  What holds at every moment. The flag is set only when the input asks for it; the watcher is past its wait only after
  that; the main thread is past the join only when the watcher has ended; and a media server that
  was started keeps running until some call of \<open>shutdown\<close> hangs on it.
\<close>

definition life_inv :: "setting \<Rightarrow> string list \<Rightarrow> life \<Rightarrow> bool" where
  "life_inv K input l \<longleftrightarrow>
     (shutting_down l \<longrightarrow> requests input) \<and>
     (case console l of C_Read xs \<Rightarrow> requests xs \<longrightarrow> requests input | C_Notify xs \<Rightarrow> requests input | C_Done \<Rightarrow> True) \<and>
     (watcher l \<in> {W_Cdn, W_Server, W_Hangs, W_Done} \<longrightarrow> shutting_down l) \<and>
     (main l \<in> {M_Stop, M_Hangs, M_Exit} \<longrightarrow> watcher l = W_Done) \<and>
     (main l \<in> {M_Wait, M_Join, M_Stop, M_Hangs, M_Exit} \<longrightarrow> 0 \<le> k_sodium K) \<and>
     (k_ctor K (k_config K) = None \<longrightarrow> main l \<noteq> M_Exit \<and>
        (main l \<noteq> M_Start \<longrightarrow>
           cdn_running (app_state l) \<and> s3_context (app_state l) \<or> watcher l = W_Hangs \<or> main l = M_Hangs))"

lemma life_invD:
  assumes "life_inv K input l"
  shows "shutting_down l \<Longrightarrow> requests input" "console l = C_Read xs \<Longrightarrow> requests xs \<Longrightarrow> requests input"
    "console l = C_Notify xs \<Longrightarrow> requests input"
    "watcher l \<in> {W_Cdn, W_Server, W_Hangs, W_Done} \<Longrightarrow> shutting_down l"
    "main l \<in> {M_Stop, M_Hangs, M_Exit} \<Longrightarrow> watcher l = W_Done"
    "main l \<in> {M_Wait, M_Join, M_Stop, M_Hangs, M_Exit} \<Longrightarrow> 0 \<le> k_sodium K"
    "k_ctor K (k_config K) = None \<Longrightarrow> main l \<noteq> M_Exit"
    "k_ctor K (k_config K) = None \<Longrightarrow> main l \<noteq> M_Start \<Longrightarrow>
      cdn_running (app_state l) \<and> s3_context (app_state l) \<or> watcher l = W_Hangs \<or> main l = M_Hangs"
  using assms unfolding life_inv_def by (auto split: console_pc.splits)

lemma life_inv_start: "life_inv K input (life_start input s)"
  by (simp add: life_inv_def life_start_def)

lemma life_inv_step:
  assumes "life_step K l l'" "life_inv K input l"
  shows "life_inv K input l'"
  using assms
proof (cases rule: life_step.cases)
  case (read_other x xs)
  then have "requests xs \<Longrightarrow> requests input"
    using life_invD(2)[OF assms(2), of "x # xs"] by (auto split: console_act.splits)
  with read_other assms(2) show ?thesis by (simp add: life_inv_def)
next
  case (read_exit x xs)
  then have "requests input"
    using life_invD(2)[OF assms(2), of "x # xs"] by simp
  with read_exit assms(2) show ?thesis by (simp add: life_inv_def)
next
  case (stop_cdn r s)
  then show ?thesis
    using assms(2) by (auto simp: life_inv_def cdn_shutdown_run split: if_splits)
next
  case (start_cdn b s)
  then have "k_ctor K (k_config K) = None \<Longrightarrow> cdn_running s \<and> s3_context s"
    using cdn_start_succeeds by blast
  with start_cdn assms(2) show ?thesis by (auto simp: life_inv_def)
next
  case (init_ok b s)
  then show ?thesis
    using assms(2) server_init_keeps_cdn[OF init_ok(3)] server_init_value[OF init_ok(3)]
    by (auto simp: life_inv_def)
next
  case (init_throws e s)
  then show ?thesis
    using assms(2) server_init_keeps_cdn[OF init_throws(3)] by (auto simp: life_inv_def)
next
  case (final_stop r s)
  then show ?thesis
    using assms(2) by (auto simp: life_inv_def cdn_shutdown_run split: if_splits)
qed (auto simp: life_inv_def server_shutdown_def split: if_splits)

lemma life_inv_reachable: "life_steps K (life_start input s) l \<Longrightarrow> life_inv K input l"
  by (induction rule: rtranclp_induct) (auto intro: life_inv_start life_inv_step)

lemma stepI: "life_step K l l'' \<Longrightarrow> l'' = l' \<Longrightarrow> life_step K l l'"
  by simp

text \<open>The reader reaches the command on its own.\<close>

lemma console_reaches_exit:
  "requests xs \<Longrightarrow> \<exists>ys. life_steps K (l\<lparr>console := C_Read xs\<rparr>) (l\<lparr>console := C_Notify ys, shutting_down := True\<rparr>)"
proof (induction xs)
  case (Cons x xs)
  show ?case
  proof (cases "console_line default_config x = Exit_command")
    case True
    then have "life_step K (l\<lparr>console := C_Read (x # xs)\<rparr>) (l\<lparr>console := C_Notify xs, shutting_down := True\<rparr>)"
      by (intro stepI[OF read_exit[where x = x and xs = xs]]) auto
    then show ?thesis by blast
  next
    case False
    with Cons have "life_step K (l\<lparr>console := C_Read (x # xs)\<rparr>) (l\<lparr>console := C_Read xs\<rparr>)" "requests xs"
      by (auto intro!: stepI[OF read_other[where x = x and xs = xs]] split: console_act.splits)
    with Cons.IH show ?thesis by (meson converse_rtranclp_into_rtranclp)
  qed
qed simp

text \<open>Without a media server the flag, once set, lets the watcher and then the main thread end.\<close>

lemma shutdown_completes:
  assumes "watcher l = W_Check" "shutting_down l" "\<not> cdn_running (app_state l)" "grpc_server (app_state l) = b"
    and "main l = (if b then M_Wait else M_Join)"
  shows "\<exists>l'. life_steps K l l' \<and> main l' = M_Exit"
proof -
  let ?l1 = "l\<lparr>watcher := W_Cdn\<rparr>"
  let ?l2 = "l\<lparr>watcher := W_Server\<rparr>"
  let ?l3 = "l\<lparr>server_stopped := (server_stopped l \<or> b), watcher := W_Done\<rparr>"
  let ?l4 = "?l3\<lparr>main := M_Join\<rparr>"
  let ?l5 = "?l4\<lparr>app_state := (app_state l)\<lparr>g_cdn := False\<rparr>, main := M_Stop\<rparr>"
  let ?l6 = "?l5\<lparr>main := M_Exit\<rparr>"
  have "life_step K l ?l1" using assms by (intro stepI[OF check]) simp_all
  moreover have "life_step K ?l1 ?l2"
    using assms by (intro stepI[OF stop_cdn[where r = "Inr ()" and s = "app_state l"]]) (simp_all add: cdn_shutdown_run)
  moreover have "life_step K ?l2 ?l3"
    using assms by (intro stepI[OF stop_server[where b = b and s = "app_state l"]]) (simp_all add: server_shutdown_def)
  moreover have "life_steps K ?l3 ?l4"
  proof (cases b)
    case True
    with assms have "life_step K ?l3 ?l4" by (intro stepI[OF served]) simp_all
    then show ?thesis by blast
  next
    case False
    with assms have "?l4 = ?l3" by simp
    then show ?thesis by simp
  qed
  moreover have "life_step K ?l4 ?l5" by (intro stepI[OF join_watcher]) simp_all
  moreover have "life_step K ?l5 ?l6"
    using assms by (intro stepI[OF final_stop[where r = "Inr ()" and s = "(app_state l)\<lparr>g_cdn := False\<rparr>"]]) (simp_all add: cdn_shutdown_run)
  ultimately have "life_steps K l ?l6" by (meson rtranclp.rtrancl_into_rtrancl converse_rtranclp_into_rtranclp rtranclp_trans)
  then show ?thesis by (intro exI[of _ ?l6]) simp
qed

text \<open>A watcher that sleeps while nobody is left to notify it.\<close>

definition sleeps_on :: "life \<Rightarrow> bool" where
  "sleeps_on l \<longleftrightarrow> watcher l = W_Asleep \<and> console l = C_Done"

lemma sleeps_on_step: "life_step K l l' \<Longrightarrow> sleeps_on l \<Longrightarrow> sleeps_on l' \<or> l' = l\<lparr>watcher := W_Check\<rparr>"
  by (cases rule: life_step.cases) (auto simp: sleeps_on_def)

lemma sleeps_on_run:
  assumes "sleeps_on l" "life_steps K l l'"
  shows "sleeps_on l' \<or> (\<exists>m. life_steps K l m \<and> sleeps_on m \<and> life_steps K (m\<lparr>watcher := W_Check\<rparr>) l')"
  using assms(2)
proof (induction rule: rtranclp_induct)
  case (step y z)
  from step.IH show ?case
  proof
    assume "sleeps_on y"
    with sleeps_on_step[OF step.hyps(2)] step.hyps(1) show ?thesis by blast
  qed (meson step.hyps(2) rtranclp.rtrancl_into_rtrancl)
qed (simp add: assms(1))

section \<open>Properties\<close>

text \<open>
  C14. When the program can end. From a fresh state some run of the threads reaches the end of
  \<^verbatim>\<open>main\<close> if and only if the media server could \<^emph>\<open>not\<close> be started, libsodium could be initialised, and
  the console asks for shutdown. With a running media server no request ever ends the program.
\<close>
theorem exit_reachable_iff:
  assumes "\<not> cdn_running s" and "\<not> s3_context s" and "\<not> cdn_thread s"
  shows "(\<exists>l. life_steps K (life_start input s) l \<and> main l = M_Exit) \<longleftrightarrow>
    k_ctor K (k_config K) \<noteq> None \<and> 0 \<le> k_sodium K \<and> requests input"
proof
  assume "\<exists>l. life_steps K (life_start input s) l \<and> main l = M_Exit"
  then obtain l where l: "life_steps K (life_start input s) l" "main l = M_Exit" by blast
  note inv = life_invD[OF life_inv_reachable[OF l(1)]]
  show "k_ctor K (k_config K) \<noteq> None \<and> 0 \<le> k_sodium K \<and> requests input"
    using inv(1,4,5,6,7) l(2) by auto
next
  assume K: "k_ctor K (k_config K) \<noteq> None \<and> 0 \<le> k_sodium K \<and> requests input"
  then obtain e where e: "k_ctor K (k_config K) = Some e" by blast
  let ?s1 = "s\<lparr>cdn_config := k_config K\<rparr>"
  let ?l1 = "(life_start input s)\<lparr>app_state := ?s1\<lparr>g_cdn := False\<rparr>, main := M_Init\<rparr>"
  have step1: "life_step K (life_start input s) ?l1"
    by (intro stepI[OF start_cdn[where b = False and s = ?s1]]) (simp_all add: life_start_def cdn_start_fails[of "k_ctor K", OF e])
  obtain s2 where s2: "server_init (k_env K) (k_sodium K) (k_built K) (k_config K) (app_state ?l1) = (Inr (k_built K), s2)"
    using K server_init_total by blast
  let ?l2 = "?l1\<lparr>app_state := s2, main := (if k_built K then M_Wait else M_Join)\<rparr>"
  have step2: "life_step K ?l1 ?l2" by (intro stepI[OF init_ok[OF _ s2]]) simp_all
  have "?l2\<lparr>console := C_Read input\<rparr> = ?l2" by (simp add: life_start_def)
  with console_reaches_exit[of input K ?l2] K obtain ys where
    step3: "life_steps K ?l2 (?l2\<lparr>console := C_Notify ys, shutting_down := True\<rparr>)" by auto
  have "\<not> cdn_running s2" using server_init_keeps_cdn[OF s2] assms(1) by simp
  moreover have "grpc_server s2 = k_built K" using server_init_value[OF s2] by simp
  ultimately have "\<exists>l'. life_steps K (?l2\<lparr>console := C_Notify ys, shutting_down := True\<rparr>) l' \<and> main l' = M_Exit"
    by (intro shutdown_completes[where b = "k_built K"]) (simp_all add: life_start_def)
  with step1 step2 step3 show "\<exists>l. life_steps K (life_start input s) l \<and> main l = M_Exit"
    by (meson converse_rtranclp_into_rtranclp rtranclp_trans)
qed

definition idle_server :: server_world where
  "idle_server = fresh_server\<lparr>svr := False, s3_context := False, cdn_thread := False, cdn_running := False, g_cdn := False\<rparr>"

definition no_cdn :: setting where
  "no_cdn = \<lparr>k_env = silent_env, k_ctor = (\<lambda>c. Some ''bad url''), k_sodium = 0, k_built = True, k_config = default_config\<rparr>"

lemma slash_exit: "requests [''hello'', '' / EXIT '']"
proof -
  have "slash_command (strip_both ws_chars ''hello'') = Ignore" "slash_command (strip_both ws_chars '' / EXIT '') = Exit_command"
    by code_simp+
  then show ?thesis by (simp add: console_line_slash)
qed

theorem exit_reachable_iff_witness:
  "(\<exists>l. life_steps no_cdn (life_start [''hello'', '' / EXIT ''] idle_server) l \<and> main l = M_Exit) \<and>
   \<not> (\<exists>l. life_steps (no_cdn\<lparr>k_ctor := (\<lambda>c. None)\<rparr>) (life_start [''hello'', '' / EXIT ''] idle_server) l \<and> main l = M_Exit)"
proof -
  have "\<not> cdn_running idle_server" "\<not> s3_context idle_server" "\<not> cdn_thread idle_server"
    by (simp_all add: idle_server_def)
  note e = exit_reachable_iff[OF this, where input = "[''hello'', '' / EXIT '']"]
  show ?thesis unfolding e using slash_exit by (simp add: no_cdn_def)
qed

text \<open>
  C39. A request for shutdown can be lost: \<^verbatim>\<open>RequestShutdown\<close> sets the flag and notifies without
  holding the mutex, so it can run between the watcher's test of the flag and its going to sleep.
  Then the flag is set, the reader has ended, and the watcher sleeps; in every run from there it
  sleeps on, up to a spurious wake-up if there is one.
\<close>
theorem shutdown_wakeup_lost:
  "\<exists>l. life_steps K (life_start [''/exit''] s) l \<and> shutting_down l \<and> watcher l = W_Asleep \<and> console l = C_Done \<and>
     (\<forall>l'. life_steps K l l' \<longrightarrow> sleeps_on l' \<or> (\<exists>m. life_steps K l m \<and> sleeps_on m \<and> life_steps K (m\<lparr>watcher := W_Check\<rparr>) l'))"
proof -
  let ?l0 = "life_start [''/exit''] s"
  let ?l1 = "?l0\<lparr>watcher := W_ToSleep\<rparr>"
  let ?l2 = "?l1\<lparr>console := C_Notify [], shutting_down := True\<rparr>"
  let ?l3 = "?l2\<lparr>console := C_Read []\<rparr>"
  let ?l4 = "?l3\<lparr>watcher := W_Asleep\<rparr>"
  let ?l5 = "?l4\<lparr>console := C_Done\<rparr>"
  have "slash_command (strip_both ws_chars ''/exit'') = Exit_command" by code_simp
  then have line: "console_line default_config ''/exit'' = Exit_command" by (simp add: console_line_slash)
  have "life_step K ?l0 ?l1" by (intro stepI[OF check]) (simp_all add: life_start_def)
  moreover have "life_step K ?l1 ?l2"
    by (intro stepI[OF read_exit[where x = "''/exit''" and xs = "[]"]]) (simp_all add: life_start_def line)
  moreover have "life_step K ?l2 ?l3" by (intro stepI[OF notify]) (simp_all add: life_start_def)
  moreover have "life_step K ?l3 ?l4" by (intro stepI[OF sleep]) (simp_all add: life_start_def)
  moreover have "life_step K ?l4 ?l5" by (intro stepI[OF read_eof]) (simp_all add: life_start_def)
  ultimately have "life_steps K ?l0 ?l5" by (meson converse_rtranclp_into_rtranclp r_into_rtranclp)
  moreover have "sleeps_on ?l5" by (simp add: sleeps_on_def)
  ultimately show ?thesis using sleeps_on_run[of ?l5 K] by (intro exI[of _ ?l5]) simp
qed

theorem shutdown_wakeup_lost_witness:
  "\<exists>l. life_steps no_cdn (life_start [''/exit''] idle_server) l \<and> shutting_down l \<and> watcher l = W_Asleep"
  using shutdown_wakeup_lost[of no_cdn idle_server] by blast

text \<open>
  C40. The console: a line is judged by its text without surrounding white space. The reader ends at the first blank line; a line asks
  for shutdown exactly when it is the prefix, any blanks, and \<^verbatim>\<open>exit\<close> in any mix of case; a line without the
  prefix is ignored.
\<close>
theorem console_line_correct:
  "let line = strip_both ws_chars x in
     (console_line default_config x = Leave \<longleftrightarrow> line = []) \<and>
     (console_line default_config x = Exit_command \<longleftrightarrow>
        (\<exists>bl cmd. line = ''/'' @ bl @ cmd \<and> set bl \<subseteq> set ws_chars \<and> lower cmd = ''exit'')) \<and>
     (console_line default_config x = Ignore \<longleftrightarrow> line \<noteq> [] \<and> hd line \<noteq> CHR ''/'')"
proof -
  let ?l = "strip_both ws_chars x"
  have "(\<exists>bl cmd. ?l = ''/'' @ bl @ cmd \<and> set bl \<subseteq> set ws_chars \<and> lower cmd = ''exit'') \<longleftrightarrow>
      ?l \<noteq> [] \<and> hd ?l = CHR ''/'' \<and> lower (dropWhile (\<lambda>c. c \<in> set ws_chars) (tl ?l)) = ''exit''"
    unfolding lower_exit_split by (cases ?l) auto
  then show ?thesis
    unfolding Let_def console_line_slash slash_command_def by auto
qed

end
