(* ===== verification/Spec2Isabelle.thy ===== *)
theory Spec2Isabelle
  imports Sanitize Config Worker Codec Cache Supabase Jwt RateLimit Auth Cdn Server Service Chain Lifecycle
begin

text \<open>
  A verification development for the backend of Fox, a small social network (\<^verbatim>\<open>backend/src\<close>, C++). Users log
  in with Google, write posts with media, list and like them. The backend is one process with two
  servers and shared helpers:

  \<^item> the \<^emph>\<open>gRPC service\<close> (\<^verbatim>\<open>server/server.cpp\<close>) answers the ten calls of \<^verbatim>\<open>social.proto\<close>. Each call passes the
    rate limiter and the authentication interceptor (\<^verbatim>\<open>middlewares/\<close>), which validates the token
    with the JWT validator (\<^verbatim>\<open>jwt/validator.cpp\<close>). Handlers read through the Redis cache
    (\<^verbatim>\<open>cache/cache.h\<close>), talk to the database over HTTP (\<^verbatim>\<open>db/supabase.cpp\<close>), filter user input
    (\<^verbatim>\<open>utils/sanitize.cpp\<close>) and make identifiers (\<^verbatim>\<open>crypto/cryptbaby.cpp\<close>);
  \<^item> the \<^emph>\<open>media server\<close> (\<^verbatim>\<open>server/http_server.h\<close>) takes uploads, recompresses them (\<^verbatim>\<open>codec/codec.cpp\<close>), keeps
    them in an S3 bucket and serves them; deletions run on a worker pool (\<^verbatim>\<open>worker/worker.h\<close>);
  \<^item> \<^verbatim>\<open>main.cpp\<close> loads the environment (\<^verbatim>\<open>utils/dotenv.h\<close>, \<^verbatim>\<open>app.h\<close>), reads the console
    (\<^verbatim>\<open>command/command.h\<close>), starts both servers and stops them on request.

  \<^bold>\<open>How code becomes definitions.\<close> A pure C++ function is a HOL function of the same name. A function
  that reads or writes shared state or throws is an \<^emph>\<open>action\<close> (theory \<open>Action\<close>): from the state to an
  exception or a value, and the new state; \<open>bnd\<close> is the semicolon, \<open>try_catch\<close> a try block. Exceptions are values of type
  \<open>exn\<close>, with three outcomes no handler catches: a loop out of fuel, undefined behaviour (a dangling pointer, a write past
  the end of a buffer), a call that never returns. The state is one extensible record: \<open>World\<close> starts it with the trace of everything
  asked of the outside, and each component adds its members. Strings are byte lists, fixed-width
  integers are words or integers with the reduction written out.

  \<^bold>\<open>The outside.\<close> HTTP peers, Redis, S3, libsodium's bytes and the clocks are fields of the record \<open>env\<close>
  (theory \<open>World\<close>): arbitrary functions of the trace and the question, so they may keep state and fail at
  any time. OpenSSL (\<open>Jwt\<close>), libxml2 (\<open>Sanitize\<close>), libvips and ffmpeg (\<open>Codec\<close>), and of \<^verbatim>\<open>json.hpp\<close> the
  conversion of doubles to and from text (\<open>float_io\<close>) and the wording of its parse errors are parameters as well. A theorem that needs a documented property of one of them has it as a hypothesis (\<open>html_rooted\<close>,
  \<open>text_merging\<close>, \<open>evp_decodes\<close>, \<open>redis_honest\<close>, \<open>redis_keeps\<close>, \<open>s3_keeps\<close>, \<open>floats_ok\<close>, \<open>fair_source\<close>, a clock that does not go
  back), and its witness gives a concrete instance.

  \<^bold>\<open>The theories\<close>, in the order of dependence:

  \<^item> \<open>Prelude\<close>: strings, numbers and lines of the standard library; the interfaces \<open>text_codec\<close> (an encoding
    that is read back) and \<open>safe_filter\<close> (an idempotent filter), interpreted in the components.
  \<^item> \<open>Action\<close>: exceptions, actions and three calculi over them: weakest preconditions (\<open>wp\<close>), preserved
    predicates (\<open>keeps\<close>), actions all of whose exceptions can be caught (\<open>catchable\<close>); the interface
    \<open>answering\<close> of calls that are answered unless they stop in a known way.
  \<^item> \<open>Json\<close>: the values and accessors of \<^verbatim>\<open>libs/json.hpp\<close> the backend uses, with their type errors,
    and their well-formedness.
  \<^item> \<open>JsonText\<close>: the serializer behind \<^verbatim>\<open>dump()\<close>: the UTF-8 decoder with its table accepts exactly UTF-8, the printer of
    integers gives the decimal numeral of every 64-bit value.
  \<^item> \<open>JsonParse\<close>: the lexer and the parser behind \<^verbatim>\<open>json::parse\<close>: strings with escapes and surrogates, the
    state machine of numbers, tokens, and the loop over them with its stack of open containers; all terminate.
  \<^item> \<open>JsonRoundtrip\<close>: a printed value is read back, and what the parser returns is well formed and can be
    printed. A non-negative number of the signed type comes back unsigned (\<open>reread\<close>), which the rows the backend reads
    do not show.
  \<^item> \<open>World\<close>: messages, environment, trace; \<open>emits\<close> (which events an action may log) and \<open>frames\<close> (what it
    leaves alone).
  \<^item> \<open>Crypt\<close> (\<^verbatim>\<open>crypto/cryptbaby.cpp\<close>): identifiers terminate, have the right form and are unbiased; Base64 is
    read back.
  \<^item> \<open>Sanitize\<close> (\<^verbatim>\<open>utils/sanitize.cpp\<close>): what the HTML and URL filters guarantee, and the hole that elements unwrapped
    from a refused tag are not filtered.
  \<^item> \<open>Config\<close> (\<^verbatim>\<open>utils/dotenv.h\<close>, \<^verbatim>\<open>app.h\<close>): the environment after \<^verbatim>\<open>LoadEnv\<close>, line by line.
  \<^item> \<open>Worker\<close> (\<^verbatim>\<open>worker/worker.h\<close>): the queue refines a bounded FIFO (\<open>bounded_fifo\<close>); threads and callers as a step
    relation with an invariant over all interleavings, progress, and the destructor that never
    returns.
  \<^item> \<open>Codec\<close> (\<^verbatim>\<open>codec/codec.cpp\<close>): image compression never enlarges; the Windows build of video
    compression always fails.
  \<^item> \<open>Cache\<close> (\<^verbatim>\<open>cache/cache.h\<close>): key scheme (\<open>key_space\<close>) and coherence over a Redis that starts with anything, loses
    entries and fails commands, with this backend as the only writer of its keys.
  \<^item> \<open>Supabase\<close> (\<^verbatim>\<open>db/supabase.cpp\<close>): the query builder (\<open>param_list\<close>), and for every operation the one request it sends and
    what it makes of the answer.
  \<^item> \<open>Jwt\<close> (\<^verbatim>\<open>jwt/validator.cpp\<close>): soundness of token validation, base64url and its buffer overrun. An overrun is
    undefined behaviour, so the theorems on accepted tokens speak of runs without one; by \<open>base64url_roundtrip\<close> a
    256-byte signature always causes one, and what the compiled program then does depends on its allocator.
  \<^item> \<open>RateLimit\<close> (\<^verbatim>\<open>middlewares/ratelimit.cpp\<close>): the sliding window (\<open>sliding_window\<close>) is exact and is a bound for every
    run of requests.
  \<^item> \<open>Auth\<close> (\<^verbatim>\<open>middlewares/authMiddle.cpp\<close>): the user table (\<open>user_store\<close>), cookies, OAuth exchanges, the interceptor.
  \<^item> \<open>Cdn\<close> (\<^verbatim>\<open>server/http_server.h\<close>): the media routes; safety of uploads and agreement of upload and download.
  \<^item> \<open>Server\<close> (\<^verbatim>\<open>server/server.cpp\<close>): the ten handlers, interceptor chain, start and stop.
  \<^item> \<open>Service\<close>: the calculus \<open>tame\<close> of handlers and their properties: who may delete, what is stored, paging,
    the cached feed, refused calls that run.
  \<^item> \<open>Chain\<close>: whole calls, from the interceptors through the handler: the limits of the service over any sequence of
    calls, and the way from a validated token to a deletion.
  \<^item> \<open>Lifecycle\<close> (\<^verbatim>\<open>main.cpp\<close>, \<^verbatim>\<open>command/command.h\<close>): console, application context, the threads of \<^verbatim>\<open>main\<close>
    as a step relation; when the program can end, and the wake-up it can lose.
  \<^item> this theory: sequences of calls on the application's state.

  \<^bold>\<open>Bounds and fuel.\<close> Only \<^verbatim>\<open>generateSecId\<close> loops on what a service returns (it rejects biased bytes), so only its
  model takes fuel, one unit per round. \<open>generateSecId_returns\<close> shows that any fuel that yields
  27 usable bytes is enough; handlers that call it take the fuel along and rely on \<open>fair_source\<close>,
  which says just that. Every other loop ends: the recursion is structural or has a measure, the rest of the input in the
  lexer and parser of \<^verbatim>\<open>json.hpp\<close>, the value in its printer of integers.

  \<^bold>\<open>Granularity.\<close> In \<open>Worker\<close> a step is what happens under the queue's mutex; in \<open>Lifecycle\<close> a step is one call of a
  component or one access to the shutdown flag. Handlers are actions run one after the other:
  their interleaving inside one process is not modelled. The interceptors run in the order gRPC
  runs them: at reception in reverse order of registration, at sending in order (its headers under
  \<^verbatim>\<open>backend/include/grpcpp\<close>). Only the two hook points the interceptors ask for are modelled, not gRPC's
  continuation \<^verbatim>\<open>Proceed()\<close>, which both call last when no exception ends them.

  \<^bold>\<open>Simplifications.\<close> A double too large for the integer type it is read as is reduced to its width, where C++ leaves the cast
  undefined (\<open>get_word32\<close>); doubles have no negative zero. A task of the worker pool is never an empty
  \<^verbatim>\<open>std::function\<close>, which the program does not submit.

  \<^bold>\<open>Not modelled.\<close> Log output (\<^verbatim>\<open>utils/logger.cpp\<close> and the writes to standard error); the vendored libraries
  (\<^verbatim>\<open>libs/http.h\<close>, \<^verbatim>\<open>libs/jwt.h\<close>, \<^verbatim>\<open>libs/miniocpp\<close>; of \<^verbatim>\<open>libs/json.hpp\<close> what the backend does not call, such as pretty
  printing, binary formats, pointers and patches, and the Grisu2 printer of doubles) and the headers under
  \<^verbatim>\<open>backend/include\<close>, which are third-party code; generated protobuf code, whose messages are records; the
  SQL of \<^verbatim>\<open>backend/sql\<close>, which the database runs; the frontend, a separate program.
\<close>

section \<open>The application as a whole\<close>





end
